(* ===== verification/Prelude.thy ===== *)
theory Prelude
  imports Complex_Main "HOL-Library.Word" "HOL-Library.AList" "HOL-Library.Sublist"
    "HOL-Library.List_Lexorder" "HOL-Library.Char_ord"
begin

text \<open>
  Shared vocabulary of the development: the machine types of the Go program, Go's built-in
  \<open>map\<close> as an interface with its implementation by association lists, and the generic facts on
  lists the components share.  A Go string is a sequence of bytes, so \<open>string\<close> (a list of 8-bit
  characters) and \<open>length\<close> are exactly Go's \<open>string\<close> and \<open>len\<close>.
\<close>

named_theorems go_simps \<open>unfoldings of the small helpers of the Go standard library\<close>
named_theorems inv_intros \<open>preservation of the components' invariants\<close>

type_synonym u64 = "64 word"

subsection \<open>Go's built-in map\<close>

text \<open>
  The interface: reading a key (the comma-ok form), storing, deleting, deleting the entries a
  predicate rejects (a \<open>range\<close> loop over the map whose body deletes), and the number of entries.
\<close>

locale go_map =
  fixes get :: "'m \<Rightarrow> 'k \<Rightarrow> 'v option"
    and put :: "'k \<Rightarrow> 'v \<Rightarrow> 'm \<Rightarrow> 'm"
    and del :: "'k \<Rightarrow> 'm \<Rightarrow> 'm"
    and keep :: "('v \<Rightarrow> bool) \<Rightarrow> 'm \<Rightarrow> 'm"
    and entries :: "'m \<Rightarrow> nat"
    and wf :: "'m \<Rightarrow> bool"
  assumes get_put: "get (put k v m) = (get m)(k := Some v)"
    and get_del: "get (del k m) = (get m)(k := None)"
    and get_keep: "wf m \<Longrightarrow> get (keep P m) k =
      (case get m k of None \<Rightarrow> None | Some v \<Rightarrow> if P v then Some v else None)"
    and wf_put: "wf m \<Longrightarrow> wf (put k v m)"
    and wf_del: "wf m \<Longrightarrow> wf (del k m)"
    and wf_keep: "wf m \<Longrightarrow> wf (keep P m)"
    and entries_put_old: "wf m \<Longrightarrow> get m k = Some w \<Longrightarrow> entries (put k v m) = entries m"
    and entries_put_new: "wf m \<Longrightarrow> get m k = None \<Longrightarrow> entries (put k v m) = Suc (entries m)"
    and entries_del: "entries (del k m) \<le> entries m"
    and entries_keep: "entries (keep P m) \<le> entries m"
begin

lemma entries_put_le: "wf m \<Longrightarrow> entries (put k v m) \<le> Suc (entries m)"
  by (cases "get m k") (simp_all add: entries_put_old entries_put_new)

lemma get_put_same: "get (put k v m) k = Some v"
  by (simp add: get_put)

lemma get_put_other: "k \<noteq> k' \<Longrightarrow> get (put k v m) k' = get m k'"
  by (simp add: get_put)

lemma get_del_same: "get (del k m) k = None"
  by (simp add: get_del)

text \<open>The store-if-there-is-room step of a bounded map: the bound is kept.\<close>

lemma bounded_put:
  assumes "wf m" and "entries m \<le> n" and "get m k \<noteq> None \<or> entries m < n"
  shows "entries (put k v m) \<le> n"
  using assms by (cases "get m k") (auto simp: entries_put_old entries_put_new)

lemmas map_laws = get_put get_del get_keep wf_put wf_del wf_keep

end

text \<open>
  The implementation used by the model: association lists with distinct keys.  Go leaves the
  iteration order of a map unspecified; no operation of the program depends on it.
\<close>

type_synonym ('k, 'v) amap = "('k \<times> 'v) list"

definition amap_get :: "('k, 'v) amap \<Rightarrow> 'k \<Rightarrow> 'v option" where
  "amap_get m = map_of m"

definition amap_put :: "'k \<Rightarrow> 'v \<Rightarrow> ('k, 'v) amap \<Rightarrow> ('k, 'v) amap" where
  "amap_put k v m = AList.update k v m"

definition amap_del :: "'k \<Rightarrow> ('k, 'v) amap \<Rightarrow> ('k, 'v) amap" where
  "amap_del k m = AList.delete k m"

definition amap_keep :: "('v \<Rightarrow> bool) \<Rightarrow> ('k, 'v) amap \<Rightarrow> ('k, 'v) amap" where
  "amap_keep P m = filter (\<lambda>(_, v). P v) m"

definition amap_wf :: "('k, 'v) amap \<Rightarrow> bool" where
  "amap_wf m = distinct (map fst m)"

lemmas amap_defs = amap_get_def amap_put_def amap_del_def amap_keep_def amap_wf_def

lemma length_update_old:
  "map_of m k = Some w \<Longrightarrow> length (AList.update k v m) = length m"
  by (induction m) (auto split: if_splits)

lemma length_update_new:
  "map_of m k = None \<Longrightarrow> length (AList.update k v m) = Suc (length m)"
  by (induction m) (auto split: if_splits)

lemma length_delete_le: "length (AList.delete k m) \<le> length m"
  by (simp add: AList.delete_eq)

lemma map_of_filter_value:
  "distinct (map fst m) \<Longrightarrow> map_of (filter (\<lambda>(_, v). P v) m) k =
     (case map_of m k of None \<Rightarrow> None | Some v \<Rightarrow> if P v then Some v else None)"
proof (induction m)
  case Nil
  then show ?case by simp
next
  case (Cons a m)
  obtain x v where a: "a = (x, v)" by force
  have "map_of m x = None" using Cons.prems a by (auto simp: map_of_eq_None_iff)
  then show ?case using Cons a by (auto split: option.splits)
qed

lemma distinct_map_filter_fst: "distinct (map fst m) \<Longrightarrow> distinct (map fst (filter P m))"
  by (induction m) auto

interpretation amap: go_map amap_get amap_put amap_del amap_keep length amap_wf
proof unfold_locales
  show "\<And>k v m. amap_get (amap_put k v m) = (amap_get m)(k := Some v)"
    by (simp add: amap_defs update_conv')
  show "\<And>k m. amap_get (amap_del k m) = (amap_get m)(k := None)"
    by (simp add: amap_defs delete_conv')
  show "\<And>m P k. amap_wf m \<Longrightarrow> amap_get (amap_keep P m) k =
      (case amap_get m k of None \<Rightarrow> None | Some v \<Rightarrow> if P v then Some v else None)"
    by (simp add: amap_defs map_of_filter_value)
qed (auto simp: amap_defs distinct_update distinct_delete distinct_map_filter_fst
       length_update_old length_update_new length_delete_le)

subsection \<open>Generic facts on lists\<close>

lemma find_Some_mem: "find P xs = Some x \<Longrightarrow> x \<in> set xs \<and> P x"
  by (auto simp: find_Some_iff)

lemma find_None_all: "find P xs = None \<Longrightarrow> x \<in> set xs \<Longrightarrow> \<not> P x"
  by (simp add: find_None_iff)

lemma find_unique:
  assumes "\<And>x y. x \<in> set xs \<Longrightarrow> y \<in> set xs \<Longrightarrow> P x \<Longrightarrow> P y \<Longrightarrow> x = y"
  shows "find P xs = Some x \<longleftrightarrow> x \<in> set xs \<and> P x"
proof
  assume x: "x \<in> set xs \<and> P x"
  show "find P xs = Some x"
  proof (cases "find P xs")
    case None
    then show ?thesis using x by (auto simp: find_None_iff)
  next
    case (Some y)
    then show ?thesis using assms [of y x] x find_Some_mem [OF Some] by simp
  qed
qed (rule find_Some_mem)

lemma option_ext: "(\<And>q. x = Some q \<longleftrightarrow> y = Some q) \<Longrightarrow> x = y"
  by (cases x; cases y) auto

lemma distinct_map_inj: "distinct (map f xs) \<Longrightarrow> x \<in> set xs \<Longrightarrow> y \<in> set xs \<Longrightarrow> f x = f y \<Longrightarrow> x = y"
  by (auto simp: distinct_map inj_on_def)

lemma sorted_hd_le: "sorted (x # xs) \<Longrightarrow> y \<in> set (x # xs) \<Longrightarrow> x \<le> y"
  by auto


subsection \<open>Early returns\<close>

text \<open>A sequence of checks that returns the first error, and a loop over a slice whose body may
  return an error.\<close>

fun first_some :: "'e option list \<Rightarrow> 'e option" where
  "first_some [] = None"
| "first_some (None # xs) = first_some xs"
| "first_some (Some e # xs) = Some e"

definition fail_if :: "bool \<Rightarrow> 'e \<Rightarrow> 'e option" where
  "fail_if c e = (if c then Some e else None)"

definition for_each :: "('a \<Rightarrow> 'e option) \<Rightarrow> 'a list \<Rightarrow> 'e option" where
  "for_each f xs = first_some (map f xs)"

lemma first_some_None: "first_some xs = None \<longleftrightarrow> (\<forall>x \<in> set xs. x = None)"
  by (induction xs rule: first_some.induct) auto

lemma first_some_Cons: "first_some (x # xs) = (case x of None \<Rightarrow> first_some xs | Some e \<Rightarrow> Some e)"
  by (cases x) auto

lemma first_some_append:
  "first_some (xs @ ys) = (case first_some xs of None \<Rightarrow> first_some ys | Some e \<Rightarrow> Some e)"
  by (induction xs rule: first_some.induct) auto

lemma fail_if_None [simp]: "fail_if c e = None \<longleftrightarrow> \<not> c"
  by (simp add: fail_if_def)

lemma fail_if_Some [simp]: "fail_if c e = Some e' \<longleftrightarrow> c \<and> e' = e"
  by (auto simp: fail_if_def)

lemma for_each_None [simp]: "for_each f xs = None \<longleftrightarrow> (\<forall>x \<in> set xs. f x = None)"
  by (simp add: for_each_def first_some_None)

lemma for_each_Some: "for_each f xs = Some e \<Longrightarrow> \<exists>x \<in> set xs. f x = Some e"
  by (induction xs) (auto simp: for_each_def first_some_Cons split: option.splits)

end
