(* ===== verification/GoFloat.thy ===== *)
theory GoFloat
  imports Prelude "HOL-Library.Log_Nat"
begin

text \<open>
  Go's \<open>float64\<close>: IEEE 754 binary64 with rounding to nearest, ties to even.  A finite value is
  the rational it denotes; the sign of zero is left out, because no operation of the program
  tells \<open>-0\<close> from \<open>+0\<close>.  Every arithmetic operation rounds its exact result (\<open>fl\<close>), so the
  rounding errors of the code are errors of the model, and all of it evaluates in the kernel.
\<close>

datatype float64 = Fin rat | PInf | NInf | NaN

definition pow2 :: "int \<Rightarrow> rat" where
  "pow2 e = (if 0 \<le> e then 2 ^ nat e else 1 / 2 ^ nat (- e))"

text \<open>The nearest integer, the even one on a tie.\<close>

definition rne :: "rat \<Rightarrow> int" where
  "rne q = (let f = \<lfloor>q\<rfloor>; d = q - of_int f in
     if d < 1/2 then f else if 1/2 < d then f + 1 else if even f then f else f + 1)"

text \<open>The exponent of the unit in the last place of a positive number: 53 bits of
  significand, no exponent below that of the smallest subnormal.\<close>

definition fexp :: "rat \<Rightarrow> int" where
  "fexp q = (case quotient_of q of (a, b) \<Rightarrow>
     let e = bitlen a - bitlen b - 53 in
     max (-1074) (if pow2 53 \<le> q / pow2 e then e + 1 else e))"

definition rnd_pos :: "rat \<Rightarrow> rat" where
  "rnd_pos q = of_int (rne (q / pow2 (fexp q))) * pow2 (fexp q)"

definition fl :: "rat \<Rightarrow> float64" where
  "fl q = (if q = 0 then Fin 0
     else if 0 < q then (let r = rnd_pos q in if pow2 1024 \<le> r then PInf else Fin r)
     else (let r = rnd_pos (- q) in if pow2 1024 \<le> r then NInf else Fin (- r)))"

subsection \<open>Operations\<close>

definition float_of_u64 :: "u64 \<Rightarrow> float64" where
  "float_of_u64 w = fl (of_int (uint w))"

definition float_of_int :: "int \<Rightarrow> float64" where
  "float_of_int k = fl (of_int k)"

fun fneg :: "float64 \<Rightarrow> float64" where
  "fneg (Fin a) = Fin (- a)"
| "fneg PInf = NInf"
| "fneg NInf = PInf"
| "fneg NaN = NaN"

fun fadd :: "float64 \<Rightarrow> float64 \<Rightarrow> float64" where
  "fadd (Fin a) (Fin b) = fl (a + b)"
| "fadd NaN _ = NaN"
| "fadd _ NaN = NaN"
| "fadd PInf NInf = NaN"
| "fadd NInf PInf = NaN"
| "fadd PInf _ = PInf"
| "fadd _ PInf = PInf"
| "fadd NInf _ = NInf"
| "fadd _ NInf = NInf"

definition inf_of_sign :: "rat \<Rightarrow> float64" where
  "inf_of_sign a = (if a = 0 then NaN else if 0 < a then PInf else NInf)"

fun fmul :: "float64 \<Rightarrow> float64 \<Rightarrow> float64" where
  "fmul (Fin a) (Fin b) = fl (a * b)"
| "fmul NaN _ = NaN"
| "fmul _ NaN = NaN"
| "fmul (Fin a) PInf = inf_of_sign a"
| "fmul (Fin a) NInf = inf_of_sign (- a)"
| "fmul PInf (Fin a) = inf_of_sign a"
| "fmul NInf (Fin a) = inf_of_sign (- a)"
| "fmul PInf PInf = PInf"
| "fmul NInf NInf = PInf"
| "fmul PInf NInf = NInf"
| "fmul NInf PInf = NInf"

fun fdiv :: "float64 \<Rightarrow> float64 \<Rightarrow> float64" where
  "fdiv (Fin a) (Fin b) = (if b = 0 then inf_of_sign a else fl (a / b))"
| "fdiv NaN _ = NaN"
| "fdiv _ NaN = NaN"
| "fdiv (Fin a) _ = Fin 0"
| "fdiv PInf (Fin b) = (if b < 0 then NInf else PInf)"
| "fdiv NInf (Fin b) = (if b < 0 then PInf else NInf)"
| "fdiv _ _ = NaN"

text \<open>Go's comparisons: every comparison with a NaN is false.\<close>

fun flt :: "float64 \<Rightarrow> float64 \<Rightarrow> bool" where
  "flt (Fin a) (Fin b) = (a < b)"
| "flt NaN _ = False"
| "flt _ NaN = False"
| "flt NInf NInf = False"
| "flt NInf _ = True"
| "flt PInf _ = False"
| "flt (Fin _) PInf = True"
| "flt (Fin _) NInf = False"

fun fle :: "float64 \<Rightarrow> float64 \<Rightarrow> bool" where
  "fle (Fin a) (Fin b) = (a \<le> b)"
| "fle NaN _ = False"
| "fle _ NaN = False"
| "fle NInf _ = True"
| "fle _ PInf = True"
| "fle PInf _ = False"
| "fle (Fin _) NInf = False"

fun is_nan :: "float64 \<Rightarrow> bool" where
  "is_nan NaN = True"
| "is_nan _ = False"

fun is_inf :: "float64 \<Rightarrow> bool" where
  "is_inf PInf = True"
| "is_inf NInf = True"
| "is_inf _ = False"

text \<open>Conversion to an integer truncates towards zero; Go leaves the result of converting a
  value out of range (and a NaN) to the implementation, so it has no value here.\<close>

fun int_of_float :: "float64 \<Rightarrow> int option" where
  "int_of_float (Fin a) =
     (let k = (if 0 \<le> a then \<lfloor>a\<rfloor> else \<lceil>a\<rceil>) in
      if - (2 ^ 63) \<le> k \<and> k < 2 ^ 63 then Some k else None)"
| "int_of_float _ = None"


subsection \<open>Powers of two and the exponent\<close>

lemma pow2_powi: "pow2 e = power_int 2 e"
  by (simp add: pow2_def power_int_def power_divide inverse_eq_divide)

lemma pow2_pos [simp]: "0 < pow2 e"
  by (simp add: pow2_def)

lemma pow2_nonneg [simp]: "0 \<le> pow2 e"
  by (simp add: pow2_def)

lemma pow2_nonzero [simp]: "pow2 e \<noteq> 0"
  by (simp add: pow2_def)

lemma pow2_add: "pow2 (a + b) = pow2 a * pow2 b"
  by (simp add: pow2_powi power_int_add)

lemma pow2_mono: "a \<le> b \<Longrightarrow> pow2 a \<le> pow2 b"
  by (simp add: pow2_powi power_int_increasing)

lemma pow2_less_imp: "pow2 a < pow2 b \<Longrightarrow> a < b"
  using pow2_mono [of b a] by (cases "a < b") auto

lemma pow2_nat: "pow2 (int n) = 2 ^ n"
  by (simp add: pow2_def)

lemma bitlen_pow2:
  assumes "0 < a"
  shows "pow2 (bitlen a - 1) \<le> of_int a" "of_int a < pow2 (bitlen a)"
proof -
  have b: "2 ^ nat (bitlen a - 1) \<le> a" "a < 2 ^ nat (bitlen a)"
    using bitlen_bounds [OF assms] by auto
  have p: "0 < bitlen a" using b(2) assms by (cases "bitlen a \<le> 0") simp_all
  from b(1) have "of_int (2 ^ nat (bitlen a - 1)) \<le> (of_int a :: rat)" by (simp only: of_int_le_iff)
  with p show "pow2 (bitlen a - 1) \<le> of_int a" by (simp add: pow2_def)
  from b(2) have "of_int a < (of_int (2 ^ nat (bitlen a)) :: rat)" by (simp only: of_int_less_iff)
  with p show "of_int a < pow2 (bitlen a)" by (simp add: pow2_def)
qed

lemma quotient_bounds:
  assumes "0 < q" and q: "quotient_of q = (a, b)"
  shows "pow2 (bitlen a - bitlen b - 1) < q" and "q < pow2 (bitlen a - bitlen b + 1)"
proof -
  have b0: "0 < b" using quotient_of_denom_pos [OF q] .
  have qab: "q = of_int a / of_int b" using quotient_of_div [OF q] .
  have a0: "0 < a" using assms(1) b0 by (simp add: qab zero_less_divide_iff)
  have e1: "bitlen a - 1 = (bitlen a - bitlen b - 1) + bitlen b" by simp
  have e2: "bitlen a = (bitlen a - bitlen b + 1) + (bitlen b - 1)" by simp
  have "pow2 (bitlen a - bitlen b - 1) * of_int b < pow2 (bitlen a - bitlen b - 1) * pow2 (bitlen b)"
    using bitlen_pow2(2) [OF b0] by (simp del: of_int_mult)
  also have "\<dots> \<le> of_int a" using bitlen_pow2(1) [OF a0] by (simp flip: pow2_add)
  finally show "pow2 (bitlen a - bitlen b - 1) < q" using b0 by (simp add: qab pos_less_divide_eq)
  have "of_int a < pow2 ((bitlen a - bitlen b + 1) + (bitlen b - 1))"
    using bitlen_pow2(2) [OF a0] e2 by simp
  also have "\<dots> \<le> pow2 (bitlen a - bitlen b + 1) * of_int b"
    unfolding pow2_add [of "bitlen a - bitlen b + 1"] using bitlen_pow2(1) [OF b0] by simp
  finally show "q < pow2 (bitlen a - bitlen b + 1)" using b0 by (simp add: qab pos_divide_less_eq)
qed

lemma fexp_bounds:
  assumes "0 < q"
  obtains e where "fexp q = max (-1074) e" "pow2 (52 + e) \<le> q" "q < pow2 (53 + e)"
proof -
  obtain a b where ab: "quotient_of q = (a, b)" by force
  note lim = quotient_bounds [OF assms ab]
  define e where "e = bitlen a - bitlen b - 53"
  have lo: "pow2 (52 + e) < q" and hi: "q < pow2 (54 + e)"
    using lim by (simp_all add: e_def algebra_simps)
  have cond: "pow2 53 \<le> q / pow2 e \<longleftrightarrow> pow2 (53 + e) \<le> q"
    by (simp add: pow2_add pos_le_divide_eq)
  show ?thesis
  proof (cases "pow2 (53 + e) \<le> q")
    case True
    have h: "52 + (e + 1) = 53 + e" "53 + (e + 1) = 54 + e" by simp_all
    show ?thesis
    proof (rule that [of "e + 1"])
      show "fexp q = max (-1074) (e + 1)"
        using True by (simp add: fexp_def ab cond Let_def flip: e_def)
    qed (simp_all only: h True hi)
  next
    case False
    show ?thesis
    proof (rule that [of e])
      show "fexp q = max (-1074) e"
        using False by (simp add: fexp_def ab cond Let_def flip: e_def)
    qed (use lo False in simp_all)
  qed
qed

subsection \<open>Rounding\<close>

lemma rne_error: "\<bar>of_int (rne q) - q\<bar> \<le> 1/2"
proof -
  have "of_int \<lfloor>q\<rfloor> \<le> q" "q < of_int \<lfloor>q\<rfloor> + 1"
    using floor_correct [of q] by auto
  then show ?thesis by (simp add: rne_def Let_def abs_le_iff)
qed

lemma rne_of_int [simp]: "rne (of_int k) = k"
  by (simp add: rne_def Let_def)

lemma rne_nonneg: "0 \<le> q \<Longrightarrow> 0 \<le> rne q"
  by (auto simp: rne_def Let_def)

lemma rnd_pos_nonneg: "0 \<le> q \<Longrightarrow> 0 \<le> rnd_pos q"
  by (simp add: rnd_pos_def rne_nonneg)

text \<open>The relative error of rounding a number in the normal range is at most \<open>2 ^ -53\<close>.\<close>

lemma rnd_pos_error:
  assumes "pow2 (-1022) \<le> q"
  shows "\<bar>rnd_pos q - q\<bar> \<le> q * pow2 (-53)"
proof -
  have q0: "0 < q" using assms pow2_pos [of "-1022"] by linarith
  obtain e where e: "fexp q = max (-1074) e" "pow2 (52 + e) \<le> q" "q < pow2 (53 + e)"
    using fexp_bounds [OF q0] .
  have "pow2 (-1022) < pow2 (53 + e)" using assms e(3) by linarith
  then have "fexp q = e" using pow2_less_imp [of "-1022" "53 + e"] e(1) by simp
  let ?p = "pow2 e"
  have "rnd_pos q - q = (of_int (rne (q / ?p)) - q / ?p) * ?p"
    using \<open>fexp q = e\<close> by (simp add: rnd_pos_def left_diff_distrib)
  then have "\<bar>rnd_pos q - q\<bar> = \<bar>of_int (rne (q / ?p)) - q / ?p\<bar> * ?p"
    by (simp add: abs_mult)
  also have "\<dots> \<le> 1/2 * ?p" by (intro mult_right_mono rne_error) simp
  also have "\<dots> = pow2 (52 + e) * pow2 (-53)"
    by (simp add: pow2_def [of "-1"] flip: pow2_add) (simp add: pow2_powi power_int_diff)
  also have "\<dots> \<le> q * pow2 (-53)" using e(2) by (intro mult_right_mono) simp_all
  finally show ?thesis .
qed

lemma rnd_pos_int:
  assumes "0 < k" and "k < 2 ^ 53"
  shows "rnd_pos (of_int k) = of_int k"
proof -
  have k1: "(1::rat) \<le> of_int k" using assms(1) by simp
  have k0: "(0::rat) < of_int k" using assms(1) by simp
  obtain e where e: "fexp (of_int k) = max (-1074) e"
      "pow2 (52 + e) \<le> of_int k" "of_int k < pow2 (53 + e)"
    using fexp_bounds [OF k0] .
  have "of_int k < (of_int (2 ^ 53) :: rat)" using assms(2) by (simp only: of_int_less_iff)
  then have "pow2 (52 + e) < pow2 53" using e(2) by (simp add: pow2_def [of 53])
  then have "e \<le> 0" using pow2_less_imp by fastforce
  have "pow2 0 < pow2 (53 + e)" using e(3) k1 by (simp add: pow2_def [of 0])
  then have "fexp (of_int k) = e" using pow2_less_imp [of 0 "53 + e"] e(1) by simp
  have whole: "of_int k / pow2 e = (of_int (k * 2 ^ nat (- e)) :: rat)"
    using \<open>e \<le> 0\<close> by (cases "e = 0") (simp_all add: pow2_def)
  have "of_int (rne (of_int k / pow2 e)) = (of_int k / pow2 e :: rat)"
    unfolding whole rne_of_int ..
  then show ?thesis by (simp add: rnd_pos_def \<open>fexp (of_int k) = e\<close>)
qed

text \<open>Integers below \<open>2 ^ 53\<close> are exact.\<close>

lemma fl_int:
  assumes "\<bar>k\<bar> < 2 ^ 53"
  shows "fl (of_int k) = Fin (of_int k)"
proof -
  have big: "(of_int (2 ^ 53) :: rat) \<le> pow2 1024"
    using pow2_mono [of 53 1024] by (simp add: pow2_def [of 53])
  have lt: "\<not> pow2 1024 \<le> of_int j" if "j < 2 ^ 53" for j :: int
  proof -
    have "(of_int j :: rat) < of_int (2 ^ 53)" using that by (simp only: of_int_less_iff)
    then show ?thesis using big by linarith
  qed
  consider "k = 0" | "0 < k" | "k < 0" by linarith
  then show ?thesis
  proof cases
    case 3
    then have "rnd_pos (of_int (- k)) = of_int (- k)" using assms by (intro rnd_pos_int) auto
    then show ?thesis using 3 assms lt [of "- k"] by (simp add: fl_def)
  qed (use assms rnd_pos_int [of k] lt [of k] in \<open>auto simp: fl_def\<close>)
qed

lemma float_of_int_exact: "\<bar>k\<bar> < 2 ^ 53 \<Longrightarrow> float_of_int k = Fin (of_int k)"
  by (simp add: float_of_int_def fl_int)

lemma fl_nonneg_cases:
  assumes "0 \<le> q"
  obtains r where "fl q = Fin r" "0 \<le> r" | "fl q = PInf"
proof (cases "q = 0 \<or> rnd_pos q < pow2 1024")
  case True
  then show ?thesis using that(1) [of "if q = 0 then 0 else rnd_pos q"] assms rnd_pos_nonneg [OF assms]
    by (auto simp: fl_def Let_def)
next
  case False
  then show ?thesis using that(2) assms by (simp add: fl_def Let_def)
qed

lemma fl_in_range:
  assumes "1 \<le> q" and "q \<le> 2 ^ 60"
  obtains r where "fl q = Fin r" "\<bar>r - q\<bar> \<le> q * pow2 (-53)"
proof -
  have "pow2 (-1022) \<le> q" using assms(1) pow2_mono [of "-1022" 0] by (simp add: pow2_def [of 0])
  note err = rnd_pos_error [OF this]
  have s: "q * pow2 (-53) \<le> q * 1"
    using assms(1) pow2_mono [of "-53" 0] by (intro mult_left_mono) (simp_all add: pow2_def [of 0])
  have "rnd_pos q \<le> 2 * q" using err s by (auto simp: abs_le_iff)
  also have "\<dots> < pow2 62" using assms(2) by (simp add: pow2_def)
  also have "\<dots> \<le> pow2 1024" by (rule pow2_mono) simp
  finally show ?thesis using that err assms(1) by (simp add: fl_def)
qed

end
