(* ===== verification/GoText.thy ===== *)
theory GoText
  imports Prelude
begin

text \<open>
  The functions of Go's \<open>strings\<close>, \<open>strconv\<close> and \<open>bufio\<close> packages the program uses, on
  byte strings: decimal numbers (\<open>FormatUint\<close>, \<open>ParseUint\<close>, the verb \<open>%020d\<close>), white space
  (\<open>Fields\<close>, \<open>TrimSpace\<close>), prefixes and suffixes, and the line scanner.  The round trip of
  decimal numbers and the order of zero-padded ones are proved here.
\<close>

subsection \<open>Decimal numbers\<close>

definition code :: "char \<Rightarrow> nat" where
  "code c = of_char c"

definition is_digit :: "char \<Rightarrow> bool" where
  "is_digit c \<longleftrightarrow> 48 \<le> code c \<and> code c \<le> 57"

definition digit_char :: "nat \<Rightarrow> char" where
  "digit_char d = char_of (48 + d)"

fun dec :: "nat \<Rightarrow> string" where
  "dec n = (if n < 10 then [digit_char n] else dec (n div 10) @ [digit_char (n mod 10)])"

declare dec.simps [simp del]

fun dec_val :: "nat \<Rightarrow> string \<Rightarrow> nat option" where
  "dec_val acc [] = Some acc"
| "dec_val acc (c # cs) = (if is_digit c then dec_val (10 * acc + (code c - 48)) cs else None)"

text \<open>\<open>strconv.ParseUint(s, 10, 64)\<close> and \<open>strconv.FormatUint(w, 10)\<close>.\<close>

definition parse_uint :: "string \<Rightarrow> u64 option" where
  "parse_uint s = (if s = [] then None else
     (case dec_val 0 s of None \<Rightarrow> None | Some n \<Rightarrow> if n < 2 ^ 64 then Some (of_nat n) else None))"

definition format_uint :: "u64 \<Rightarrow> string" where
  "format_uint w = dec (unat w)"

text \<open>The verb \<open>%0kd\<close> on an unsigned number.\<close>

definition pad_dec :: "nat \<Rightarrow> u64 \<Rightarrow> string" where
  "pad_dec k w = replicate (k - length (format_uint w)) CHR ''0'' @ format_uint w"

lemma code_digit_char: "d < 10 \<Longrightarrow> code (digit_char d) = 48 + d"
  by (simp add: code_def digit_char_def)

lemma is_digit_digit_char: "d < 10 \<Longrightarrow> is_digit (digit_char d)"
  by (simp add: is_digit_def code_digit_char)

lemma digit_char_0: "digit_char 0 = CHR ''0''"
  by code_simp

text \<open>Evaluation on literals.\<close>

lemma digit_char_eval [simp]:
  "digit_char 1 = CHR ''1''" "digit_char (Suc 0) = CHR ''1''"
  "digit_char 2 = CHR ''2''" "digit_char 3 = CHR ''3''" "digit_char 4 = CHR ''4''"
  "digit_char 5 = CHR ''5''" "digit_char 6 = CHR ''6''" "digit_char 7 = CHR ''7''"
  "digit_char 8 = CHR ''8''" "digit_char 9 = CHR ''9''" "digit_char 0 = CHR ''0''"
  by code_simp+

lemma dec_not_empty [simp]: "dec n \<noteq> []"
  by (subst dec.simps) simp

lemma dec_digits: "c \<in> set (dec n) \<Longrightarrow> is_digit c"
proof (induction n rule: dec.induct)
  case (1 n)
  then show ?case
    by (cases "n < 10") (auto simp: dec.simps [of n] is_digit_digit_char)
qed

lemma dec_val_append:
  "dec_val acc (xs @ ys) = (case dec_val acc xs of None \<Rightarrow> None | Some a \<Rightarrow> dec_val a ys)"
  by (induction xs arbitrary: acc) auto

lemma dec_val_dec: "dec_val 0 (dec n) = Some n"
proof (induction n rule: dec.induct)
  case (1 n)
  show ?case
  proof (cases "n < 10")
    case True
    then show ?thesis by (simp add: dec.simps [of n] is_digit_digit_char code_digit_char)
  next
    case False
    with 1 have "dec_val 0 (dec (n div 10)) = Some (n div 10)" by simp
    moreover have "dec n = dec (n div 10) @ [digit_char (n mod 10)]"
      using False by (simp add: dec.simps [of n])
    ultimately show ?thesis
      by (simp add: dec_val_append is_digit_digit_char code_digit_char)
  qed
qed

lemma dec_val_zeros: "dec_val 0 (replicate k CHR ''0'' @ s) = dec_val 0 s"
  by (induction k) (simp_all add: is_digit_def code_def)

lemma length_dec: "0 < k \<Longrightarrow> n < 10 ^ k \<Longrightarrow> length (dec n) \<le> k"
proof (induction n arbitrary: k rule: dec.induct)
  case (1 n)
  show ?case
  proof (cases "n < 10")
    case True
    then show ?thesis using "1.prems" by (simp add: dec.simps [of n])
  next
    case False
    obtain j where j: "k = Suc j" using "1.prems" by (cases k) auto
    have "0 < j" using False "1.prems" j by (cases j) auto
    moreover have "n div 10 < 10 ^ j" using "1.prems" j by auto
    ultimately have "length (dec (n div 10)) \<le> j" using "1.IH" False by blast
    then show ?thesis using False j by (simp add: dec.simps [of n])
  qed
qed

lemma unat_lt_2_64: "unat (w :: u64) < 18446744073709551616"
  using unsigned_less [of w, where 'a = nat] by simp

lemma length_format_uint: "length (format_uint w) \<le> 20"
proof -
  have "unat w < 10 ^ 20" using unat_lt_2_64 [of w] by simp
  then show ?thesis by (simp add: format_uint_def length_dec)
qed

lemma length_pad_dec: "length (pad_dec 20 w) = 20"
  using length_format_uint [of w] by (simp add: pad_dec_def)

lemma parse_format: "parse_uint (format_uint w) = Some w"
  using unat_lt_2_64 [of w] by (simp add: parse_uint_def format_uint_def dec_val_dec)

lemma parse_pad: "parse_uint (pad_dec k w) = Some w"
  using unat_lt_2_64 [of w]
  by (simp add: parse_uint_def pad_dec_def dec_val_zeros) (simp add: format_uint_def dec_val_dec)

lemma pad_dec_inject: "pad_dec k a = pad_dec k b \<longleftrightarrow> a = b"
  by (metis option.inject parse_pad)

subsection \<open>Zero-padded numbers sort as text the way they sort as numbers\<close>

fun fixed_digits :: "nat \<Rightarrow> nat \<Rightarrow> string" where
  "fixed_digits 0 n = []"
| "fixed_digits (Suc k) n = fixed_digits k (n div 10) @ [digit_char (n mod 10)]"

lemma fixed_digits_numeral:
  "fixed_digits (numeral k) n = fixed_digits (pred_numeral k) (n div 10) @ [digit_char (n mod 10)]"
  by (subst numeral_eq_Suc) (rule fixed_digits.simps(2))

lemma length_fixed_digits [simp]: "length (fixed_digits k n) = k"
  by (induction k arbitrary: n) auto

lemma fixed_digits_0: "fixed_digits k 0 = replicate k CHR ''0''"
  by (induction k) (simp_all add: digit_char_0 replicate_append_same)

lemma fixed_digits_dec:
  "length (dec n) \<le> k \<Longrightarrow> fixed_digits k n = replicate (k - length (dec n)) CHR ''0'' @ dec n"
proof (induction k arbitrary: n)
  case 0
  then show ?case by simp
next
  case (Suc k)
  show ?case
  proof (cases "n < 10")
    case True
    then show ?thesis by (simp add: dec.simps [of n] fixed_digits_0)
  next
    case False
    then have d: "dec n = dec (n div 10) @ [digit_char (n mod 10)]" by (simp add: dec.simps [of n])
    with Suc.prems have "length (dec (n div 10)) \<le> k" by simp
    then show ?thesis using Suc.IH [of "n div 10"] by (simp add: d)
  qed
qed

lemma pad_dec_fixed: "pad_dec 20 w = fixed_digits 20 (unat w)"
  using fixed_digits_dec [of "unat w" 20] length_format_uint [of w]
  by (simp add: pad_dec_def format_uint_def)

lemma snoc_less_snoc:
  fixes xs ys :: "'a::linorder list"
  assumes "length xs = length ys"
  shows "xs @ [a] < ys @ [b] \<longleftrightarrow> xs < ys \<or> (xs = ys \<and> a < b)"
  using assms by (induction xs ys rule: list_induct2) auto

lemma digit_char_inject: "a < 10 \<Longrightarrow> b < 10 \<Longrightarrow> digit_char a = digit_char b \<longleftrightarrow> a = b"
  by (metis add_left_cancel code_digit_char)

lemma less_div_mod_10:
  "(a::nat) < b \<longleftrightarrow> a div 10 < b div 10 \<or> (a div 10 = b div 10 \<and> a mod 10 < b mod 10)"
proof -
  have d: "a = 10 * (a div 10) + a mod 10" "b = 10 * (b div 10) + b mod 10"
      "a mod 10 < 10" "b mod 10 < 10" by simp_all
  consider "a div 10 < b div 10" | "a div 10 = b div 10" | "b div 10 < a div 10" by linarith
  then show ?thesis by cases (use d in linarith)+
qed

lemma eq_div_mod_10: "(a::nat) = b \<longleftrightarrow> a div 10 = b div 10 \<and> a mod 10 = b mod 10"
  by (metis mult_div_mod_eq)

lemma digit_char_less: "a < 10 \<Longrightarrow> b < 10 \<Longrightarrow> digit_char a < digit_char b \<longleftrightarrow> a < b"
  using code_digit_char [of a] code_digit_char [of b] by (simp add: code_def less_char_def)

lemma fixed_digits_inject:
  "a < 10 ^ k \<Longrightarrow> b < 10 ^ k \<Longrightarrow> fixed_digits k a = fixed_digits k b \<longleftrightarrow> a = b"
proof (induction k arbitrary: a b)
  case 0
  then show ?case by simp
next
  case (Suc k)
  have "a div 10 < 10 ^ k" "b div 10 < 10 ^ k" using Suc.prems by auto
  then have ih: "fixed_digits k (a div 10) = fixed_digits k (b div 10) \<longleftrightarrow> a div 10 = b div 10"
    by (rule Suc.IH)
  show ?case using ih by (simp add: digit_char_inject eq_div_mod_10 [of a b])
qed

lemma fixed_digits_less:
  "a < 10 ^ k \<Longrightarrow> b < 10 ^ k \<Longrightarrow> fixed_digits k a < fixed_digits k b \<longleftrightarrow> a < b"
proof (induction k arbitrary: a b)
  case 0
  then show ?case by simp
next
  case (Suc k)
  have lt: "a div 10 < 10 ^ k" "b div 10 < 10 ^ k" using Suc.prems by auto
  have "fixed_digits (Suc k) a < fixed_digits (Suc k) b \<longleftrightarrow>
      a div 10 < b div 10 \<or> (a div 10 = b div 10 \<and> a mod 10 < b mod 10)"
    by (simp add: snoc_less_snoc Suc.IH [OF lt] fixed_digits_inject [OF lt] digit_char_less)
  also have "\<dots> \<longleftrightarrow> a < b" by (rule less_div_mod_10 [symmetric])
  finally show ?case .
qed

lemma pad_dec_less: "pad_dec 20 a < pad_dec 20 b \<longleftrightarrow> a < b"
proof -
  have "unat a < 10 ^ 20" "unat b < 10 ^ 20" using unat_lt_2_64 [of a] unat_lt_2_64 [of b] by simp_all
  then show ?thesis by (simp add: pad_dec_fixed fixed_digits_less word_less_nat_alt)
qed

lemma append_less_same_length:
  fixes xs ys :: "'a::linorder list"
  assumes "length xs = length ys"
  shows "xs @ zs < ys @ zs \<longleftrightarrow> xs < ys"
  using assms by (induction xs ys rule: list_induct2) auto


subsection \<open>White space\<close>

text \<open>
  \<open>unicode.IsSpace\<close> on the UTF-8 encoding: the length in bytes of the white-space rune a text
  starts with, 0 when it starts with none.  The bytes of these runes start with a byte that
  never continues another rune, so scanning byte by byte finds the runes Go finds.
\<close>

definition ascii_space :: "char \<Rightarrow> bool" where
  "ascii_space c \<longleftrightarrow> code c = 32 \<or> (9 \<le> code c \<and> code c \<le> 13)"

definition wide_spaces :: "nat list list" where
  "wide_spaces = [[194, 133], [194, 160], [225, 154, 128]]
     @ map (\<lambda>k. [226, 128, k]) [128..<139]
     @ [[226, 128, 168], [226, 128, 169], [226, 128, 175], [226, 129, 159], [227, 128, 128]]"

fun space_len :: "string \<Rightarrow> nat" where
  "space_len [] = 0"
| "space_len (c # cs) =
     (if ascii_space c then 1
      else if code c < 128 then 0
      else (case find (\<lambda>r. prefix r (map code (c # take 2 cs))) wide_spaces of
              None \<Rightarrow> 0 | Some r \<Rightarrow> length r))"

declare space_len.simps(2) [simp del]

text \<open>\<open>strings.Fields\<close>; the first argument collects the current field in reverse.\<close>

function fields_from :: "string \<Rightarrow> string \<Rightarrow> string list" where
  "fields_from cur [] = (if cur = [] then [] else [rev cur])"
| "fields_from cur (c # cs) =
     (let k = space_len (c # cs) in
      if k = 0 then fields_from (c # cur) cs
      else (if cur = [] then [] else [rev cur]) @ fields_from [] (drop (k - 1) cs))"
  by pat_completeness auto
termination
  by (relation "measure (\<lambda>(_, s). length s)") (auto simp: less_Suc_eq_le)

definition fields :: "string \<Rightarrow> string list" where
  "fields s = fields_from [] s"

function trim_left :: "string \<Rightarrow> string" where
  "trim_left [] = []"
| "trim_left (c # cs) =
     (let k = space_len (c # cs) in
      if k = 0 then c # cs else trim_left (drop (k - 1) cs))"
  by pat_completeness auto
termination
  by (relation "measure length") (auto simp: less_Suc_eq_le)

function trim_right :: "string \<Rightarrow> string" where
  "trim_right [] = []"
| "trim_right (c # cs) =
     (let k = space_len (c # cs) in
      if k \<noteq> 0 \<and> trim_right (drop (k - 1) cs) = [] then [] else c # trim_right cs)"
  by pat_completeness auto
termination
  by (relation "measure length") (auto simp: less_Suc_eq_le)

definition trim_space :: "string \<Rightarrow> string" where
  "trim_space s = trim_right (trim_left s)"

lemma space_len_digit: "is_digit c \<Longrightarrow> space_len (c # cs) = 0"
  by (auto simp: space_len.simps ascii_space_def is_digit_def)

lemma trim_left_digits: "(\<And>c. c \<in> set s \<Longrightarrow> is_digit c) \<Longrightarrow> s \<noteq> [] \<Longrightarrow> trim_left (s @ t) = s @ t"
  by (cases s) (simp_all add: space_len_digit)

lemma trim_right_digits:
  "(\<And>c. c \<in> set s \<Longrightarrow> is_digit c) \<Longrightarrow> trim_right t = [] \<Longrightarrow> trim_right (s @ t) = s"
  by (induction s) (simp_all add: space_len_digit)

lemma trim_right_newline: "trim_right [CHR 0x0A] = []"
  by (simp add: space_len.simps ascii_space_def code_def)

lemma trim_space_format: "trim_space (format_uint w @ [CHR 0x0A]) = format_uint w"
proof -
  have "trim_left (format_uint w @ [CHR 0x0A]) = format_uint w @ [CHR 0x0A]"
    by (rule trim_left_digits) (auto simp: format_uint_def dest: dec_digits)
  moreover have "trim_right (format_uint w @ [CHR 0x0A]) = format_uint w"
    by (rule trim_right_digits [OF _ trim_right_newline]) (simp add: format_uint_def dec_digits)
  ultimately show ?thesis by (simp add: trim_space_def)
qed

lemma fields_from_nonempty: "[] \<notin> set (fields_from cur s)"
  by (induction cur s rule: fields_from.induct) (auto simp: Let_def)

lemma fields_nonempty: "f \<in> set (fields s) \<Longrightarrow> f \<noteq> []"
  using fields_from_nonempty by (auto simp: fields_def)

subsection \<open>Prefixes, suffixes and single bytes\<close>

definition has_prefix :: "string \<Rightarrow> string \<Rightarrow> bool" where
  "has_prefix s p = (take (length p) s = p)"

definition has_suffix :: "string \<Rightarrow> string \<Rightarrow> bool" where
  "has_suffix s p = (length p \<le> length s \<and> drop (length s - length p) s = p)"

definition trim_prefix :: "string \<Rightarrow> string \<Rightarrow> string" where
  "trim_prefix s p = (if has_prefix s p then drop (length p) s else s)"

definition trim_suffix :: "string \<Rightarrow> string \<Rightarrow> string" where
  "trim_suffix s p = (if has_suffix s p then take (length s - length p) s else s)"

text \<open>\<open>strings.IndexByte\<close>, with \<open>None\<close> for \<open>-1\<close>.\<close>

fun index_byte :: "string \<Rightarrow> char \<Rightarrow> nat option" where
  "index_byte [] b = None"
| "index_byte (c # cs) b = (if c = b then Some 0 else map_option Suc (index_byte cs b))"

lemma has_prefix_append [simp]: "has_prefix (p @ s) p"
  by (simp add: has_prefix_def)

lemma has_suffix_append [simp]: "has_suffix (s @ p) p"
  by (simp add: has_suffix_def)

lemma trim_suffix_append [simp]: "trim_suffix (s @ p) p = s"
  by (simp add: trim_suffix_def)

lemma trim_prefix_append [simp]: "trim_prefix (p @ s) p = s"
  by (simp add: trim_prefix_def)

subsection \<open>The line scanner\<close>

text \<open>
  \<open>bufio.Scanner\<close> with its default split function: lines end at a newline, a carriage return
  before it is dropped, and an empty rest after the last newline is no line.  A line of 64 KiB
  or more does not fit the scanner's buffer: scanning stops there and \<open>Err\<close> is set.
\<close>

fun lines_from :: "string \<Rightarrow> string \<Rightarrow> string list" where
  "lines_from cur [] = (if cur = [] then [] else [rev cur])"
| "lines_from cur (c # cs) =
     (if c = CHR 0x0A then rev cur # lines_from [] cs else lines_from (c # cur) cs)"

definition drop_cr :: "string \<Rightarrow> string" where
  "drop_cr l = (if l \<noteq> [] \<and> last l = CHR 0x0D then butlast l else l)"

definition max_token :: nat where
  "max_token = 65536"

text \<open>The lines scanned, and whether scanning ended in an error.\<close>

definition scan_lines :: "string \<Rightarrow> string list \<times> bool" where
  "scan_lines s = (let ls = lines_from [] s in
     (map drop_cr (takeWhile (\<lambda>l. length l < max_token) ls),
      \<not> list_all (\<lambda>l. length l < max_token) ls))"

end
