(* ===== verification/GoTime.thy ===== *)
theory GoTime
  imports GoFloat GoText
begin

text \<open>
  Go's \<open>time.Time\<close> and \<open>time.Duration\<close>.  A time is its distance in nanoseconds from Go's zero
  time (1 January of year 1, UTC); a duration is a number of nanoseconds in the range of a
  signed 64-bit integer.  \<open>Time.Sub\<close> saturates at the ends of that range.

  Times are stored in the database as text.  \<open>RFC3339Nano\<close> writes a fixed-width date and time
  of day (19 bytes for the years 0 to 9999, whose text order is the order of the seconds they
  denote), then a fraction without trailing zeros, then \<open>Z\<close>.  A \<open>stamp\<close> is that text with the
  19 bytes represented by the second they denote; stamps are compared as the texts are.
\<close>

type_synonym gotime = int
type_synonym duration = int

definition nanosecond :: duration where "nanosecond = 1"
definition millisecond :: duration where "millisecond = 1000000"
definition second :: duration where "second = 1000000000"
definition minute :: duration where "minute = 60 * second"
definition hour :: duration where "hour = 60 * minute"

lemmas duration_defs [go_simps] =
  nanosecond_def millisecond_def second_def minute_def hour_def

definition max_duration :: duration where "max_duration = 2 ^ 63 - 1"
definition min_duration :: duration where "min_duration = - (2 ^ 63)"

definition is_zero_time :: "gotime \<Rightarrow> bool" where
  "is_zero_time t \<longleftrightarrow> t = 0"

definition time_add :: "gotime \<Rightarrow> duration \<Rightarrow> gotime" where
  "time_add t d = t + d"

definition time_sub :: "gotime \<Rightarrow> gotime \<Rightarrow> duration" where
  "time_sub t u = max min_duration (min max_duration (t - u))"

definition time_truncate :: "gotime \<Rightarrow> duration \<Rightarrow> gotime" where
  "time_truncate t d = (if d \<le> 0 then t else t - t mod d)"

text \<open>\<open>Duration.Seconds\<close>: the whole seconds and the rest are converted separately.\<close>

definition trunc_quot :: "int \<Rightarrow> int \<Rightarrow> int" where
  "trunc_quot a b = sgn a * (\<bar>a\<bar> div b)"

definition dur_seconds :: "duration \<Rightarrow> float64" where
  "dur_seconds d = (let s = trunc_quot d second; n = d - s * second in
     fadd (float_of_int s) (fdiv (float_of_int n) (Fin 1000000000)))"

lemma time_sub_ge: "0 \<le> w \<Longrightarrow> w \<le> max_duration \<Longrightarrow> w \<le> time_sub t u \<longleftrightarrow> w \<le> t - u"
  by (auto simp: time_sub_def max_duration_def min_duration_def)

lemma time_sub_le: "0 \<le> w \<Longrightarrow> w < max_duration \<Longrightarrow> time_sub t u \<le> w \<longleftrightarrow> t - u \<le> w"
  by (auto simp: time_sub_def max_duration_def min_duration_def)

subsection \<open>Times as text\<close>

type_synonym stamp = "int \<times> string"

text \<open>The fraction: nine digits without the trailing zeros, or nothing.\<close>

definition fraction_text :: "int \<Rightarrow> string" where
  "fraction_text n = (if n = 0 then ''Z''
     else CHR ''.'' # rev (dropWhile (\<lambda>c. c = CHR ''0'') (rev (fixed_digits 9 (nat n)))) @ ''Z'')"

definition rfc3339_nano :: "gotime \<Rightarrow> stamp" where
  "rfc3339_nano t = (t div second, fraction_text (t mod second))"

text \<open>\<open>RFC3339\<close> has no fraction.\<close>

definition rfc3339 :: "gotime \<Rightarrow> stamp" where
  "rfc3339 t = (t div second, ''Z'')"

definition stamp_less :: "stamp \<Rightarrow> stamp \<Rightarrow> bool" where
  "stamp_less a b \<longleftrightarrow> fst a < fst b \<or> (fst a = fst b \<and> snd a < snd b)"

definition stamp_le :: "stamp \<Rightarrow> stamp \<Rightarrow> bool" where
  "stamp_le a b \<longleftrightarrow> \<not> stamp_less b a"

text \<open>\<open>time.Parse\<close> of such a text; the fraction is padded back to nine digits.  Every caller
  drops the error of a text that is none and keeps the zero time.\<close>

definition parse_fraction :: "string \<Rightarrow> nat option" where
  "parse_fraction f =
     (if f = ''Z'' then Some 0
      else if 3 \<le> length f \<and> hd f = CHR ''.'' \<and> last f = CHR ''Z''
      then (let ds = butlast (tl f) in dec_val 0 (take 9 ds @ replicate (9 - length ds) CHR ''0''))
      else None)"

definition parse_stamp :: "stamp \<Rightarrow> gotime option" where
  "parse_stamp s = (case parse_fraction (snd s) of None \<Rightarrow> None
     | Some n \<Rightarrow> Some (fst s * second + int n))"


lemma dec_val_fixed_digits: "n < 10 ^ k \<Longrightarrow> dec_val 0 (fixed_digits k n) = Some n"
proof (induction k arbitrary: n)
  case 0
  then show ?case by simp
next
  case (Suc k)
  then have "n div 10 < 10 ^ k" by auto
  then show ?case
    using Suc.IH [of "n div 10"] by (simp add: dec_val_append is_digit_digit_char code_digit_char)
qed

lemma takeWhile_eq_replicate: "takeWhile (\<lambda>c. c = a) xs = replicate (length (takeWhile (\<lambda>c. c = a) xs)) a"
  by (induction xs) auto

text \<open>Dropping trailing zeros and padding again gives the digits back.\<close>

lemma strip_zeros_pad:
  fixes z :: char and ds :: string
  defines "t \<equiv> rev (dropWhile (\<lambda>c. c = z) (rev ds))"
  shows "t @ replicate (length ds - length t) z = ds" and "length t \<le> length ds"
proof -
  let ?w = "takeWhile (\<lambda>c. c = z) (rev ds)"
  have "rev ds = ?w @ dropWhile (\<lambda>c. c = z) (rev ds)" by simp
  then have split: "ds = t @ rev ?w" by (metis rev_append rev_rev_ident t_def)
  have "?w = replicate (length ?w) z" by (rule takeWhile_eq_replicate)
  then have "rev ?w = replicate (length ?w) z" by (metis rev_replicate)
  moreover have len: "length ds = length t + length ?w" using arg_cong [OF split, of length] by simp
  ultimately show "t @ replicate (length ds - length t) z = ds" "length t \<le> length ds"
    using split by auto
qed

lemma parse_fraction_text:
  assumes "0 \<le> n" "n < 1000000000"
  shows "parse_fraction (fraction_text n) = Some (nat n)"
proof (cases "n = 0")
  case True
  then show ?thesis by (simp add: fraction_text_def parse_fraction_def)
next
  case False
  define t where "t = rev (dropWhile (\<lambda>c. c = CHR ''0'') (rev (fixed_digits 9 (nat n))))"
  have pad: "t @ replicate (9 - length t) CHR ''0'' = fixed_digits 9 (nat n)" "length t \<le> 9"
    using strip_zeros_pad [of "CHR ''0''" "fixed_digits 9 (nat n)"] by (simp_all add: t_def)
  have n9: "nat n < 10 ^ 9" using assms by simp
  have "t \<noteq> []"
  proof
    assume "t = []"
    then have "fixed_digits 9 (nat n) = fixed_digits 9 0" using pad(1) by (simp add: fixed_digits_0)
    then show False using fixed_digits_inject [OF n9, of 0] False assms by simp
  qed
  then have "1 \<le> length t" by (cases t) auto
  moreover have "fraction_text n = CHR ''.'' # t @ ''Z''" using False by (simp add: fraction_text_def t_def)
  ultimately show ?thesis
    using pad dec_val_fixed_digits [OF n9] by (simp add: parse_fraction_def Let_def)
qed

lemma parse_rfc3339_nano: "parse_stamp (rfc3339_nano t) = Some t"
proof -
  have "0 \<le> t mod second" "t mod second < 1000000000" by (simp_all add: second_def)
  then show ?thesis
    by (simp add: parse_stamp_def rfc3339_nano_def parse_fraction_text)
qed

lemma rfc3339_nano_inject: "rfc3339_nano t = rfc3339_nano u \<longleftrightarrow> t = u"
  by (metis option.inject parse_rfc3339_nano)

lemma stamp_less_seconds:
  assumes "t div second \<noteq> u div second"
  shows "stamp_less (rfc3339_nano t) (rfc3339_nano u) \<longleftrightarrow> t < u"
proof -
  have "t div second < u div second \<longleftrightarrow> t < u"
    using assms by (metis linorder_less_linear not_less_iff_gr_or_eq second_def zdiv_mono1 zero_less_numeral
        order.strict_implies_order order_less_le)
  then show ?thesis using assms by (simp add: stamp_less_def rfc3339_nano_def)
qed

lemma stamp_less_irrefl [simp]: "\<not> stamp_less a a"
  by (simp add: stamp_less_def)

lemma stamp_less_trans: "stamp_less a b \<Longrightarrow> stamp_less b c \<Longrightarrow> stamp_less a c"
  by (auto simp: stamp_less_def)

lemma stamp_less_linear: "stamp_less a b \<or> a = b \<or> stamp_less b a"
  by (auto simp: stamp_less_def prod_eq_iff)

lemma stamp_le_refl [simp]: "stamp_le a a"
  by (simp add: stamp_le_def)

text \<open>Text order keeps chronological order up to the second: an earlier time never has a text
  that is greater by a second or more.\<close>

lemma stamp_less_second: "stamp_less (rfc3339_nano t) (rfc3339_nano u) \<Longrightarrow> t div second \<le> u div second"
  by (auto simp: stamp_less_def rfc3339_nano_def)

text \<open>Within one second the order of the texts is not that of the times: the fraction \<open>.5Z\<close>
  sorts before the missing fraction \<open>Z\<close>, and \<open>.123Z\<close> before \<open>.12Z\<close>.\<close>

lemma stamp_order_broken:
  "stamp_less (rfc3339_nano 500000000) (rfc3339_nano 0)"
  "stamp_less (rfc3339_nano 123000000) (rfc3339_nano 120000000)"
  by (simp_all add: stamp_less_def rfc3339_nano_def fraction_text_def second_def less_char_def
      fixed_digits_numeral)

end
