(* ===== verification/Report.thy ===== *)
theory Report
  imports GoTime
begin

text \<open>
  The report an agent sends (\<open>internal/model/report.go\<close>): the data model and \<open>Validate\<close>, the
  check every received report passes before anything else looks at it.  \<open>url.ParseRequestURI\<close>
  is an argument of \<open>validate\<close>; \<open>net.SplitHostPort\<close> is written out.
\<close>

definition MaxFilesystems :: nat where "MaxFilesystems = 128"
definition MaxDiskDevices :: nat where "MaxDiskDevices = 128"
definition MaxInterfaces :: nat where "MaxInterfaces = 128"
definition MaxChecks :: nat where "MaxChecks = 32"
definition MaxAgentIDLen :: nat where "MaxAgentIDLen = 128"

lemmas report_limits [go_simps] =
  MaxFilesystems_def MaxDiskDevices_def MaxInterfaces_def MaxChecks_def MaxAgentIDLen_def

record memory =
  mem_total_bytes :: u64
  mem_used_bytes :: u64
  mem_available_bytes :: u64
  mem_used_percent :: float64
  mem_swap_total_bytes :: u64
  mem_swap_used_bytes :: u64
  mem_swap_percent :: float64

record filesystem =
  fs_mountpoint :: string
  fs_device :: string
  fs_type :: string
  fs_total_bytes :: u64
  fs_used_bytes :: u64
  fs_avail_bytes :: u64
  fs_used_percent :: float64

definition monitorable :: "filesystem \<Rightarrow> bool" where
  "monitorable f \<longleftrightarrow> fs_type f \<noteq> ''squashfs''"

record disk_io =
  dio_device :: string
  dio_read_bytes :: u64
  dio_write_bytes :: u64
  dio_read_operations :: u64
  dio_write_operations :: u64
  dio_read_bytes_per_second :: float64
  dio_write_bytes_per_second :: float64
  dio_read_ops_per_second :: float64
  dio_write_ops_per_second :: float64

record network_io =
  nio_interface :: string
  nio_receive_bytes :: u64
  nio_transmit_bytes :: u64
  nio_receive_packets :: u64
  nio_transmit_packets :: u64
  nio_receive_bytes_rate :: float64
  nio_transmit_bytes_rate :: float64
  nio_receive_packet_rate :: float64
  nio_transmit_packet_rate :: float64

record service_status =
  svc_name :: string
  svc_active_state :: string
  svc_sub_state :: string
  svc_error :: string

record container_status =
  ct_id :: string
  ct_name :: string
  ct_state :: string
  ct_health :: string

record docker_status =
  dk_enabled :: bool
  dk_available :: bool
  dk_error :: string
  dk_containers :: "container_status list"

record http_status =
  hs_name :: string
  hs_url :: string
  hs_status_code :: int
  hs_response_ms :: float64
  hs_ok :: bool
  hs_error :: string
  hs_tls_days_left :: "float64 option"

definition tls_days :: "http_status \<Rightarrow> float64" where
  "tls_days status = (case hs_tls_days_left status of None \<Rightarrow> Fin 0 | Some d \<Rightarrow> d)"

record tcp_status =
  ts_name :: string
  ts_address :: string
  ts_reachable :: bool
  ts_response_ms :: float64
  ts_error :: string

record report =
  rep_agent_id :: string
  rep_timestamp :: gotime
  rep_sequence :: u64
  rep_version :: string
  rep_hostname :: string
  rep_cpu_percent :: float64
  rep_load1 :: float64
  rep_load5 :: float64
  rep_load15 :: float64
  rep_memory :: memory
  rep_filesystems :: "filesystem list"
  rep_disk_io :: "disk_io list"
  rep_networks :: "network_io list"
  rep_services :: "service_status list"
  rep_docker :: docker_status
  rep_http_checks :: "http_status list"
  rep_tcp_checks :: "tcp_status list"
  rep_uptime :: u64
  rep_boot_time :: gotime
  rep_kernel :: string

text \<open>The zero values of the report's structures, with the identity of a report filled in; the
  concrete inputs of the development are made from them.\<close>

definition zero_memory :: memory where
  "zero_memory = \<lparr>mem_total_bytes = 0, mem_used_bytes = 0, mem_available_bytes = 0,
     mem_used_percent = Fin 0, mem_swap_total_bytes = 0, mem_swap_used_bytes = 0,
     mem_swap_percent = Fin 0\<rparr>"

definition zero_docker :: docker_status where
  "zero_docker = \<lparr>dk_enabled = False, dk_available = False, dk_error = [], dk_containers = []\<rparr>"

definition zero_report :: "string \<Rightarrow> u64 \<Rightarrow> gotime \<Rightarrow> report" where
  "zero_report agent_id sequence timestamp =
     \<lparr>rep_agent_id = agent_id, rep_timestamp = timestamp, rep_sequence = sequence,
      rep_version = [], rep_hostname = [], rep_cpu_percent = Fin 0, rep_load1 = Fin 0,
      rep_load5 = Fin 0, rep_load15 = Fin 0, rep_memory = zero_memory, rep_filesystems = [],
      rep_disk_io = [], rep_networks = [], rep_services = [], rep_docker = zero_docker,
      rep_http_checks = [], rep_tcp_checks = [], rep_uptime = 0, rep_boot_time = 0,
      rep_kernel = []\<rparr>"

lemma zero_report_simps [simp]:
  "rep_agent_id (zero_report a n t) = a" "rep_sequence (zero_report a n t) = n"
  "rep_timestamp (zero_report a n t) = t"
  by (simp_all add: zero_report_def)

subsection \<open>Labels and rates\<close>

text \<open>The source tests runes; a byte outside ASCII belongs to a rune outside the accepted set,
  so testing bytes gives the same answer.\<close>

definition label_char :: "char \<Rightarrow> bool" where
  "label_char r \<longleftrightarrow> r = CHR ''-'' \<or> r = CHR ''_'' \<or> r = CHR ''.'' \<or> r = CHR ''@'' \<or>
     (CHR ''a'' \<le> r \<and> r \<le> CHR ''z'') \<or> (CHR ''A'' \<le> r \<and> r \<le> CHR ''Z'') \<or>
     (CHR ''0'' \<le> r \<and> r \<le> CHR ''9'')"

definition safe_label :: "string \<Rightarrow> bool" where
  "safe_label value \<longleftrightarrow> list_all label_char value"

definition valid_check_name :: "string \<Rightarrow> bool" where
  "valid_check_name value \<longleftrightarrow> value \<noteq> [] \<and> length value \<le> 128 \<and> safe_label value"

definition valid_rate :: "float64 \<Rightarrow> bool" where
  "valid_rate value \<longleftrightarrow> fle (Fin 0) value \<and> \<not> is_nan value \<and> \<not> is_inf value"

lemma valid_rate_iff: "valid_rate v \<longleftrightarrow> (\<exists>r \<ge> 0. v = Fin r)"
  by (cases v) (auto simp: valid_rate_def)

subsection \<open>Addresses and URLs\<close>

text \<open>\<open>net.SplitHostPort\<close>, with \<open>None\<close> for each of its errors.\<close>

fun last_index_byte :: "string \<Rightarrow> char \<Rightarrow> nat option" where
  "last_index_byte [] b = None"
| "last_index_byte (c # cs) b =
     (case last_index_byte cs b of Some i \<Rightarrow> Some (Suc i)
      | None \<Rightarrow> if c = b then Some 0 else None)"

definition split_host_port :: "string \<Rightarrow> (string \<times> string) option" where
  "split_host_port hp =
     (case last_index_byte hp CHR '':'' of
        None \<Rightarrow> None
      | Some i \<Rightarrow>
          if hd hp = CHR ''['' then
            (case index_byte hp CHR '']'' of
               None \<Rightarrow> None
             | Some e \<Rightarrow>
                 if Suc e \<noteq> i then None
                 else if CHR ''['' \<in> set (drop 1 hp) \<or> CHR '']'' \<in> set (drop (Suc e) hp) then None
                 else Some (drop 1 (take e hp), drop (Suc i) hp))
          else if CHR '':'' \<in> set (take i hp) then None
          else if CHR ''['' \<in> set hp \<or> CHR '']'' \<in> set hp then None
          else Some (take i hp, drop (Suc i) hp))"

text \<open>The fields of \<open>url.URL\<close> the program looks at; \<open>url_user\<close> says whether there is userinfo.\<close>

record url =
  url_scheme :: string
  url_user :: bool
  url_host :: string
  url_path :: string
  url_raw_query :: string
  url_fragment :: string

type_synonym url_parser = "string \<Rightarrow> url option"

subsection \<open>Validate\<close>

datatype validate_error =
    AgentIdLength | AgentIdCharacters | SequenceZero | SequenceTooLarge | TimestampRange
  | CpuPercent | MemoryPercent | TooManyFilesystems | FilesystemMetadata | FilesystemPercent
  | TooManyDisks | DiskData | TooManyNetworks | NetworkData | TooManyChecks | ServiceStatus
  | DockerStatus | DockerContainer | HttpStatus | HttpUrl | TlsLifetime | TcpStatus | TcpAddress

definition percent_out_of_range :: "float64 \<Rightarrow> bool" where
  "percent_out_of_range p \<longleftrightarrow> flt p (Fin 0) \<or> flt (Fin 100) p"

definition validate_filesystem :: "filesystem \<Rightarrow> validate_error option" where
  "validate_filesystem f = first_some
     [fail_if (fs_mountpoint f = [] \<or> 1024 < length (fs_mountpoint f) \<or>
               1024 < length (fs_device f) \<or> 128 < length (fs_type f)) FilesystemMetadata,
      fail_if (percent_out_of_range (fs_used_percent f)) FilesystemPercent]"

definition validate_disk :: "disk_io \<Rightarrow> validate_error option" where
  "validate_disk d = fail_if
     (dio_device d = [] \<or> 128 < length (dio_device d) \<or>
      \<not> valid_rate (dio_read_bytes_per_second d) \<or> \<not> valid_rate (dio_write_bytes_per_second d) \<or>
      \<not> valid_rate (dio_read_ops_per_second d) \<or> \<not> valid_rate (dio_write_ops_per_second d)) DiskData"

definition validate_network :: "network_io \<Rightarrow> validate_error option" where
  "validate_network n = fail_if
     (nio_interface n = [] \<or> 128 < length (nio_interface n) \<or>
      \<not> valid_rate (nio_receive_bytes_rate n) \<or> \<not> valid_rate (nio_transmit_bytes_rate n) \<or>
      \<not> valid_rate (nio_receive_packet_rate n) \<or> \<not> valid_rate (nio_transmit_packet_rate n)) NetworkData"

definition validate_service :: "service_status \<Rightarrow> validate_error option" where
  "validate_service s = fail_if
     (\<not> valid_check_name (svc_name s) \<or> 64 < length (svc_active_state s) \<or>
      64 < length (svc_sub_state s) \<or> 512 < length (svc_error s)) ServiceStatus"

definition validate_container :: "container_status \<Rightarrow> validate_error option" where
  "validate_container c = fail_if
     (\<not> valid_check_name (ct_name c) \<or> 128 < length (ct_id c) \<or>
      64 < length (ct_state c) \<or> 64 < length (ct_health c)) DockerContainer"

definition redacted_url :: "url \<Rightarrow> bool" where
  "redacted_url u \<longleftrightarrow> url_host u \<noteq> [] \<and> (url_scheme u = ''http'' \<or> url_scheme u = ''https'') \<and>
     \<not> url_user u \<and> url_raw_query u = [] \<and> url_fragment u = []"

definition validate_http :: "url_parser \<Rightarrow> http_status \<Rightarrow> validate_error option" where
  "validate_http puri h = first_some
     [fail_if (\<not> valid_check_name (hs_name h) \<or> 2048 < length (hs_url h) \<or>
               hs_status_code h < 0 \<or> 999 < hs_status_code h \<or>
               \<not> valid_rate (hs_response_ms h) \<or> 512 < length (hs_error h)) HttpStatus,
      (case puri (hs_url h) of None \<Rightarrow> Some HttpUrl | Some u \<Rightarrow> fail_if (\<not> redacted_url u) HttpUrl),
      (case hs_tls_days_left h of None \<Rightarrow> None
       | Some d \<Rightarrow> fail_if (is_nan d \<or> is_inf d) TlsLifetime)]"

definition validate_tcp :: "tcp_status \<Rightarrow> validate_error option" where
  "validate_tcp t = first_some
     [fail_if (\<not> valid_check_name (ts_name t) \<or> 512 < length (ts_address t) \<or>
               \<not> valid_rate (ts_response_ms t) \<or> 512 < length (ts_error t)) TcpStatus,
      fail_if (split_host_port (ts_address t) = None) TcpAddress]"

definition validate :: "url_parser \<Rightarrow> report \<Rightarrow> gotime \<Rightarrow> duration \<Rightarrow> duration \<Rightarrow> validate_error option" where
  "validate puri r now max_future_skew max_age = first_some
     [fail_if (rep_agent_id r = [] \<or> MaxAgentIDLen < length (rep_agent_id r)) AgentIdLength,
      fail_if (\<not> safe_label (rep_agent_id r)) AgentIdCharacters,
      fail_if (rep_sequence r = 0) SequenceZero,
      fail_if (2 ^ 63 - 1 < unat (rep_sequence r)) SequenceTooLarge,
      fail_if (is_zero_time (rep_timestamp r) \<or> rep_timestamp r < time_add now (- max_age) \<or>
               time_add now max_future_skew < rep_timestamp r) TimestampRange,
      fail_if (percent_out_of_range (rep_cpu_percent r)) CpuPercent,
      fail_if (percent_out_of_range (mem_used_percent (rep_memory r)) \<or>
               percent_out_of_range (mem_swap_percent (rep_memory r))) MemoryPercent,
      fail_if (MaxFilesystems < length (rep_filesystems r)) TooManyFilesystems,
      for_each validate_filesystem (rep_filesystems r),
      fail_if (MaxDiskDevices < length (rep_disk_io r)) TooManyDisks,
      for_each validate_disk (rep_disk_io r),
      fail_if (MaxInterfaces < length (rep_networks r)) TooManyNetworks,
      for_each validate_network (rep_networks r),
      fail_if (MaxChecks < length (rep_services r) \<or> MaxChecks < length (rep_http_checks r) \<or>
               MaxChecks < length (rep_tcp_checks r) \<or>
               MaxChecks < length (dk_containers (rep_docker r))) TooManyChecks,
      for_each validate_service (rep_services r),
      fail_if (512 < length (dk_error (rep_docker r))) DockerStatus,
      for_each validate_container (dk_containers (rep_docker r)),
      for_each (validate_http puri) (rep_http_checks r),
      for_each validate_tcp (rep_tcp_checks r)]"

end
