(* ===== verification/Alert_Store.thy ===== *)
theory Alert_Store
  imports Report "HOL-Library.Product_Lexorder"
begin

text \<open>
  The database of the server, and the operations of \<open>internal/storage/storage.go\<close> on the tables
  \<open>alerts\<close> and \<open>audit_log\<close>: \<open>ApplyRule\<close>, the queries for alerts, the notification states and
  the acknowledgement.

  A database is a record of tables, a table a list of rows in the order of their row ids.  The
  \<open>CHECK\<close> constraints of \<open>migrations/*.sql\<close> are the datatypes of the columns; foreign keys and
  the unique index on active alerts are tested where a row is inserted.  Each statement sent to
  SQLite may fail (\<open>fails\<close>, one case per statement of an operation); a transaction that does not
  commit leaves the database as it was, and SQLite runs transactions one after the other.
  Times are stored as text (\<open>stamp\<close>).  Where a query leaves the order of equal keys open, rows
  come in the order of their ids.
\<close>

subsection \<open>The tables\<close>

datatype severity = Warning | Critical
datatype alert_state = Pending | Firing | Resolved
datatype notification = NotNone | NotPending | NotSent | NotSuppressed

record alert_row =
  ar_id :: nat
  ar_agent_id :: string
  ar_rule_key :: string
  ar_resource :: string
  ar_severity :: severity
  ar_state :: alert_state
  ar_value :: float64
  ar_threshold :: float64
  ar_started_at :: stamp
  ar_firing_at :: "stamp option"
  ar_resolved_at :: "stamp option"
  ar_acknowledged_at :: "stamp option"
  ar_acknowledged_by :: "string option"
  ar_notification :: notification
  ar_last_notified_at :: "stamp option"
  ar_violation_count :: int

record agent_row =
  gr_last_sequence :: int
  gr_last_seen :: "stamp option"

text \<open>An audit entry; the details \<open>value=.. threshold=.. severity=..\<close> are kept as their values.\<close>

datatype audit_details = RuleDetails float64 float64 severity | AcknowledgedDetails

record audit_row =
  au_occurred_at :: stamp
  au_actor :: string
  au_action :: string
  au_target :: string
  au_details :: audit_details

record report_row =
  rr_id :: nat
  rr_agent_id :: string
  rr_measured_at :: stamp
  rr_received_at :: stamp
  rr_sequence :: int
  rr_cpu_percent :: float64
  rr_memory_percent :: float64
  rr_swap_percent :: float64
  rr_uptime :: int
  rr_payload :: string

record hourly_row =
  hr_agent_id :: string
  hr_hour_start :: stamp
  hr_cpu_avg :: float64
  hr_cpu_min :: float64
  hr_cpu_max :: float64
  hr_memory_avg :: float64
  hr_memory_min :: float64
  hr_memory_max :: float64
  hr_samples :: int

record preferences =
  pr_enabled :: bool
  pr_recipient :: string
  pr_warnings :: bool
  pr_recovery :: bool

record db =
  db_agents :: "(string, agent_row) amap"
  db_tokens :: "(string \<times> string) list"
  db_reports :: "report_row list"
  db_next_report :: nat
  db_hourly :: "hourly_row list"
  db_alerts :: "alert_row list"
  db_next_alert :: nat
  db_audit :: "audit_row list"
  db_preferences :: "preferences option"

text \<open>The statements an operation sends, and its errors.\<close>

datatype db_call =
    Begin | SelectAlert | InsertAlert | UpdateAlert | InsertAudit | Commit | SelectAlerts
  | CountCooldown | UpdateNotification | RowsAffected | DeleteTokens | PrepareAgent | PrepareToken
  | InsertAgent string | InsertToken string string | SelectTokens | UpdateAgent | InsertReport
  | SelectReports | SelectRaw | SelectHourly | Aggregate | DeleteReports | DeleteHourly
  | SelectLastSeen | SelectPreferences | SavePreferences | SelectPrevious

datatype db_error = DbError | NoRows | Replay | InvalidState | Constraint | DecodePayload
  | EncodePayload | BadArgument

type_synonym faults = "db_call \<Rightarrow> bool"

subsection \<open>Alerts in memory\<close>

record alert =
  al_hostname :: string
  al_target :: string
  al_id :: nat
  al_agent_id :: string
  al_rule_key :: string
  al_resource :: string
  al_severity :: severity
  al_state :: alert_state
  al_value :: float64
  al_threshold :: float64
  al_started_at :: gotime
  al_firing_at :: "gotime option"
  al_resolved_at :: "gotime option"
  al_acknowledged_at :: "gotime option"
  al_acknowledged_by :: string
  al_notification :: notification
  al_last_notified_at :: "gotime option"
  al_violation_count :: int

definition parse_nullable_time :: "stamp option \<Rightarrow> gotime option" where
  "parse_nullable_time value = (case value of None \<Rightarrow> None | Some s \<Rightarrow> parse_stamp s)"

definition parsed_or_zero :: "stamp \<Rightarrow> gotime" where
  "parsed_or_zero s = (case parse_stamp s of None \<Rightarrow> 0 | Some t \<Rightarrow> t)"

definition scan_alert :: "alert_row \<Rightarrow> alert" where
  "scan_alert r = \<lparr>al_hostname = [], al_target = [], al_id = ar_id r, al_agent_id = ar_agent_id r,
     al_rule_key = ar_rule_key r, al_resource = ar_resource r, al_severity = ar_severity r,
     al_state = ar_state r, al_value = ar_value r, al_threshold = ar_threshold r,
     al_started_at = parsed_or_zero (ar_started_at r),
     al_firing_at = parse_nullable_time (ar_firing_at r),
     al_resolved_at = parse_nullable_time (ar_resolved_at r),
     al_acknowledged_at = parse_nullable_time (ar_acknowledged_at r),
     al_acknowledged_by = (case ar_acknowledged_by r of None \<Rightarrow> [] | Some by \<Rightarrow> by),
     al_notification = ar_notification r,
     al_last_notified_at = parse_nullable_time (ar_last_notified_at r),
     al_violation_count = ar_violation_count r\<rparr>"

record rule_evaluation =
  ev_agent_id :: string
  ev_rule_key :: string
  ev_resource :: string
  ev_severity :: severity
  ev_value :: float64
  ev_threshold :: float64
  ev_violated :: bool
  ev_for :: duration
  ev_consecutive :: int

subsection \<open>Statements\<close>

definition active_row :: "alert_row \<Rightarrow> bool" where
  "active_row r \<longleftrightarrow> ar_state r = Pending \<or> ar_state r = Firing"

definition row_of :: "string \<Rightarrow> string \<Rightarrow> string \<Rightarrow> alert_row \<Rightarrow> bool" where
  "row_of agent rule resource r \<longleftrightarrow>
     ar_agent_id r = agent \<and> ar_rule_key r = rule \<and> ar_resource r = resource"

definition select_active :: "rule_evaluation \<Rightarrow> db \<Rightarrow> alert_row option" where
  "select_active e d =
     find (\<lambda>r. row_of (ev_agent_id e) (ev_rule_key e) (ev_resource e) r \<and> active_row r) (db_alerts d)"

definition update_alerts :: "(alert_row \<Rightarrow> bool) \<Rightarrow> (alert_row \<Rightarrow> alert_row) \<Rightarrow> db \<Rightarrow> db" where
  "update_alerts P f d = d\<lparr>db_alerts := map (\<lambda>r. if P r then f r else r) (db_alerts d)\<rparr>"

text \<open>The row a violated rule without an active alert inserts; columns not named get their defaults.\<close>

definition new_row :: "rule_evaluation \<Rightarrow> gotime \<Rightarrow> nat \<Rightarrow> alert_row" where
  "new_row e now n =
     (let fires = ev_for e \<le> 0 \<and> ev_consecutive e \<le> 1 in
      \<lparr>ar_id = n, ar_agent_id = ev_agent_id e, ar_rule_key = ev_rule_key e,
       ar_resource = ev_resource e, ar_severity = ev_severity e,
       ar_state = (if fires then Firing else Pending), ar_value = ev_value e,
       ar_threshold = ev_threshold e, ar_started_at = rfc3339_nano now,
       ar_firing_at = (if fires then Some (rfc3339_nano now) else None), ar_resolved_at = None,
       ar_acknowledged_at = None, ar_acknowledged_by = None,
       ar_notification = (if fires then NotPending else NotNone), ar_last_notified_at = None,
       ar_violation_count = 1\<rparr>)"

definition insert_alert :: "alert_row \<Rightarrow> db \<Rightarrow> db option" where
  "insert_alert r d =
     (if amap_get (db_agents d) (ar_agent_id r) = None then None
      else if active_row r \<and> find (\<lambda>q. row_of (ar_agent_id r) (ar_rule_key r) (ar_resource r) q \<and>
             active_row q) (db_alerts d) \<noteq> None then None
      else Some (d\<lparr>db_alerts := db_alerts d @ [r], db_next_alert := Suc (db_next_alert d)\<rparr>))"

subsection \<open>Audit\<close>

definition audit_tx :: "faults \<Rightarrow> string \<Rightarrow> string \<Rightarrow> string \<Rightarrow> audit_details \<Rightarrow> gotime \<Rightarrow> db \<Rightarrow> db_error + db" where
  "audit_tx fails actor action target details clock d =
     (if fails InsertAudit then Inl DbError
      else Inr (d\<lparr>db_audit := db_audit d @
        [\<lparr>au_occurred_at = rfc3339_nano clock, au_actor = actor, au_action = action,
          au_target = target, au_details = details\<rparr>]\<rparr>))"

definition audit_target :: "rule_evaluation \<Rightarrow> string" where
  "audit_target e = ev_agent_id e @ ''/'' @ ev_rule_key e @
     (if ev_resource e \<noteq> [] then ''/'' @ ev_resource e else [])"

definition audit_rule_tx :: "faults \<Rightarrow> rule_evaluation \<Rightarrow> string \<Rightarrow> gotime \<Rightarrow> db \<Rightarrow> db_error + db" where
  "audit_rule_tx fails e state clock d =
     audit_tx fails ''system'' (''alert.'' @ state) (audit_target e)
       (RuleDetails (ev_value e) (ev_threshold e) (ev_severity e)) clock d"

subsection \<open>ApplyRule\<close>

text \<open>A statement of a transaction followed by the audit entry.\<close>

definition audited :: "faults \<Rightarrow> rule_evaluation \<Rightarrow> string \<Rightarrow> gotime \<Rightarrow> db \<Rightarrow> db_error + bool \<times> db" where
  "audited fails e state clock d =
     (case audit_rule_tx fails e state clock d of Inl err \<Rightarrow> Inl err | Inr d' \<Rightarrow> Inr (True, d'))"

definition fire_row :: "rule_evaluation \<Rightarrow> gotime \<Rightarrow> int \<Rightarrow> alert_row \<Rightarrow> alert_row" where
  "fire_row e now count r = r\<lparr>ar_state := Firing, ar_firing_at := Some (rfc3339_nano now),
     ar_severity := ev_severity e, ar_value := ev_value e, ar_threshold := ev_threshold e,
     ar_notification := NotPending, ar_violation_count := count\<rparr>"

definition escalate_row :: "rule_evaluation \<Rightarrow> int \<Rightarrow> alert_row \<Rightarrow> alert_row" where
  "escalate_row e count r = r\<lparr>ar_severity := ev_severity e, ar_value := ev_value e,
     ar_threshold := ev_threshold e, ar_violation_count := count, ar_notification := NotPending,
     ar_acknowledged_at := None, ar_acknowledged_by := None\<rparr>"

definition refresh_row :: "rule_evaluation \<Rightarrow> int \<Rightarrow> alert_row \<Rightarrow> alert_row" where
  "refresh_row e count r = r\<lparr>ar_severity := ev_severity e, ar_value := ev_value e,
     ar_threshold := ev_threshold e, ar_violation_count := count\<rparr>"

definition resolve_row :: "rule_evaluation \<Rightarrow> gotime \<Rightarrow> notification \<Rightarrow> alert_row \<Rightarrow> alert_row" where
  "resolve_row e now notif r = r\<lparr>ar_state := Resolved, ar_resolved_at := Some (rfc3339_nano now),
     ar_value := ev_value e, ar_threshold := ev_threshold e, ar_notification := notif\<rparr>"

text \<open>The body of the transaction: whether the alert changed, and the new database.\<close>

definition apply_rule_tx :: "faults \<Rightarrow> rule_evaluation \<Rightarrow> gotime \<Rightarrow> gotime \<Rightarrow> db \<Rightarrow> db_error + bool \<times> db" where
  "apply_rule_tx fails e now clock d =
     (case map_option scan_alert (select_active e d) of
        None \<Rightarrow>
          if ev_violated e then
            (if fails InsertAlert then Inl DbError
             else case insert_alert (new_row e now (db_next_alert d)) d of
                 None \<Rightarrow> Inl Constraint
               | Some d1 \<Rightarrow>
                   audited fails e (if ev_for e \<le> 0 \<and> ev_consecutive e \<le> 1 then ''firing'' else ''pending'') clock d1)
          else Inr (False, d)
      | Some ex \<Rightarrow>
          (let here = (\<lambda>r. ar_id r = al_id ex) in
           if ev_violated e then
             (let next_count = al_violation_count ex + 1;
                  reached_count = (1 < ev_consecutive e \<and> ev_consecutive e \<le> next_count);
                  reached_duration = (ev_consecutive e \<le> 1 \<and> ev_for e \<le> time_sub now (al_started_at ex)) in
              if fails UpdateAlert then Inl DbError
              else if al_state ex = Pending \<and> (reached_count \<or> reached_duration) then
                audited fails e ''firing'' clock (update_alerts here (fire_row e now next_count) d)
              else if al_state ex = Firing \<and> al_severity ex \<noteq> Critical \<and> ev_severity e = Critical then
                audited fails e ''escalated'' clock (update_alerts here (escalate_row e next_count) d)
              else Inr (False, update_alerts here (refresh_row e next_count) d))
           else
             (let notif = (if al_state ex = Firing
                then (if al_notification ex = NotSuppressed then NotSuppressed else NotPending)
                else NotNone) in
              if fails UpdateAlert then Inl DbError
              else audited fails e ''resolved'' clock (update_alerts here (resolve_row e now notif) d))))"

definition apply_rule :: "faults \<Rightarrow> rule_evaluation \<Rightarrow> gotime \<Rightarrow> gotime \<Rightarrow> db \<Rightarrow> (db_error + bool) \<times> db" where
  "apply_rule fails e now clock d =
     (if fails Begin \<or> fails SelectAlert then (Inl DbError, d)
      else case apply_rule_tx fails e now clock d of
          Inl err \<Rightarrow> (Inl err, d)
        | Inr (changed, d') \<Rightarrow> if fails Commit then (Inl DbError, d) else (Inr changed, d'))"


subsection \<open>The invariant of the alerts table\<close>

definition row_ok :: "alert_row \<Rightarrow> bool" where
  "row_ok r \<longleftrightarrow> 1 \<le> ar_violation_count r \<and>
     (case ar_state r of
        Pending \<Rightarrow> ar_firing_at r = None \<and> ar_resolved_at r = None \<and> ar_notification r = NotNone
      | Firing \<Rightarrow> ar_firing_at r \<noteq> None \<and> ar_resolved_at r = None \<and> ar_notification r \<noteq> NotNone
      | Resolved \<Rightarrow> ar_resolved_at r \<noteq> None \<and> (ar_firing_at r = None \<longleftrightarrow> ar_notification r = NotNone))"

definition same_key :: "alert_row \<Rightarrow> alert_row \<Rightarrow> bool" where
  "same_key r q \<longleftrightarrow> row_of (ar_agent_id r) (ar_rule_key r) (ar_resource r) q"

definition alerts_ok :: "db \<Rightarrow> bool" where
  "alerts_ok d \<longleftrightarrow> distinct (map ar_id (db_alerts d)) \<and>
     (\<forall>r \<in> set (db_alerts d). ar_id r < db_next_alert d \<and> row_ok r \<and>
        amap_get (db_agents d) (ar_agent_id r) \<noteq> None) \<and>
     (\<forall>r \<in> set (db_alerts d). \<forall>q \<in> set (db_alerts d).
        active_row r \<and> active_row q \<and> same_key r q \<longrightarrow> r = q)"

definition active_at :: "db \<Rightarrow> string \<Rightarrow> string \<Rightarrow> string \<Rightarrow> alert_row option" where
  "active_at d agent rule resource = find (\<lambda>r. row_of agent rule resource r \<and> active_row r) (db_alerts d)"

lemma active_at_iff:
  assumes "alerts_ok d"
  shows "active_at d a k s = Some r \<longleftrightarrow> r \<in> set (db_alerts d) \<and> row_of a k s r \<and> active_row r"
  unfolding active_at_def
  by (rule find_unique) (use assms in \<open>auto simp: alerts_ok_def same_key_def row_of_def\<close>)

lemma active_at_None:
  "alerts_ok d \<Longrightarrow> active_at d a k s = None \<longleftrightarrow> (\<forall>r \<in> set (db_alerts d). row_of a k s r \<longrightarrow> \<not> active_row r)"
  by (auto simp: active_at_def find_None_iff)

lemma row_by_id:
  "alerts_ok d \<Longrightarrow> r \<in> set (db_alerts d) \<Longrightarrow> q \<in> set (db_alerts d) \<Longrightarrow> ar_id r = ar_id q \<Longrightarrow> r = q"
  by (auto simp: alerts_ok_def intro: distinct_map_inj)

text \<open>Updating one row by its id.\<close>

definition keeps_key :: "(alert_row \<Rightarrow> alert_row) \<Rightarrow> bool" where
  "keeps_key f \<longleftrightarrow> (\<forall>r. ar_id (f r) = ar_id r \<and> ar_agent_id (f r) = ar_agent_id r \<and>
     ar_rule_key (f r) = ar_rule_key r \<and> ar_resource (f r) = ar_resource r)"

lemma keeps_key_row_of [simp]: "keeps_key f \<Longrightarrow> row_of a k s (f r) \<longleftrightarrow> row_of a k s r"
  by (simp add: keeps_key_def row_of_def)

lemma keeps_key_updates [simp]:
  "keeps_key (fire_row e now n)" "keeps_key (escalate_row e n)" "keeps_key (refresh_row e n)"
  "keeps_key (resolve_row e now notif)"
  by (simp_all add: keeps_key_def fire_row_def escalate_row_def refresh_row_def resolve_row_def)

lemma update_alerts_simps [simp]:
  "db_next_alert (update_alerts P f d) = db_next_alert d" "db_agents (update_alerts P f d) = db_agents d"
  "db_audit (update_alerts P f d) = db_audit d"
  by (simp_all add: update_alerts_def)

lemma map_id_update: "keeps_key f \<Longrightarrow> map ar_id (db_alerts (update_alerts P f d)) = map ar_id (db_alerts d)"
  by (simp add: update_alerts_def keeps_key_def)

lemma set_update_alerts:
  assumes "alerts_ok d" "r \<in> set (db_alerts d)"
  shows "set (db_alerts (update_alerts (\<lambda>q. ar_id q = ar_id r) f d)) =
    insert (f r) (set (db_alerts d) - {r})"
proof -
  have "(if ar_id q = ar_id r then f q else q) = (if q = r then f r else q)" if "q \<in> set (db_alerts d)" for q
    using row_by_id [OF assms(1) that assms(2)] by auto
  then show ?thesis using assms(2) by (force simp: update_alerts_def)
qed

lemma alerts_ok_update:
  assumes ok: "alerts_ok d" and r: "r \<in> set (db_alerts d)" and f: "keeps_key f" "row_ok (f r)"
    and active: "active_row (f r) \<Longrightarrow> active_row r"
  shows "alerts_ok (update_alerts (\<lambda>q. ar_id q = ar_id r) f d)"
proof -
  let ?d = "update_alerts (\<lambda>q. ar_id q = ar_id r) f d"
  note s = set_update_alerts [OF ok r, of f]
  have key: "same_key (f r) q \<longleftrightarrow> same_key r q" "same_key q (f r) \<longleftrightarrow> same_key q r" for q
    using f(1) by (auto simp: same_key_def keeps_key_def row_of_def)
  note map_id_update [OF f(1)]
  moreover have "\<forall>q \<in> set (db_alerts ?d). ar_id q < db_next_alert d \<and> row_ok q \<and>
      amap_get (db_agents d) (ar_agent_id q) \<noteq> None"
    using ok r f by (auto simp: s alerts_ok_def keeps_key_def)
  moreover have "x = y" if "x \<in> set (db_alerts ?d)" "y \<in> set (db_alerts ?d)" "active_row x" "active_row y"
      "same_key x y" for x y
    using that ok r active key by (auto simp: s alerts_ok_def) blast+
  ultimately show ?thesis using ok by (simp add: alerts_ok_def)
qed

lemma active_at_update:
  assumes ok: "alerts_ok d" and r: "r \<in> set (db_alerts d)" "active_row r" and f: "keeps_key f" "row_ok (f r)"
  shows "active_at (update_alerts (\<lambda>q. ar_id q = ar_id r) f d) a k s =
    (if row_of a k s r then (if active_row (f r) then Some (f r) else None) else active_at d a k s)"
proof -
  let ?d = "update_alerts (\<lambda>q. ar_id q = ar_id r) f d"
  have ok': "alerts_ok ?d" by (rule alerts_ok_update [OF ok r(1) f]) (rule r(2))
  note s = set_update_alerts [OF ok r(1), of f]
  have uniq: "q = r" if "q \<in> set (db_alerts d)" "active_row q" "row_of a k s q" "row_of a k s r" for q
    using that ok r by (auto simp: alerts_ok_def same_key_def row_of_def)
  show ?thesis
  proof (rule option_ext)
    fix q
    show "active_at ?d a k s = Some q \<longleftrightarrow>
        (if row_of a k s r then (if active_row (f r) then Some (f r) else None) else active_at d a k s) = Some q"
      unfolding active_at_iff [OF ok'] s using f(1) uniq [of q] r active_at_iff [OF ok, of a k s q]
      by (cases "row_of a k s r") auto
  qed
qed

lemma alerts_ok_insert:
  assumes ok: "alerts_ok d" and ins: "insert_alert r d = Some d'" and r: "ar_id r = db_next_alert d" "row_ok r"
  shows "alerts_ok d'"
    "active_row r \<Longrightarrow> active_at d' a k s = (if row_of a k s r then Some r else active_at d a k s)"
proof -
  have d': "d' = d\<lparr>db_alerts := db_alerts d @ [r], db_next_alert := Suc (db_next_alert d)\<rparr>"
      "amap_get (db_agents d) (ar_agent_id r) \<noteq> None"
      "active_row r \<Longrightarrow> active_at d (ar_agent_id r) (ar_rule_key r) (ar_resource r) = None"
    using ins by (auto simp: insert_alert_def active_at_def split: if_splits)
  have none: "\<forall>q \<in> set (db_alerts d). active_row r \<and> same_key r q \<longrightarrow> \<not> active_row q"
    using d'(3) active_at_None [OF ok] by (auto simp: same_key_def)
  have sym: "same_key q r \<longleftrightarrow> same_key r q" for q by (auto simp: same_key_def row_of_def)
  have dist: "distinct (map ar_id (db_alerts d'))"
    using ok r(1) d'(1) by (force simp: alerts_ok_def)
  have rows: "\<forall>q \<in> set (db_alerts d'). ar_id q < db_next_alert d' \<and> row_ok q \<and>
      amap_get (db_agents d') (ar_agent_id q) \<noteq> None"
    using ok r d'(1,2) by (auto simp: alerts_ok_def less_Suc_eq)
  have "x = y" if "x \<in> insert r (set (db_alerts d))" "y \<in> insert r (set (db_alerts d))"
      "active_row x" "active_row y" "same_key x y" for x y
    using that ok none sym [of x] sym [of y] by (auto simp: alerts_ok_def)
  then show ok': "alerts_ok d'" using dist rows by (simp add: alerts_ok_def d'(1))
  assume r': "active_row r"
  show "active_at d' a k s = (if row_of a k s r then Some r else active_at d a k s)"
  proof (rule option_ext)
    fix q
    have "row_of a k s r \<Longrightarrow> q \<in> set (db_alerts d) \<Longrightarrow> row_of a k s q \<Longrightarrow> \<not> active_row q"
      using none r' by (auto simp: same_key_def row_of_def)
    then show "active_at d' a k s = Some q \<longleftrightarrow>
        (if row_of a k s r then Some r else active_at d a k s) = Some q"
      unfolding active_at_iff [OF ok'] using r' active_at_iff [OF ok, of a k s q]
      by (cases "row_of a k s r") (auto simp: d'(1))
  qed
qed


subsection \<open>The life of an alert\<close>

text \<open>The abstract state of one rule and resource: nothing, a violation that is being watched, or an
  alert; with the time it started, the number of violations seen and the severity.\<close>

datatype life = Idle | Waiting gotime int severity | Alerting gotime int severity

definition life_of :: "alert_row option \<Rightarrow> life" where
  "life_of r = (case r of None \<Rightarrow> Idle
     | Some r \<Rightarrow> (if ar_state r = Pending then Waiting else Alerting)
         (parsed_or_zero (ar_started_at r)) (ar_violation_count r) (ar_severity r))"

text \<open>What a rule evaluation does to it.\<close>

definition must_fire :: "rule_evaluation \<Rightarrow> gotime \<Rightarrow> gotime \<Rightarrow> int \<Rightarrow> bool" where
  "must_fire e now since n \<longleftrightarrow> (if 1 < ev_consecutive e then ev_consecutive e \<le> n
     else ev_for e \<le> time_sub now since)"

fun life_step :: "rule_evaluation \<Rightarrow> gotime \<Rightarrow> life \<Rightarrow> life" where
  "life_step e now Idle =
     (if \<not> ev_violated e then Idle
      else if ev_for e \<le> 0 \<and> ev_consecutive e \<le> 1 then Alerting now 1 (ev_severity e)
      else Waiting now 1 (ev_severity e))"
| "life_step e now (Waiting since n sev) =
     (if \<not> ev_violated e then Idle
      else if must_fire e now since (n + 1) then Alerting since (n + 1) (ev_severity e)
      else Waiting since (n + 1) (ev_severity e))"
| "life_step e now (Alerting since n sev) =
     (if \<not> ev_violated e then Idle else Alerting since (n + 1) (ev_severity e))"

text \<open>The transitions that are reported as changes, audited and notified.\<close>

fun life_changes :: "life \<Rightarrow> life \<Rightarrow> bool" where
  "life_changes Idle Idle = False"
| "life_changes (Waiting _ _ _) (Waiting _ _ _) = False"
| "life_changes (Alerting _ _ sev) (Alerting _ _ sev') = (sev \<noteq> Critical \<and> sev' = Critical)"
| "life_changes _ _ = True"

lemma parsed_nano [simp]: "parsed_or_zero (rfc3339_nano t) = t"
  by (simp add: parsed_or_zero_def parse_rfc3339_nano)

lemma scan_alert_simps [simp]:
  "al_id (scan_alert r) = ar_id r" "al_state (scan_alert r) = ar_state r"
  "al_severity (scan_alert r) = ar_severity r" "al_notification (scan_alert r) = ar_notification r"
  "al_violation_count (scan_alert r) = ar_violation_count r" "al_agent_id (scan_alert r) = ar_agent_id r"
  "al_rule_key (scan_alert r) = ar_rule_key r" "al_resource (scan_alert r) = ar_resource r"
  "al_started_at (scan_alert r) = parsed_or_zero (ar_started_at r)" "al_value (scan_alert r) = ar_value r"
  "al_threshold (scan_alert r) = ar_threshold r"
  by (simp_all add: scan_alert_def)

lemma select_active_at:
  "select_active e d = active_at d (ev_agent_id e) (ev_rule_key e) (ev_resource e)"
  by (simp add: select_active_def active_at_def)

lemma audited_Inr:
  "audited fails e state clock d = Inr (c, d') \<Longrightarrow>
    c \<and> (\<exists>entry. d' = d\<lparr>db_audit := db_audit d @ [entry]\<rparr> \<and> au_action entry = ''alert.'' @ state \<and>
      au_target entry = audit_target e)"
  by (auto simp: audited_def audit_rule_tx_def audit_tx_def split: if_splits)

lemma audit_unobserved [simp]:
  "active_at (d\<lparr>db_audit := l\<rparr>) = active_at d" "alerts_ok (d\<lparr>db_audit := l\<rparr>) = alerts_ok d"
  by (simp_all add: active_at_def alerts_ok_def fun_eq_iff)

lemma new_row_ok: "row_ok (new_row e now n)" "active_row (new_row e now n)" "ar_id (new_row e now n) = n"
  "row_of a k s (new_row e now n) \<longleftrightarrow> a = ev_agent_id e \<and> k = ev_rule_key e \<and> s = ev_resource e"
  by (auto simp: row_ok_def new_row_def active_row_def row_of_def Let_def)

text \<open>The updates on a good row: each gives a good row.\<close>

lemma row_ok_updates:
  assumes "row_ok r"
  shows "0 \<le> n \<Longrightarrow> ar_state r = Pending \<Longrightarrow> row_ok (fire_row e now (n + 1) r)"
    "0 \<le> n \<Longrightarrow> ar_state r = Firing \<Longrightarrow> row_ok (escalate_row e (n + 1) r)"
    "0 \<le> n \<Longrightarrow> row_ok (refresh_row e (n + 1) r)"
    "ar_state r = Pending \<Longrightarrow> row_ok (resolve_row e now NotNone r)"
    "ar_state r = Firing \<Longrightarrow> m \<noteq> NotNone \<Longrightarrow> row_ok (resolve_row e now m r)"
  using assms by (auto simp: row_ok_def fire_row_def escalate_row_def refresh_row_def resolve_row_def
      split: alert_state.splits)

lemma row_state_updates [simp]:
  "ar_state (fire_row e now n r) = Firing" "ar_state (escalate_row e n r) = ar_state r"
  "ar_state (refresh_row e n r) = ar_state r" "ar_state (resolve_row e now m r) = Resolved"
  "active_row (fire_row e now n r)" "\<not> active_row (resolve_row e now m r)"
  "active_row (escalate_row e n r) = active_row r" "active_row (refresh_row e n r) = active_row r"
  by (simp_all add: active_row_def fire_row_def escalate_row_def refresh_row_def resolve_row_def)

lemma life_of_updates [simp]:
  "life_of (Some (fire_row e now n r)) = Alerting (parsed_or_zero (ar_started_at r)) n (ev_severity e)"
  "ar_state r = Firing \<Longrightarrow> life_of (Some (escalate_row e n r)) =
    Alerting (parsed_or_zero (ar_started_at r)) n (ev_severity e)"
  "life_of (Some (refresh_row e n r)) = (if ar_state r = Pending then Waiting else Alerting)
    (parsed_or_zero (ar_started_at r)) n (ev_severity e)"
  "life_of None = Idle"
  by (simp_all add: life_of_def fire_row_def escalate_row_def refresh_row_def)

lemma life_of_new: "life_of (Some (new_row e now n)) =
    (if ev_for e \<le> 0 \<and> ev_consecutive e \<le> 1 then Alerting else Waiting) now 1 (ev_severity e)"
  by (simp add: life_of_def new_row_def Let_def)

text \<open>What a successful transaction does to the alerts, as a whole.\<close>

definition rule_effect :: "rule_evaluation \<Rightarrow> gotime \<Rightarrow> db \<Rightarrow> bool \<Rightarrow> db \<Rightarrow> bool" where
  "rule_effect e now d changed d' \<longleftrightarrow> alerts_ok d' \<and>
     (\<forall>a k s. active_at d' a k s \<noteq> active_at d a k s \<longrightarrow>
        a = ev_agent_id e \<and> k = ev_rule_key e \<and> s = ev_resource e) \<and>
     life_of (select_active e d') = life_step e now (life_of (select_active e d)) \<and>
     (changed \<longleftrightarrow> life_changes (life_of (select_active e d)) (life_of (select_active e d'))) \<and>
     length (db_audit d') = length (db_audit d) + (if changed then 1 else 0)"

lemma rule_effect_update:
  assumes ok: "alerts_ok d" and r: "select_active e d = Some r" and f: "keeps_key f" "row_ok (f r)"
    and life: "life_of (if active_row (f r) then Some (f r) else None) = life_step e now (life_of (Some r))"
    and c: "changed \<longleftrightarrow> life_changes (life_of (Some r)) (life_step e now (life_of (Some r)))"
    and d': "d' = (update_alerts (\<lambda>q. ar_id q = ar_id r) f d)\<lparr>db_audit := l\<rparr>"
    and l: "length l = length (db_audit d) + (if changed then 1 else 0)"
  shows "rule_effect e now d changed d'"
proof -
  have mem: "r \<in> set (db_alerts d)" "row_of (ev_agent_id e) (ev_rule_key e) (ev_resource e) r" "active_row r"
    using r active_at_iff [OF ok] by (simp_all add: select_active_at)
  have at: "active_at d' a k s = (if row_of a k s r then (if active_row (f r) then Some (f r) else None)
      else active_at d a k s)" for a k s
    using active_at_update [OF ok mem(1,3) f] d' by simp
  have "alerts_ok d'" using alerts_ok_update [OF ok mem(1) f] mem(3) d' by simp
  moreover have "select_active e d' = (if active_row (f r) then Some (f r) else None)"
    using at mem(2) by (simp add: select_active_at)
  ultimately show ?thesis using at mem(2) life c l d' r
    by (auto simp: rule_effect_def row_of_def)
qed

lemma apply_rule_tx_effect:
  assumes ok: "alerts_ok d" and run: "apply_rule_tx fails e now clock d = Inr (changed, d')"
  shows "rule_effect e now d changed d'"
proof (cases "select_active e d")
  case None
  show ?thesis
  proof (cases "ev_violated e")
    case False
    then show ?thesis using run None ok by (simp add: apply_rule_tx_def rule_effect_def)
  next
    case True
    let ?r = "new_row e now (db_next_alert d)"
    obtain d1 where d1: "insert_alert ?r d = Some d1"
        "audited fails e (if ev_for e \<le> 0 \<and> ev_consecutive e \<le> 1 then ''firing'' else ''pending'') clock d1 =
         Inr (changed, d')"
      using run None True by (auto simp: apply_rule_tx_def split: if_splits option.splits)
    note ins = alerts_ok_insert [OF ok d1(1)]
    from audited_Inr [OF d1(2)] obtain l where l: "changed" "d' = d1\<lparr>db_audit := db_audit d1 @ [l]\<rparr>" by blast
    have "db_audit d1 = db_audit d" using d1(1) by (auto simp: insert_alert_def split: if_splits)
    then show ?thesis
      using ins l None True new_row_ok life_of_new
      by (auto simp: rule_effect_def select_active_at)
  qed
next
  case (Some r)
  have mem: "r \<in> set (db_alerts d)" "active_row r"
    using Some active_at_iff [OF ok] by (simp_all add: select_active_at)
  then have r: "row_ok r" "1 \<le> ar_violation_count r" using ok by (auto simp: alerts_ok_def row_ok_def)
  have st: "ar_state r = Pending \<or> ar_state r = Firing" using mem(2) by (simp add: active_row_def)
  note upd = rule_effect_update [OF ok Some]
  let ?n = "ar_violation_count r"
  show ?thesis
  proof (cases "ev_violated e")
    case False
    let ?m = "if ar_state r = Firing then (if ar_notification r = NotSuppressed then NotSuppressed else NotPending) else NotNone"
    have "audited fails e ''resolved'' clock (update_alerts (\<lambda>q. ar_id q = ar_id r) (resolve_row e now ?m) d) =
        Inr (changed, d')"
      using run Some False by (auto simp: apply_rule_tx_def Let_def split: if_splits)
    from audited_Inr [OF this] obtain l where l: "changed"
        "d' = (update_alerts (\<lambda>q. ar_id q = ar_id r) (resolve_row e now ?m) d)\<lparr>db_audit := db_audit d @ [l]\<rparr>"
      by auto
    have "row_ok (resolve_row e now ?m r)" using row_ok_updates(4,5) [OF r(1)] st by auto
    then show ?thesis using False st l(1)
      by (intro upd [OF _ _ _ _ l(2)]) (auto simp: life_of_def)
  next
    case True
    let ?fire = "must_fire e now (parsed_or_zero (ar_started_at r)) (?n + 1)"
    have fire: "(1 < ev_consecutive e \<and> ev_consecutive e \<le> ?n + 1 \<or> ev_consecutive e \<le> 1 \<and>
        ev_for e \<le> time_sub now (parsed_or_zero (ar_started_at r))) = ?fire"
      by (auto simp: must_fire_def)
    have "\<not> fails UpdateAlert" using run Some True by (auto simp: apply_rule_tx_def Let_def)
    then have run': "(if ar_state r = Pending \<and> ?fire
        then audited fails e ''firing'' clock (update_alerts (\<lambda>q. ar_id q = ar_id r) (fire_row e now (?n + 1)) d)
        else if ar_state r = Firing \<and> ar_severity r \<noteq> Critical \<and> ev_severity e = Critical
        then audited fails e ''escalated'' clock (update_alerts (\<lambda>q. ar_id q = ar_id r) (escalate_row e (?n + 1)) d)
        else Inr (False, update_alerts (\<lambda>q. ar_id q = ar_id r) (refresh_row e (?n + 1)) d)) = Inr (changed, d')"
      using run Some True by (simp add: apply_rule_tx_def Let_def fire cong: if_cong)
    consider (fire) "ar_state r = Pending" ?fire
      | (escalate) "ar_state r = Firing" "ar_severity r \<noteq> Critical" "ev_severity e = Critical"
      | (refresh) "ar_state r = Pending \<longrightarrow> \<not> ?fire"
          "ar_state r = Firing \<longrightarrow> \<not> (ar_severity r \<noteq> Critical \<and> ev_severity e = Critical)"
      by blast
    then show ?thesis
    proof cases
      case fire
      then obtain l where l: "changed"
          "d' = (update_alerts (\<lambda>q. ar_id q = ar_id r) (fire_row e now (?n + 1)) d)\<lparr>db_audit := db_audit d @ [l]\<rparr>"
        using run' by (auto dest!: audited_Inr)
      show ?thesis using fire True r row_ok_updates(1) [OF r(1)] l(1)
        by (intro upd [OF _ _ _ _ l(2)]) (auto simp: life_of_def [of "Some r"])
    next
      case escalate
      then obtain l where l: "changed"
          "d' = (update_alerts (\<lambda>q. ar_id q = ar_id r) (escalate_row e (?n + 1)) d)\<lparr>db_audit := db_audit d @ [l]\<rparr>"
        using run' by (auto dest!: audited_Inr)
      show ?thesis using escalate True r row_ok_updates(2) [OF r(1)] l(1) mem(2)
        by (intro upd [OF _ _ _ _ l(2)]) (auto simp: life_of_def [of "Some r"])
    next
      case refresh
      then have l: "\<not> changed"
          "d' = (update_alerts (\<lambda>q. ar_id q = ar_id r) (refresh_row e (?n + 1)) d)\<lparr>db_audit := db_audit d\<rparr>"
        using run' st by auto
      show ?thesis using refresh True r row_ok_updates(3) [OF r(1)] l(1) mem(2) st
        by (intro upd [OF _ _ _ _ l(2)]) (auto simp: life_of_def [of "Some r"])
    qed
  qed
qed

lemma apply_rule_effect:
  assumes "alerts_ok d" and "apply_rule fails e now clock d = (Inr changed, d')"
  shows "rule_effect e now d changed d'"
  using assms apply_rule_tx_effect
  by (auto simp: apply_rule_def split: if_splits sum.splits)

lemma apply_rule_error: "apply_rule fails e now clock d = (Inl err, d') \<Longrightarrow> d' = d"
  by (auto simp: apply_rule_def split: if_splits sum.splits)

lemma apply_rule_ok [inv_intros]:
  "alerts_ok d \<Longrightarrow> alerts_ok (snd (apply_rule fails e now clock d))"
  using apply_rule_effect apply_rule_error
  by (cases "apply_rule fails e now clock d"; cases "fst (apply_rule fails e now clock d)")
    (fastforce simp: rule_effect_def)+

end
