(* ===== verification/Alert_Queries.thy ===== *)
theory Alert_Queries
  imports Alert_Store "HOL-Library.Option_ord"
begin

text \<open>
  The remaining operations of \<open>internal/storage/storage.go\<close> on alerts: the queries, the outbox of
  notifications and the acknowledgement.  A NULL sorts before every text, as \<open>None\<close> does before
  every \<open>Some\<close>.
\<close>

subsection \<open>Queries\<close>

definition query_alerts :: "faults \<Rightarrow> alert_row list \<Rightarrow> db_error + alert list" where
  "query_alerts fails rows = (if fails SelectAlerts then Inl DbError else Inr (map scan_alert rows))"

text \<open>\<open>ORDER BY .. DESC\<close>: equal keys keep the order of the ids.\<close>

definition descending :: "('a \<Rightarrow> 'k::linorder) \<Rightarrow> 'a list \<Rightarrow> 'a list" where
  "descending f xs = rev (sort_key f (rev xs))"

definition active_alerts :: "faults \<Rightarrow> db \<Rightarrow> db_error + alert list" where
  "active_alerts fails d = query_alerts fails (descending ar_started_at (filter active_row (db_alerts d)))"

definition unacknowledged_active_alerts :: "faults \<Rightarrow> db \<Rightarrow> db_error + alert list" where
  "unacknowledged_active_alerts fails d = query_alerts fails
     (descending ar_started_at (filter (\<lambda>r. active_row r \<and> ar_acknowledged_at r = None) (db_alerts d)))"

definition alert_history :: "faults \<Rightarrow> int \<Rightarrow> db \<Rightarrow> db_error + alert list" where
  "alert_history fails limit d =
     (let limit = (if limit < 1 then 1 else limit); limit = (if 500 < limit then 500 else limit) in
      query_alerts fails (take (nat limit)
        (descending ar_resolved_at (filter (\<lambda>r. ar_state r = Resolved) (db_alerts d)))))"

definition due_row :: "alert_row \<Rightarrow> bool" where
  "due_row r \<longleftrightarrow> ar_notification r = NotPending \<and> (ar_state r = Firing \<or> ar_state r = Resolved)"

definition pending_notifications :: "faults \<Rightarrow> int \<Rightarrow> db \<Rightarrow> db_error + alert list" where
  "pending_notifications fails limit d =
     (let limit = (if limit < 1 \<or> 100 < limit then 100 else limit) in
      query_alerts fails (take (nat limit) (sort_key ar_id (filter due_row (db_alerts d)))))"

definition agent_last_seen :: "faults \<Rightarrow> db \<Rightarrow> db_error + (string \<times> gotime) list" where
  "agent_last_seen fails d =
     (if fails SelectLastSeen then Inl DbError
      else Inr (concat (map (\<lambda>(agent, g). case gr_last_seen g of None \<Rightarrow> []
              | Some t \<Rightarrow> [(agent, parsed_or_zero t)]) (sort_key fst (db_agents d)))))"

subsection \<open>Notifications\<close>

definition notification_in_cooldown :: "faults \<Rightarrow> alert \<Rightarrow> duration \<Rightarrow> gotime \<Rightarrow> db \<Rightarrow> db_error + bool" where
  "notification_in_cooldown fails a cooldown now d =
     (if al_state a \<noteq> Firing \<or> cooldown \<le> 0 then Inr False
      else if fails CountCooldown then Inl DbError
      else Inr (filter (\<lambda>r. row_of (al_agent_id a) (al_rule_key a) (al_resource a) r \<and>
          ar_id r \<noteq> al_id a \<and> ar_severity r = al_severity a \<and> ar_notification r = NotSent \<and>
          (case ar_last_notified_at r of None \<Rightarrow> False
           | Some t \<Rightarrow> stamp_le (rfc3339_nano (time_add now (- cooldown))) t)) (db_alerts d) \<noteq> []))"

definition mark_row :: "notification \<Rightarrow> stamp option \<Rightarrow> alert_row \<Rightarrow> alert_row" where
  "mark_row state notified_at r = r\<lparr>ar_notification := state,
     ar_last_notified_at := (case notified_at of None \<Rightarrow> ar_last_notified_at r | Some t \<Rightarrow> Some t)\<rparr>"

definition mark_alert_notification_if :: "faults \<Rightarrow> nat \<Rightarrow> notification \<Rightarrow> gotime \<Rightarrow> alert option \<Rightarrow> db \<Rightarrow>
    db_error option \<times> db" where
  "mark_alert_notification_if fails n state now expected d =
     (if state \<noteq> NotSent \<and> state \<noteq> NotSuppressed then (Some InvalidState, d)
      else if fails UpdateNotification then (Some DbError, d)
      else (None, update_alerts
          (\<lambda>r. ar_id r = n \<and> (case expected of None \<Rightarrow> True
             | Some a \<Rightarrow> ar_state r = al_state a \<and> ar_severity r = al_severity a \<and> ar_notification r = NotPending))
          (mark_row state (if state = NotSent then Some (rfc3339_nano now) else None)) d))"

definition mark_alert_notification :: "faults \<Rightarrow> nat \<Rightarrow> notification \<Rightarrow> gotime \<Rightarrow> db \<Rightarrow> db_error option \<times> db" where
  "mark_alert_notification fails n state now d = mark_alert_notification_if fails n state now None d"

definition mark_alert_delivery :: "faults \<Rightarrow> alert \<Rightarrow> notification \<Rightarrow> gotime \<Rightarrow> db \<Rightarrow> db_error option \<times> db" where
  "mark_alert_delivery fails a state now d = mark_alert_notification_if fails (al_id a) state now (Some a) d"

subsection \<open>Acknowledgement\<close>

definition acknowledge_alert :: "faults \<Rightarrow> nat \<Rightarrow> string \<Rightarrow> gotime \<Rightarrow> gotime \<Rightarrow> db \<Rightarrow> db_error option \<times> db" where
  "acknowledge_alert fails n actor now clock d =
     (if fails Begin \<or> fails UpdateAlert then (Some DbError, d)
      else
        (let open_row = (\<lambda>r. ar_id r = n \<and> active_row r \<and> ar_acknowledged_at r = None);
             d1 = update_alerts open_row
               (\<lambda>r. r\<lparr>ar_acknowledged_at := Some (rfc3339_nano now), ar_acknowledged_by := Some actor\<rparr>) d in
         if fails RowsAffected then (Some DbError, d)
         else if length (filter open_row (db_alerts d)) \<noteq> 1 then (Some NoRows, d)
         else (case audit_tx fails actor ''alert.acknowledged'' (dec n) AcknowledgedDetails clock d1 of
                 Inl e \<Rightarrow> (Some e, d)
               | Inr d2 \<Rightarrow> if fails Commit then (Some DbError, d) else (None, d2))))"

subsection \<open>The invariant\<close>

text \<open>Updating rows without touching identity and state.\<close>

lemma alerts_ok_update_rows:
  assumes ok: "alerts_ok d" and f: "keeps_key f" "\<And>r. ar_state (f r) = ar_state r"
    and row: "\<And>r. r \<in> set (db_alerts d) \<Longrightarrow> P r \<Longrightarrow> row_ok (f r)"
  shows "alerts_ok (update_alerts P f d)"
proof -
  let ?g = "\<lambda>r. if P r then f r else r"
  have g: "ar_id (?g r) = ar_id r" "active_row (?g r) = active_row r" "same_key (?g r) (?g q) = same_key r q"
    for r q using f by (auto simp: keeps_key_def active_row_def same_key_def row_of_def)
  have eq: "db_alerts (update_alerts P f d) = map ?g (db_alerts d)" by (simp add: update_alerts_def)
  have uniq: "?g r = ?g q" if "r \<in> set (db_alerts d)" "q \<in> set (db_alerts d)"
      "active_row (?g r)" "active_row (?g q)" "same_key (?g r) (?g q)" for r q
  proof -
    have "r = q" using ok that(1,2) that(3-5) [unfolded g] by (auto simp: alerts_ok_def)
    then show ?thesis by simp
  qed
  have rows: "\<forall>q \<in> set (db_alerts (update_alerts P f d)). ar_id q < db_next_alert d \<and> row_ok q \<and>
      amap_get (db_agents d) (ar_agent_id q) \<noteq> None"
    using ok row f(1) by (auto simp: eq alerts_ok_def keeps_key_def)
  have "x = y" if xy: "x \<in> set (db_alerts (update_alerts P f d))" "y \<in> set (db_alerts (update_alerts P f d))"
      "active_row x" "active_row y" "same_key x y" for x y
  proof -
    obtain r q where "r \<in> set (db_alerts d)" "x = ?g r" "q \<in> set (db_alerts d)" "y = ?g q"
      using xy(1,2) unfolding eq by fastforce
    then show ?thesis using uniq [of r q] xy(3-5) by simp
  qed
  then show ?thesis using ok rows map_id_update [OF f(1), of P d] by (simp add: alerts_ok_def)
qed

lemma mark_alerts_ok [inv_intros]:
  assumes "alerts_ok d" and "\<And>r. expected = None \<Longrightarrow> r \<in> set (db_alerts d) \<Longrightarrow> ar_id r = n \<Longrightarrow> ar_notification r \<noteq> NotNone"
  shows "alerts_ok (snd (mark_alert_notification_if fails n state now expected d))"
proof -
  let ?P = "\<lambda>r. ar_id r = n \<and> (case expected of None \<Rightarrow> True
     | Some a \<Rightarrow> ar_state r = al_state a \<and> ar_severity r = al_severity a \<and> ar_notification r = NotPending)"
  let ?f = "mark_row state (if state = NotSent then Some (rfc3339_nano now) else None)"
  have "row_ok (?f r)" if "r \<in> set (db_alerts d)" "?P r" "state = NotSent \<or> state = NotSuppressed" for r
  proof -
    have "ar_notification r \<noteq> NotNone" using that assms(2) by (cases expected) auto
    moreover have "row_ok r" using assms(1) that(1) by (simp add: alerts_ok_def)
    ultimately show ?thesis using that(3) by (auto simp: row_ok_def mark_row_def split: alert_state.splits)
  qed
  then have "state = NotSent \<or> state = NotSuppressed \<Longrightarrow> alerts_ok (update_alerts ?P ?f d)"
    by (intro alerts_ok_update_rows [OF assms(1)]) (auto simp: keeps_key_def mark_row_def)
  then show ?thesis using assms(1) by (auto simp: mark_alert_notification_if_def)
qed

lemma row_ok_acknowledged [simp]:
  "row_ok (r\<lparr>ar_acknowledged_at := t, ar_acknowledged_by := b\<rparr>) = row_ok r"
  by (simp add: row_ok_def cong: alert_state.case_cong)

lemma acknowledge_alerts_ok [inv_intros]:
  assumes "alerts_ok d"
  shows "alerts_ok (snd (acknowledge_alert fails n actor now clock d))"
proof -
  have "alerts_ok (update_alerts P (\<lambda>r. r\<lparr>ar_acknowledged_at := t, ar_acknowledged_by := b\<rparr>) d)" for P t b
    using assms by (intro alerts_ok_update_rows) (auto simp: keeps_key_def alerts_ok_def)
  then show ?thesis using assms
    by (auto simp: acknowledge_alert_def audit_tx_def Let_def split: sum.splits)
qed

end
