(* ===== verification/Report_Store.thy ===== *)
theory Report_Store
  imports Alert_Queries
begin

text \<open>
  The operations of \<open>internal/storage\<close> on agents, tokens, reports, hourly metrics and preferences
  (\<open>storage.go\<close>, \<open>preferences.go\<close>).  The JSON codec of reports, SQLite's \<open>AVG\<close> and its \<open>strftime\<close>
  with the format of an hour are arguments (\<open>encode\<close>, \<open>decode\<close>, \<open>avg\<close>, \<open>hour_text\<close>).  The driver
  refuses an unsigned argument whose high bit is set.
\<close>

subsection \<open>Agents and tokens\<close>

text \<open>The loop of \<open>SyncAgents\<close> over the configured tokens.\<close>

fun sync_loop :: "faults \<Rightarrow> (string \<times> string) list \<Rightarrow> db \<Rightarrow> db_error + db" where
  "sync_loop fails [] d = Inr d"
| "sync_loop fails ((agent, hash) # items) d =
     (if agent = [] \<or> hash = [] then Inl BadArgument
      else if fails (InsertAgent agent) then Inl DbError
      else
        (let d1 = (if amap_get (db_agents d) agent = None
           then d\<lparr>db_agents := amap_put agent \<lparr>gr_last_sequence = 0, gr_last_seen = None\<rparr> (db_agents d)\<rparr>
           else d) in
         if fails (InsertToken agent hash) then Inl DbError
         else if (agent, hash) \<in> set (db_tokens d1) then Inl Constraint
         else sync_loop fails items (d1\<lparr>db_tokens := db_tokens d1 @ [(agent, hash)]\<rparr>)))"

definition sync_agents :: "faults \<Rightarrow> (string \<times> string) list \<Rightarrow> db \<Rightarrow> db_error option \<times> db" where
  "sync_agents fails tokens d =
     (if fails Begin \<or> fails DeleteTokens \<or> fails PrepareAgent \<or> fails PrepareToken then (Some DbError, d)
      else case sync_loop fails tokens (d\<lparr>db_tokens := []\<rparr>) of
          Inl e \<Rightarrow> (Some e, d)
        | Inr d' \<Rightarrow> if fails Commit then (Some DbError, d) else (None, d'))"

definition token_hashes :: "faults \<Rightarrow> string \<Rightarrow> db \<Rightarrow> db_error + string list" where
  "token_hashes fails agent d =
     (if fails SelectTokens then Inl DbError
      else (let hashes = map snd (filter (\<lambda>t. fst t = agent) (db_tokens d)) in
        if hashes = [] then Inl NoRows else Inr hashes))"

subsection \<open>Reports\<close>

definition report_row_of :: "report \<Rightarrow> string \<Rightarrow> gotime \<Rightarrow> nat \<Rightarrow> report_row" where
  "report_row_of r payload received n =
     \<lparr>rr_id = n, rr_agent_id = rep_agent_id r, rr_measured_at = rfc3339_nano (rep_timestamp r),
      rr_received_at = rfc3339_nano received, rr_sequence = uint (rep_sequence r),
      rr_cpu_percent = rep_cpu_percent r, rr_memory_percent = mem_used_percent (rep_memory r),
      rr_swap_percent = mem_swap_percent (rep_memory r), rr_uptime = uint (rep_uptime r),
      rr_payload = payload\<rparr>"

text \<open>\<open>SaveReport\<close>; \<open>seen\<close> and \<open>received\<close> are its two readings of the clock.\<close>

definition save_report :: "faults \<Rightarrow> (report \<Rightarrow> string option) \<Rightarrow> report \<Rightarrow> gotime \<Rightarrow> gotime \<Rightarrow> db \<Rightarrow>
    db_error option \<times> db" where
  "save_report fails encode r seen received d =
     (case encode r of
        None \<Rightarrow> (Some EncodePayload, d)
      | Some payload \<Rightarrow>
          (let sequence = uint (rep_sequence r) in
           if fails Begin \<or> fails UpdateAgent \<or> 2 ^ 63 \<le> sequence then (Some DbError, d)
           else if fails RowsAffected then (Some DbError, d)
           else case amap_get (db_agents d) (rep_agent_id r) of
               None \<Rightarrow> (Some Replay, d)
             | Some g \<Rightarrow>
                 if \<not> gr_last_sequence g < sequence then (Some Replay, d)
                 else
                   (let g1 = \<lparr>gr_last_sequence = sequence, gr_last_seen = Some (rfc3339_nano seen)\<rparr>;
                        row = report_row_of r payload received (db_next_report d) in
                    if fails InsertReport \<or> 2 ^ 63 \<le> uint (rep_uptime r) then (Some DbError, d)
                    else if find (\<lambda>q. rr_agent_id q = rep_agent_id r \<and> rr_sequence q = sequence) (db_reports d) \<noteq> None
                    then (Some Constraint, d)
                    else if fails Commit then (Some DbError, d)
                    else (None, d\<lparr>db_agents := amap_put (rep_agent_id r) g1 (db_agents d),
                                  db_reports := db_reports d @ [row],
                                  db_next_report := Suc (db_next_report d)\<rparr>))))"

text \<open>The row with the greatest id, for each agent in the order of their names.\<close>

definition newest :: "report_row list \<Rightarrow> report_row option" where
  "newest rows = (case rev (sort_key rr_id rows) of [] \<Rightarrow> None | r # _ \<Rightarrow> Some r)"

fun decode_all :: "(string \<Rightarrow> report option) \<Rightarrow> string list \<Rightarrow> db_error + report list" where
  "decode_all decode [] = Inr []"
| "decode_all decode (p # ps) =
     (case decode p of None \<Rightarrow> Inl DecodePayload
      | Some r \<Rightarrow> (case decode_all decode ps of Inl e \<Rightarrow> Inl e | Inr rs \<Rightarrow> Inr (r # rs)))"

definition latest_rows :: "db \<Rightarrow> report_row list" where
  "latest_rows d = concat (map
     (\<lambda>agent. case newest (filter (\<lambda>r. rr_agent_id r = agent) (db_reports d)) of None \<Rightarrow> [] | Some r \<Rightarrow> [r])
     (sort (remdups (map rr_agent_id (db_reports d)))))"

definition latest_reports :: "faults \<Rightarrow> (string \<Rightarrow> report option) \<Rightarrow> db \<Rightarrow> db_error + report list" where
  "latest_reports fails decode d =
     (if fails SelectReports then Inl DbError else decode_all decode (map rr_payload (latest_rows d)))"

text \<open>\<open>PreviousReport\<close> compares the texts of the times.\<close>

definition previous_report :: "faults \<Rightarrow> (string \<Rightarrow> report option) \<Rightarrow> string \<Rightarrow> gotime \<Rightarrow> db \<Rightarrow> db_error + report" where
  "previous_report fails decode agent before d =
     (if fails SelectPrevious then Inl DbError
      else case rev (sort_key (\<lambda>r. (rr_measured_at r, rr_id r))
          (filter (\<lambda>r. rr_agent_id r = agent \<and> stamp_less (rr_measured_at r) (rfc3339_nano before)) (db_reports d))) of
          [] \<Rightarrow> Inl NoRows
        | r # _ \<Rightarrow> (case decode (rr_payload r) of None \<Rightarrow> Inl DecodePayload | Some p \<Rightarrow> Inr p))"

subsection \<open>History\<close>

record history_point =
  hp_timestamp :: gotime
  hp_cpu_percent :: float64
  hp_memory_percent :: float64
  hp_samples :: int

definition raw_history :: "faults \<Rightarrow> string \<Rightarrow> gotime \<Rightarrow> db \<Rightarrow> db_error + history_point list" where
  "raw_history fails agent since d =
     (if fails SelectRaw then Inl DbError
      else Inr (map (\<lambda>r. \<lparr>hp_timestamp = parsed_or_zero (rr_measured_at r), hp_cpu_percent = rr_cpu_percent r,
                          hp_memory_percent = rr_memory_percent r, hp_samples = 1\<rparr>)
        (sort_key rr_measured_at
          (filter (\<lambda>r. rr_agent_id r = agent \<and> stamp_le (rfc3339_nano since) (rr_measured_at r)) (db_reports d)))))"

definition hourly_history :: "faults \<Rightarrow> string \<Rightarrow> gotime \<Rightarrow> gotime \<Rightarrow> db \<Rightarrow> db_error + history_point list" where
  "hourly_history fails agent since until d =
     (if fails SelectHourly then Inl DbError
      else Inr (map (\<lambda>h. \<lparr>hp_timestamp = parsed_or_zero (hr_hour_start h), hp_cpu_percent = hr_cpu_avg h,
                          hp_memory_percent = hr_memory_avg h, hp_samples = hr_samples h\<rparr>)
        (sort_key hr_hour_start
          (filter (\<lambda>h. hr_agent_id h = agent \<and> stamp_le (rfc3339 since) (hr_hour_start h) \<and>
             stamp_less (hr_hour_start h) (rfc3339 until)) (db_hourly d)))))"

text \<open>The bounds of a bucket, in double precision as the source computes them.\<close>

definition bucket_size :: "nat \<Rightarrow> int \<Rightarrow> float64" where
  "bucket_size n maximum = fdiv (float_of_int (int n)) (float_of_int maximum)"

definition bucket_bound :: "nat \<Rightarrow> int \<Rightarrow> nat \<Rightarrow> int option" where
  "bucket_bound n maximum b = int_of_float (fmul (float_of_int (int b)) (bucket_size n maximum))"

definition bucket_range :: "nat \<Rightarrow> int \<Rightarrow> nat \<Rightarrow> (int \<times> int) option" where
  "bucket_range n maximum b =
     (case (bucket_bound n maximum b, bucket_bound n maximum (Suc b)) of
        (Some start, Some e) \<Rightarrow>
          (let e = (if e \<le> start then start + 1 else e) in Some (start, if int n < e then int n else e))
      | _ \<Rightarrow> None)"

text \<open>The weighted sums over a bucket.\<close>

fun bucket_sums :: "history_point list \<Rightarrow> float64 \<Rightarrow> float64 \<Rightarrow> int \<Rightarrow> float64 \<times> float64 \<times> int" where
  "bucket_sums [] cpu memory samples = (cpu, memory, samples)"
| "bucket_sums (p # ps) cpu memory samples =
     (let weight = (if hp_samples p < 1 then 1 else hp_samples p) in
      bucket_sums ps (fadd cpu (fmul (hp_cpu_percent p) (float_of_int weight)))
        (fadd memory (fmul (hp_memory_percent p) (float_of_int weight))) (samples + weight))"

text \<open>One bucket; \<open>None\<close> stands for the run-time panic of a slice or index out of range, and for a
  conversion to \<open>int\<close> whose result the language leaves open.\<close>

definition bucket_point :: "history_point list \<Rightarrow> int \<Rightarrow> nat \<Rightarrow> history_point option" where
  "bucket_point points maximum b =
     (case bucket_range (length points) maximum b of
        None \<Rightarrow> None
      | Some (start, e) \<Rightarrow>
          if start < 0 \<or> e < start \<or> int (length points) \<le> start then None
          else (case bucket_sums (take (nat (e - start)) (drop (nat start) points)) (Fin 0) (Fin 0) 0 of
              (cpu, memory, samples) \<Rightarrow>
                Some \<lparr>hp_timestamp = hp_timestamp (points ! nat start),
                      hp_cpu_percent = fdiv cpu (float_of_int samples),
                      hp_memory_percent = fdiv memory (float_of_int samples), hp_samples = samples\<rparr>))"

fun all_some :: "'a option list \<Rightarrow> 'a list option" where
  "all_some [] = Some []"
| "all_some (None # xs) = None"
| "all_some (Some x # xs) = map_option ((#) x) (all_some xs)"

definition downsample :: "history_point list \<Rightarrow> int \<Rightarrow> history_point list option" where
  "downsample points maximum =
     (if int (length points) \<le> maximum then Some points
      else all_some (map (bucket_point points maximum) [0..<nat maximum]))"

definition history :: "faults \<Rightarrow> string \<Rightarrow> gotime \<Rightarrow> duration \<Rightarrow> int \<Rightarrow> gotime \<Rightarrow> db \<Rightarrow>
    db_error + history_point list option" where
  "history fails agent since raw_retention max_points now d =
     (if max_points < 1 then Inl BadArgument
      else
        (let raw_start = time_add now (- raw_retention) in
         case (if since < raw_start
               then map_sum id (\<lambda>h. (h, raw_start)) (hourly_history fails agent since raw_start d)
               else Inr ([], since)) of
           Inl e \<Rightarrow> Inl e
         | Inr (points, since1) \<Rightarrow>
             (case raw_history fails agent since1 d of
                Inl e \<Rightarrow> Inl e
              | Inr raw \<Rightarrow> Inr (downsample (points @ raw) max_points))))"

subsection \<open>Maintenance\<close>

text \<open>SQLite's \<open>MIN\<close> and \<open>MAX\<close>.\<close>

definition fmin_list :: "float64 list \<Rightarrow> float64" where
  "fmin_list xs = foldl (\<lambda>a x. if flt x a then x else a) (hd xs) (tl xs)"

definition fmax_list :: "float64 list \<Rightarrow> float64" where
  "fmax_list xs = foldl (\<lambda>a x. if flt a x then x else a) (hd xs) (tl xs)"

definition hour_group :: "(float64 list \<Rightarrow> float64) \<Rightarrow> string \<Rightarrow> stamp \<Rightarrow> report_row list \<Rightarrow> hourly_row" where
  "hour_group avg agent h rows =
     (let cpu = map rr_cpu_percent rows; memory = map rr_memory_percent rows in
      \<lparr>hr_agent_id = agent, hr_hour_start = h, hr_cpu_avg = avg cpu, hr_cpu_min = fmin_list cpu,
       hr_cpu_max = fmax_list cpu, hr_memory_avg = avg memory, hr_memory_min = fmin_list memory,
       hr_memory_max = fmax_list memory, hr_samples = int (length rows)\<rparr>)"

definition hourly_key :: "hourly_row \<Rightarrow> string \<times> stamp" where
  "hourly_key h = (hr_agent_id h, hr_hour_start h)"

text \<open>\<open>INSERT .. ON CONFLICT DO UPDATE\<close>.\<close>

definition upsert_hourly :: "hourly_row \<Rightarrow> hourly_row list \<Rightarrow> hourly_row list" where
  "upsert_hourly h hs = (if list_ex (\<lambda>x. hourly_key x = hourly_key h) hs
     then map (\<lambda>x. if hourly_key x = hourly_key h then h else x) hs else hs @ [h])"

definition hour_groups :: "(float64 list \<Rightarrow> float64) \<Rightarrow> (stamp \<Rightarrow> stamp) \<Rightarrow> report_row list \<Rightarrow> hourly_row list" where
  "hour_groups avg hour_text rows =
     map (\<lambda>(agent, h). hour_group avg agent h
           (filter (\<lambda>r. rr_agent_id r = agent \<and> hour_text (rr_measured_at r) = h) rows))
       (remdups (map (\<lambda>r. (rr_agent_id r, hour_text (rr_measured_at r))) rows))"

definition maintain :: "faults \<Rightarrow> (float64 list \<Rightarrow> float64) \<Rightarrow> (stamp \<Rightarrow> stamp) \<Rightarrow> gotime \<Rightarrow> duration \<Rightarrow>
    duration \<Rightarrow> db \<Rightarrow> db_error option \<times> db" where
  "maintain fails avg hour_text now raw_retention aggregate_retention d =
     (let current_hour = time_truncate now hour; raw_cutoff = time_add now (- raw_retention);
          aggregate_cutoff = time_add now (- aggregate_retention);
          rows = filter (\<lambda>r. stamp_less (rr_measured_at r) (rfc3339 current_hour)) (db_reports d) in
      if fails Begin \<or> fails Aggregate \<or> fails DeleteReports \<or> fails DeleteHourly \<or> fails Commit
      then (Some DbError, d)
      else (None, d\<lparr>
        db_hourly := filter (\<lambda>h. \<not> stamp_less (hr_hour_start h) (rfc3339 aggregate_cutoff))
          (fold upsert_hourly (hour_groups avg hour_text rows) (db_hourly d)),
        db_reports := filter (\<lambda>r. \<not> stamp_less (rr_measured_at r) (rfc3339_nano raw_cutoff)) (db_reports d)\<rparr>))"

subsection \<open>Preferences\<close>

definition notification_preferences :: "faults \<Rightarrow> preferences \<Rightarrow> db \<Rightarrow> db_error + preferences" where
  "notification_preferences fails defaults d =
     (if fails SelectPreferences then Inl DbError
      else Inr (case db_preferences d of None \<Rightarrow> defaults | Some p \<Rightarrow> p))"

definition save_notification_preferences :: "faults \<Rightarrow> preferences \<Rightarrow> db \<Rightarrow> db_error option \<times> db" where
  "save_notification_preferences fails p d =
     (if fails SavePreferences then (Some DbError, d) else (None, d\<lparr>db_preferences := Some p\<rparr>))"

end
