(* ===== verification/History.thy ===== *)
theory History
  imports Report_Store
begin

text \<open>
  The thinning of the history for the charts (\<open>downsample\<close> in \<open>internal/storage/storage.go\<close>):
  the buckets computed in double precision stay inside the slice, and where they do not cover it.
\<close>

lemma eps: "pow2 (-53) = 1 / 9007199254740992"
  by (simp add: pow2_def)

text \<open>The rounded bucket size is at least 1 and close to the quotient.\<close>

lemma bucket_size_bounds:
  assumes "0 < m" "m < n" "n \<le> 2 ^ 31"
  obtains s where "bucket_size n (int m) = Fin s" "1 \<le> s" "s * of_nat m \<le> of_nat n * (1 + pow2 (-53))"
proof -
  let ?q = "of_nat n / of_nat m :: rat"
  have m: "(0::rat) < of_nat m" "of_nat m + 1 \<le> (of_nat n :: rat)"
    using assms(1,2) by (simp_all add: Suc_leI flip: of_nat_Suc)
  have n31: "(of_nat n :: rat) \<le> 2 ^ 31" using of_nat_mono [OF assms(3), where 'a = rat] by simp
  have q1: "1 + 1 / 2 ^ 31 \<le> ?q"
  proof -
    have "(of_nat m :: rat) \<le> 2 ^ 31" using m(2) n31 by linarith
    then have "of_nat m * (1 / 2 ^ 31) \<le> (1 :: rat)" by simp
    then have "of_nat m * (1 + 1 / 2 ^ 31) \<le> (of_nat n :: rat)" using m(2) by (simp add: distrib_left)
    then show ?thesis using m(1) by (simp add: pos_le_divide_eq mult.commute)
  qed
  have qn: "?q \<le> of_nat n" using assms(1) m(1) by (simp add: divide_le_eq mult_le_cancel_left1)
  have "1 \<le> ?q" by (rule order_trans [OF _ q1]) simp
  moreover have "?q \<le> 2 ^ 60" by (rule order_trans [OF qn order_trans [OF n31]]) simp
  ultimately obtain s where s: "fl ?q = Fin s" "\<bar>s - ?q\<bar> \<le> ?q * pow2 (-53)" by (rule fl_in_range)
  have lo: "?q * (1 - pow2 (-53)) \<le> s" and hi: "s \<le> ?q * (1 + pow2 (-53))"
    using s(2) by (simp_all add: abs_le_iff distrib_left right_diff_distrib)
  have "(1 + 1 / 2 ^ 31) * (1 - pow2 (-53)) \<le> ?q * (1 - pow2 (-53))"
    using q1 by (intro mult_right_mono) (simp_all add: eps)
  moreover have "1 \<le> (1 + 1 / 2 ^ 31 :: rat) * (1 - pow2 (-53))" by (simp add: eps)
  ultimately have "1 \<le> s" using lo by linarith
  moreover have "bucket_size n (int m) = Fin s"
    using s(1) assms m(1) by (simp add: bucket_size_def float_of_int_exact)
  moreover have "s * of_nat m \<le> of_nat n * (1 + pow2 (-53))"
    using mult_right_mono [OF hi, of "of_nat m"] m(1) by simp
  ultimately show ?thesis using that by blast
qed

abbreviation slack :: rat where
  "slack \<equiv> (1 + pow2 (-53)) * (1 + pow2 (-53))"

text \<open>Every bound is defined, and exceeds its exact value by two rounding errors at most.\<close>

lemma bucket_bound_upper:
  assumes "0 < m" "m < n" "n \<le> 2 ^ 31" "b \<le> m"
  obtains k where "bucket_bound n (int m) b = Some k" "0 \<le> k"
    "of_int k * of_nat m \<le> of_nat b * of_nat n * slack"
proof (cases "b = 0")
  case True
  obtain s where "bucket_size n (int m) = Fin s" by (rule bucket_size_bounds [OF assms(1-3)])
  then have "bucket_bound n (int m) b = Some 0"
    using True by (simp add: bucket_bound_def float_of_int_def fl_def)
  then show ?thesis using that [of 0] True by simp
next
  case False
  obtain s where s: "bucket_size n (int m) = Fin s" "1 \<le> s" "s * of_nat m \<le> of_nat n * (1 + pow2 (-53))"
    by (rule bucket_size_bounds [OF assms(1-3)])
  let ?p = "of_nat b * s"
  have b: "(1::rat) \<le> of_nat b" using False by simp
  have n31: "(of_nat n :: rat) \<le> 2 ^ 31" using of_nat_mono [OF assms(3), where 'a = rat] by simp
  have p1: "1 \<le> ?p" using mult_mono [OF b s(2)] b by simp
  have "?p \<le> of_nat m * s" using assms(4) s(2) by (intro mult_right_mono) simp_all
  then have pm: "?p \<le> of_nat n * (1 + pow2 (-53))" using s(3) by (simp add: mult.commute)
  then have p60: "?p \<le> 2 ^ 60" using n31 by (simp add: eps)
  obtain r where r: "fl ?p = Fin r" "\<bar>r - ?p\<bar> \<le> ?p * pow2 (-53)" by (rule fl_in_range [OF p1 p60])
  have hi: "r \<le> ?p * (1 + pow2 (-53))" and lo: "?p * (1 - pow2 (-53)) \<le> r"
    using r(2) by (simp_all add: abs_le_iff distrib_left right_diff_distrib)
  have "0 \<le> ?p * (1 - pow2 (-53))" by (rule mult_nonneg_nonneg) (use p1 in linarith, simp add: eps)
  then have r0: "0 \<le> r" using lo by linarith
  have rbig: "r \<le> 2 ^ 61" using hi p60 by (simp add: eps)
  have "\<lfloor>r\<rfloor> \<le> 2 ^ 61" using floor_mono [OF rbig] by simp
  moreover have k0: "0 \<le> \<lfloor>r\<rfloor>" using r0 by simp
  ultimately have k: "bucket_bound n (int m) b = Some \<lfloor>r\<rfloor>"
    using s(1) r(1) r0 assms(2-4) by (simp add: bucket_bound_def float_of_int_exact Let_def)
  have m: "(0::rat) \<le> of_nat m" by simp
  have "of_int \<lfloor>r\<rfloor> * of_nat m \<le> r * of_nat m" by (rule mult_right_mono) simp_all
  also have "\<dots> \<le> ?p * (1 + pow2 (-53)) * of_nat m" by (rule mult_right_mono [OF hi m])
  also have "\<dots> = of_nat b * (1 + pow2 (-53)) * (s * of_nat m)" by (simp only: ac_simps)
  also have "\<dots> \<le> of_nat b * (1 + pow2 (-53)) * (of_nat n * (1 + pow2 (-53)))"
    by (rule mult_left_mono [OF s(3)]) (simp add: eps)
  also have "\<dots> = of_nat b * of_nat n * slack" by (simp only: ac_simps)
  finally show ?thesis using that [OF k k0] by simp
qed

lemma bucket_bound_ok:
  assumes "0 < m" "m < n" "n \<le> 2 ^ 31" "b \<le> m"
  shows "\<exists>k. bucket_bound n (int m) b = Some k \<and> 0 \<le> k \<and> (b < m \<longrightarrow> k < int n)"
proof -
  obtain k where k: "bucket_bound n (int m) b = Some k" "0 \<le> k"
    "of_int k * of_nat m \<le> of_nat b * of_nat n * slack"
    by (rule bucket_bound_upper [OF assms])
  have "k < int n" if "b < m"
  proof -
    have bm: "(of_nat b :: rat) + 1 \<le> of_nat m" using of_nat_mono [of "Suc b" m, where 'a = rat] that by simp
    have "(of_nat m :: rat) \<le> 2 ^ 31"
      using of_nat_mono [of m "2 ^ 31", where 'a = rat] assms(2,3) by simp
    then have "of_nat b * (slack - 1) \<le> (2 ^ 31 :: rat) * (slack - 1)"
      using bm by (intro mult_right_mono) (simp_all add: eps)
    also have "\<dots> < 1" by (simp add: eps)
    finally have "of_nat b * slack < (of_nat m :: rat)" using bm by (simp add: right_diff_distrib)
    then have "of_nat n * (of_nat b * slack) < of_nat n * (of_nat m :: rat)"
      using assms(2) by (intro mult_strict_left_mono) simp_all
    then have "of_int k * of_nat m < of_nat n * (of_nat m :: rat)" using k(3) by (simp only: ac_simps)
    then have "(of_int k :: rat) < of_nat n" using mult_less_cancel_right_pos [of "of_nat m :: rat"] assms(1) by simp
    then show ?thesis by (metis of_int_less_iff of_int_of_nat_eq)
  qed
  then show ?thesis using k by blast
qed

lemma bucket_range_ok:
  assumes "0 < m" "m < n" "n \<le> 2 ^ 31" "b < m"
  obtains s e where "bucket_range n (int m) b = Some (s, e)" "0 \<le> s" "s < e" "e \<le> int n"
proof -
  obtain s where s: "bucket_bound n (int m) b = Some s" "0 \<le> s" "s < int n"
    using bucket_bound_ok [OF assms(1-3), of b] assms(4) by auto
  obtain e where e: "bucket_bound n (int m) (Suc b) = Some e"
    using bucket_bound_ok [OF assms(1-3), of "Suc b"] assms(4) by auto
  then show ?thesis using that s by (simp add: bucket_range_def Let_def)
qed

subsection \<open>The result of downsampling\<close>

lemma all_some_map:
  "(\<And>x. x \<in> set xs \<Longrightarrow> \<exists>y. f x = Some y \<and> P y) \<Longrightarrow>
    \<exists>ys. all_some (map f xs) = Some ys \<and> length ys = length xs \<and> list_all P ys"
proof (induction xs)
  case (Cons x xs)
  obtain y where "f x = Some y" "P y" using Cons.prems by force
  moreover obtain ys where "all_some (map f xs) = Some ys" "length ys = length xs" "list_all P ys"
    using Cons by force
  ultimately show ?case by simp
qed simp

lemma bucket_sums_samples:
  "snd (snd (bucket_sums ps cpu memory samples)) = samples + sum_list (map (\<lambda>p. max 1 (hp_samples p)) ps)"
  by (induction ps arbitrary: cpu memory samples) (auto simp: Let_def)

lemma sum_list_ge_length: "int (length ps) \<le> sum_list (map (\<lambda>p. max 1 (hp_samples p)) ps)"
  by (induction ps) auto

lemma bucket_point_ok:
  assumes "0 < m" "m < length points" "length points \<le> 2 ^ 31" "b < m"
  shows "\<exists>p. bucket_point points (int m) b = Some p \<and> 1 \<le> hp_samples p \<and>
    hp_timestamp p \<in> hp_timestamp ` set points"
proof -
  obtain s e where r: "bucket_range (length points) (int m) b = Some (s, e)" "0 \<le> s" "s < e"
      "e \<le> int (length points)"
    by (rule bucket_range_ok [OF assms])
  let ?ps = "take (nat (e - s)) (drop (nat s) points)"
  have "1 \<le> int (length ?ps)" using r by simp
  then have "1 \<le> sum_list (map (\<lambda>p. max 1 (hp_samples p)) ?ps)" using sum_list_ge_length [of ?ps] by linarith
  moreover obtain c mem where "bucket_sums ?ps (Fin 0) (Fin 0) 0 =
      (c, mem, sum_list (map (\<lambda>p. max 1 (hp_samples p)) ?ps))"
    using bucket_sums_samples [of ?ps "Fin 0" "Fin 0" 0] by (metis add_0 prod.collapse)
  moreover have "points ! nat s \<in> set points" using r by simp
  ultimately show ?thesis using r by (simp add: bucket_point_def)
qed


lemma fl_eq_rnd_pos: "1 \<le> q \<Longrightarrow> q \<le> 2 ^ 60 \<Longrightarrow> fl q = Fin (rnd_pos q)"
proof -
  assume q: "1 \<le> q" "q \<le> 2 ^ 60"
  then obtain r where "fl q = Fin r" by (rule fl_in_range)
  then show ?thesis using q(1) by (simp add: fl_def Let_def split: if_splits)
qed

lemma bucket_737:
  assumes "b < 720"
  obtains s e where "bucket_range 737 720 b = Some (s, e)" "0 \<le> s" "s < 736" "e \<le> 736" "s < e"
proof -
  have low: "\<exists>k. bucket_bound 737 720 c = Some k \<and> 0 \<le> k \<and> k < 736" if "c < 720" for c
  proof -
    have le: "(720::nat) < 737" "(737::nat) \<le> 2 ^ 31" "c \<le> 720" using that by simp_all
    obtain k where k: "bucket_bound 737 720 c = Some k" "0 \<le> k"
        "of_int k * of_nat 720 \<le> of_nat c * of_nat 737 * slack"
      using bucket_bound_upper [of 720 737 c] le by auto
    have "(of_nat c :: rat) \<le> 719" using of_nat_mono [of c 719, where 'a = rat] that by simp
    then have "of_nat c * 737 * slack \<le> 719 * 737 * slack"
      by (intro mult_right_mono) (simp_all add: eps)
    also have "\<dots> < 736 * 720" by (simp add: eps)
    finally have "(of_int k :: rat) < 736" using k(3) by simp
    then show ?thesis using k by (metis of_int_less_numeral_iff)
  qed
  have top: "bucket_bound 737 720 720 = Some 736"
  proof -
    have r: "\<lfloor>rnd_pos (720 * rnd_pos (737 / 720))\<rfloor> = 736" by code_simp
    have p: "1 \<le> 720 * rnd_pos (737 / 720)" "720 * rnd_pos (737 / 720) \<le> 2 ^ 60" by code_simp+
    show ?thesis using r p rnd_pos_nonneg [of "720 * rnd_pos (737 / 720)"]
      by (simp add: bucket_bound_def bucket_size_def float_of_int_exact fl_eq_rnd_pos Let_def)
  qed
  obtain s where s: "bucket_bound 737 720 b = Some s" "0 \<le> s" "s < 736" using low [OF assms] by blast
  obtain e where e: "bucket_bound 737 720 (Suc b) = Some e" "e \<le> 736"
  proof (cases "Suc b < 720")
    case True
    then show ?thesis using low [of "Suc b"] that by force
  next
    case False
    then have "Suc b = 720" using assms by simp
    then show ?thesis using that [of 736] top by simp
  qed
  show ?thesis using that s e by (simp add: bucket_range_def Let_def)
qed

subsection \<open>Properties\<close>

text \<open>C38. Thinning is total and bounded: for any positive maximum and up to two thousand million
  points no index of the double-precision bucket arithmetic leaves the slice, the result has at most
  the maximum number of points (exactly the maximum when it thins), and each of them stands for at
  least one sample and carries the time of a point.\<close>

theorem downsample_bounded:
  assumes "0 < maximum" and "length points \<le> 2 ^ 31"
  shows "\<exists>ps. downsample points (int maximum) = Some ps \<and> length ps = min maximum (length points) \<and>
    (maximum < length points \<longrightarrow>
      list_all (\<lambda>p. 1 \<le> hp_samples p \<and> hp_timestamp p \<in> hp_timestamp ` set points) ps)"
proof (cases "maximum < length points")
  case True
  have "\<exists>p. bucket_point points (int maximum) b = Some p \<and>
      (1 \<le> hp_samples p \<and> hp_timestamp p \<in> hp_timestamp ` set points)" if "b \<in> set [0..<maximum]" for b
    using bucket_point_ok [OF assms(1) True assms(2)] that by simp
  from all_some_map [of "[0..<maximum]" "bucket_point points (int maximum)", OF this]
  obtain ps where "all_some (map (bucket_point points (int maximum)) [0..<maximum]) = Some ps"
      "length ps = maximum" "list_all (\<lambda>p. 1 \<le> hp_samples p \<and> hp_timestamp p \<in> hp_timestamp ` set points) ps"
    by auto
  then show ?thesis using True by (simp add: downsample_def)
next
  case False
  then show ?thesis by (simp add: downsample_def)
qed

definition demo_points :: "history_point list" where
  "demo_points = map (\<lambda>n. \<lparr>hp_timestamp = int n, hp_cpu_percent = Fin (of_nat n),
     hp_memory_percent = Fin 50, hp_samples = 1\<rparr>) [0..<61]"

theorem downsample_bounded_witness:
  "\<exists>ps. downsample demo_points 7 = Some ps \<and> length ps = 7"
  using downsample_bounded [of 7 demo_points] by (auto simp: demo_points_def)

text \<open>The buckets need not reach the end: the last bound is computed as \<open>720 * (737 / 720)\<close> in double
  precision, which is a little less than 737, so the charts' default of 720 points never shows the
  newest of 737 measurements.\<close>

theorem downsample_loses_newest:
  assumes "length points = 736"
  shows "downsample (points @ [last_point]) 720 = downsample (points @ [other_point]) 720"
proof -
  have "bucket_point (points @ [last_point]) 720 b = bucket_point (points @ [other_point]) 720 b" if b: "b < 720" for b
  proof -
    obtain s e where r: "bucket_range 737 720 b = Some (s, e)" "0 \<le> s" "s < 736" "e \<le> 736" "s < e"
      by (rule bucket_737 [OF b])
    have "take (nat (e - s)) (drop (nat s) (points @ [x])) = take (nat (e - s)) (drop (nat s) points)" for x
      using r assms by simp
    moreover have "(points @ [x]) ! nat s = points ! nat s" for x
      using r assms by (simp add: nth_append)
    ultimately show ?thesis using r assms by (simp add: bucket_point_def)
  qed
  then have "map (bucket_point (points @ [last_point]) 720) [0..<720] =
      map (bucket_point (points @ [other_point]) 720) [0..<720]"
    by (intro map_cong) auto
  then show ?thesis using assms by (simp add: downsample_def del: map_eq_conv)
qed

theorem downsample_loses_newest_witness:
  "downsample (replicate 736 (hd demo_points) @ [demo_points ! 1]) 720 =
   downsample (replicate 736 (hd demo_points) @ [demo_points ! 2]) 720"
  by (rule downsample_loses_newest) simp

end
