(* ===== verification/Token.thy ===== *)
theory Token
  imports GoText
begin

text \<open>
  Agent tokens (\<open>internal/auth/token.go\<close>): the stored form of a token's Argon2id hash, and the
  check of a token against it.  Argon2 itself (\<open>golang.org/x/crypto/argon2\<close>, with the source's
  cost parameters) is the argument \<open>idkey token salt\<close>, whose results have the 32 bytes asked for.
  The standard library's unpadded base64 and \<open>strings.Split\<close> are written out.
\<close>

subsection \<open>Base64 without padding\<close>

definition b64_alphabet :: string where
  "b64_alphabet = ''ABCDEFGHIJKLMNOPQRSTUVWXYZabcdefghijklmnopqrstuvwxyz0123456789+/''"

definition b64_char :: "nat \<Rightarrow> char" where
  "b64_char n = b64_alphabet ! n"

definition b64_value :: "char \<Rightarrow> nat option" where
  "b64_value c = index_byte b64_alphabet c"

fun base64_encode :: "string \<Rightarrow> string" where
  "base64_encode [] = []"
| "base64_encode [a] = [b64_char (code a div 4), b64_char (code a mod 4 * 16)]"
| "base64_encode [a, b] = [b64_char (code a div 4), b64_char (code a mod 4 * 16 + code b div 16),
     b64_char (code b mod 16 * 4)]"
| "base64_encode (a # b # c # rest) = [b64_char (code a div 4), b64_char (code a mod 4 * 16 + code b div 16),
     b64_char (code b mod 16 * 4 + code c div 64), b64_char (code c mod 64)] @ base64_encode rest"

text \<open>Decoding skips line ends; unused low bits of the last character are not checked.\<close>

fun b64_quads :: "nat list \<Rightarrow> string option" where
  "b64_quads [] = Some []"
| "b64_quads [p] = None"
| "b64_quads [p, q] = Some [char_of (p * 4 + q div 16)]"
| "b64_quads [p, q, r] = Some [char_of (p * 4 + q div 16), char_of (q mod 16 * 16 + r div 4)]"
| "b64_quads (p # q # r # s # rest) =
     map_option (\<lambda>bs. [char_of (p * 4 + q div 16), char_of (q mod 16 * 16 + r div 4),
       char_of (r mod 4 * 64 + s)] @ bs) (b64_quads rest)"

fun b64_values :: "string \<Rightarrow> nat list option" where
  "b64_values [] = Some []"
| "b64_values (c # cs) = (case b64_value c of None \<Rightarrow> None | Some v \<Rightarrow> map_option ((#) v) (b64_values cs))"

definition base64_decode :: "string \<Rightarrow> string option" where
  "base64_decode s = (case b64_values (filter (\<lambda>c. c \<noteq> CHR 0x0A \<and> c \<noteq> CHR 0x0D) s) of
     None \<Rightarrow> None | Some vs \<Rightarrow> b64_quads vs)"

lemma b64_all: "list_all (\<lambda>n. b64_value (b64_char n) = Some n \<and> b64_char n \<noteq> CHR 0x0A \<and>
    b64_char n \<noteq> CHR 0x0D \<and> b64_char n \<noteq> CHR ''$'') [0..<64]"
  by code_simp

lemma b64_value_char: "n < 64 \<Longrightarrow> b64_value (b64_char n) = Some n"
  "n < 64 \<Longrightarrow> b64_char n \<noteq> CHR 0x0A" "n < 64 \<Longrightarrow> b64_char n \<noteq> CHR 0x0D" "n < 64 \<Longrightarrow> b64_char n \<noteq> CHR ''$''"
  using b64_all by (auto simp: list_all_iff)

lemma code_lt: "code c < 256"
  by (simp add: code_def)

lemma char_of_code: "char_of (code c) = c"
  by (simp add: code_def)

text \<open>The four 6-bit groups of three bytes, and back.\<close>

lemma b64_groups:
  fixes a b c :: nat
  assumes "a < 256" "b < 256" "c < 256"
  shows "a div 4 < 64" "a mod 4 * 16 < 64" "a mod 4 * 16 + b div 16 < 64"
    "b mod 16 * 4 < 64" "b mod 16 * 4 + c div 64 < 64" "c mod 64 < 64"
    "a div 4 * 4 + a mod 4 * 16 div 16 = a" "a div 4 * 4 + (a mod 4 * 16 + b div 16) div 16 = a"
    "(a mod 4 * 16 + b div 16) mod 16 * 16 + b mod 16 * 4 div 4 = b"
    "(a mod 4 * 16 + b div 16) mod 16 * 16 + (b mod 16 * 4 + c div 64) div 4 = b"
    "(b mod 16 * 4 + c div 64) mod 4 * 64 + c mod 64 = c"
  using assms by (simp_all; presburger)+

lemma b64_round:
  "\<exists>vs. b64_values (base64_encode s) = Some vs \<and> b64_quads vs = Some s \<and>
    list_all (\<lambda>c. c \<noteq> CHR 0x0A \<and> c \<noteq> CHR 0x0D \<and> c \<noteq> CHR ''$'') (base64_encode s)"
proof (induction s rule: base64_encode.induct)
  case 1
  then show ?case by simp
next
  case (2 a)
  show ?case using b64_groups [OF code_lt [of a] code_lt code_lt] by (simp add: b64_value_char char_of_code)
next
  case (3 a b)
  show ?case using b64_groups [OF code_lt [of a] code_lt [of b] code_lt] by (simp add: b64_value_char char_of_code)
next
  case (4 a b c rest)
  then show ?case using b64_groups [OF code_lt [of a] code_lt [of b] code_lt [of c]]
    by (auto simp: b64_value_char char_of_code)
qed

lemma base64_round: "base64_decode (base64_encode s) = Some s"
proof -
  obtain vs where vs: "b64_values (base64_encode s) = Some vs" "b64_quads vs = Some s"
      "list_all (\<lambda>c. c \<noteq> CHR 0x0A \<and> c \<noteq> CHR 0x0D \<and> c \<noteq> CHR ''$'') (base64_encode s)"
    using b64_round by blast
  have "filter (\<lambda>c. c \<noteq> CHR 0x0A \<and> c \<noteq> CHR 0x0D) (base64_encode s) = base64_encode s"
    using vs(3) by (auto simp: filter_id_conv list_all_iff)
  then show ?thesis using vs by (simp add: base64_decode_def)
qed

lemma base64_no_dollar: "CHR ''$'' \<notin> set (base64_encode s)"
  using b64_round [of s] by (auto simp: list_all_iff)

subsection \<open>Splitting\<close>

text \<open>\<open>strings.Split\<close> with a separator of one byte.\<close>

fun split_byte :: "char \<Rightarrow> string \<Rightarrow> string list" where
  "split_byte b [] = [[]]"
| "split_byte b (c # cs) =
     (if c = b then [] # split_byte b cs
      else (case split_byte b cs of [] \<Rightarrow> [[c]] | p # ps \<Rightarrow> (c # p) # ps))"

lemma split_byte_none: "b \<notin> set s \<Longrightarrow> split_byte b s = [s]"
  by (induction s) auto

lemma split_byte_append: "b \<notin> set s \<Longrightarrow> split_byte b (s @ b # t) = s # split_byte b t"
  by (induction s) auto

subsection \<open>The token hash\<close>

definition argon_parameters :: string where
  "argon_parameters = ''m=32768,t=2,p=1''"

definition parse_token_hash :: "string \<Rightarrow> (string \<times> string) option" where
  "parse_token_hash encoded =
     (let parts = split_byte CHR ''$'' encoded in
      if length parts \<noteq> 6 \<or> parts ! 1 \<noteq> ''argon2id'' \<or> parts ! 2 \<noteq> ''v=19'' \<or>
         parts ! 3 \<noteq> argon_parameters then None
      else case base64_decode (parts ! 4) of
          None \<Rightarrow> None
        | Some salt \<Rightarrow>
            if length salt \<noteq> 16 then None
            else (case base64_decode (parts ! 5) of
                None \<Rightarrow> None
              | Some expected \<Rightarrow> if length expected \<noteq> 32 then None else Some (salt, expected)))"

definition valid_token_hash :: "string \<Rightarrow> bool" where
  "valid_token_hash encoded \<longleftrightarrow> parse_token_hash encoded \<noteq> None"

definition verify_token :: "(string \<Rightarrow> string \<Rightarrow> string) \<Rightarrow> string \<Rightarrow> string \<Rightarrow> bool" where
  "verify_token idkey token encoded =
     (case parse_token_hash encoded of None \<Rightarrow> False
      | Some (salt, expected) \<Rightarrow> idkey token salt = expected)"

datatype token_error = TokenTooShort | NoSalt

text \<open>\<open>HashToken\<close>, with the random salt (\<open>None\<close> when there is none).\<close>

definition hash_token :: "(string \<Rightarrow> string \<Rightarrow> string) \<Rightarrow> string option \<Rightarrow> string \<Rightarrow> token_error + string" where
  "hash_token idkey random_salt token =
     (if length token < 32 then Inl TokenTooShort
      else case random_salt of
          None \<Rightarrow> Inl NoSalt
        | Some salt \<Rightarrow> Inr (''$argon2id$v=19$'' @ argon_parameters @ ''$'' @ base64_encode salt @ ''$'' @
            base64_encode (idkey token salt)))"

lemma parse_encoded:
  "length salt = 16 \<Longrightarrow> length h = 32 \<Longrightarrow>
    parse_token_hash (''$argon2id$v=19$'' @ argon_parameters @ ''$'' @ base64_encode salt @ ''$'' @
      base64_encode h) = Some (salt, h)"
  by (simp add: parse_token_hash_def argon_parameters_def split_byte_append base64_no_dollar
      split_byte_none base64_round Let_def)

subsection \<open>Property\<close>

text \<open>C25. A stored hash accepts its token and nothing with another hash: what \<open>HashToken\<close> writes is a
  valid token hash, reading it gives back salt and key, and \<open>VerifyToken\<close> answers yes for exactly
  the tokens whose Argon2 key under that salt is the stored one.\<close>

theorem token_hash_round_trip:
  assumes "hash_token idkey (Some salt) token = Inr encoded" and "length salt = 16"
    and "\<And>t s. length (idkey t s) = 32"
  shows "valid_token_hash encoded \<and> parse_token_hash encoded = Some (salt, idkey token salt) \<and>
    verify_token idkey token encoded \<and>
    (verify_token idkey other encoded \<longleftrightarrow> idkey other salt = idkey token salt)"
proof -
  have "parse_token_hash encoded = Some (salt, idkey token salt)"
    using assms parse_encoded [OF assms(2), of "idkey token salt"]
    by (auto simp: hash_token_def split: if_splits)
  then show ?thesis by (simp add: valid_token_hash_def verify_token_def)
qed

text \<open>A stand-in for Argon2 that takes the first 32 bytes of the token.\<close>

definition demo_idkey :: "string \<Rightarrow> string \<Rightarrow> string" where
  "demo_idkey t s = take 32 (t @ replicate 32 CHR ''x'')"

theorem token_hash_round_trip_witness:
  "valid_token_hash (''$argon2id$v=19$'' @ argon_parameters @ ''$'' @ base64_encode (replicate 16 CHR ''s'') @ ''$'' @
     base64_encode (replicate 32 CHR ''a''))"
  using token_hash_round_trip [of demo_idkey "replicate 16 CHR ''s''" "replicate 32 CHR ''a''"]
  by (simp add: hash_token_def demo_idkey_def)

end
