(* ===== verification/Config.thy ===== *)
theory Config
  imports Report Token
begin

text \<open>
  The configuration of agent and server (\<open>internal/config/config.go\<close>).  Reading and decoding the YAML
  file into the defaults is the argument \<open>yaml\<close>; the environment is \<open>getenv\<close> (an unset variable reads
  as the empty string); the parsers of URLs, IP addresses, networks and mail addresses, Unicode
  case folding and bcrypt are the fields of \<open>go_lib\<close>.
\<close>

subsection \<open>The libraries\<close>

text \<open>An IP address is its bytes (4 or 16); a network its number and mask.  \<open>gl_parse_ip\<close> answers in
  the 16-byte form, as \<open>net.ParseIP\<close> does.\<close>

record go_lib =
  gl_request_uri :: url_parser
  gl_url :: url_parser
  gl_parse_ip :: "string \<Rightarrow> nat list option"
  gl_parse_cidr :: "string \<Rightarrow> (nat list \<times> nat list) option"
  gl_mail_address :: "string \<Rightarrow> string option"
  gl_equal_fold :: "string \<Rightarrow> string \<Rightarrow> bool"
  gl_bcrypt_ok :: "string \<Rightarrow> bool"
  gl_bcrypt_match :: "string \<Rightarrow> string \<Rightarrow> bool"

text \<open>\<open>strconv.Atoi\<close>: an optional sign and decimal digits, within 64 bits.\<close>

definition atoi :: "string \<Rightarrow> int option" where
  "atoi s =
     (let neg = (s \<noteq> [] \<and> hd s = CHR ''-'');
          digits = (if s \<noteq> [] \<and> (hd s = CHR ''-'' \<or> hd s = CHR ''+'') then tl s else s) in
      if digits = [] then None
      else (case dec_val 0 digits of None \<Rightarrow> None
        | Some n \<Rightarrow>
            (let k = (if neg then - int n else int n) in
             if - (2 ^ 63) \<le> k \<and> k < 2 ^ 63 then Some k else None)))"

text \<open>\<open>strconv.ParseBool\<close>.\<close>

definition parse_bool :: "string \<Rightarrow> bool option" where
  "parse_bool s =
     (if s \<in> set [''1'', ''t'', ''T'', ''true'', ''TRUE'', ''True''] then Some True
      else if s \<in> set [''0'', ''f'', ''F'', ''false'', ''FALSE'', ''False''] then Some False else None)"

definition is_abs :: "string \<Rightarrow> bool" where
  "is_abs path = has_prefix path ''/''"

definition contains_any :: "string \<Rightarrow> string \<Rightarrow> bool" where
  "contains_any s chars = list_ex (\<lambda>c. c \<in> set chars) s"

subsection \<open>time.ParseDuration\<close>

text \<open>Digits up to \<open>2 ^ 63\<close>, with the rest of the text; \<open>None\<close> on overflow.\<close>

fun leading_int :: "nat \<Rightarrow> string \<Rightarrow> (nat \<times> string) option" where
  "leading_int x [] = Some (x, [])"
| "leading_int x (c # cs) =
     (if \<not> is_digit c then Some (x, c # cs)
      else if 2 ^ 63 div 10 < x then None
      else (let y = 10 * x + (code c - 48) in if 2 ^ 63 < y then None else leading_int y cs))"

text \<open>Digits after the point: value, scale and rest; digits that do not fit are skipped.\<close>

fun leading_fraction :: "nat \<Rightarrow> float64 \<Rightarrow> bool \<Rightarrow> string \<Rightarrow> nat \<times> float64 \<times> string" where
  "leading_fraction x scale overflow [] = (x, scale, [])"
| "leading_fraction x scale overflow (c # cs) =
     (if \<not> is_digit c then (x, scale, c # cs)
      else if overflow \<or> (2 ^ 63 - 1) div 10 < x then leading_fraction x scale True cs
      else (let y = 10 * x + (code c - 48) in
            if 2 ^ 63 < y then leading_fraction x scale True cs
            else leading_fraction y (fmul scale (Fin 10)) False cs))"

definition duration_unit :: "string \<Rightarrow> nat option" where
  "duration_unit u = map_of [(''ns'', 1), (''us'', 1000), ([CHR 0xC2, CHR 0xB5, CHR ''s''], 1000),
     ([CHR 0xCE, CHR 0xBC, CHR ''s''], 1000), (''ms'', 1000000), (''s'', 1000000000),
     (''m'', 60000000000), (''h'', 3600000000000)] u"

lemma leading_int_shorter: "leading_int x s = Some (v, r) \<Longrightarrow> length r \<le> length s"
  by (induction x s rule: leading_int.induct) (auto simp: Let_def split: if_splits)

lemma leading_fraction_shorter: "leading_fraction x sc ov s = (f, sc', r) \<Longrightarrow> length r \<le> length s"
proof (induction s arbitrary: x sc ov)
  case (Cons c cs)
  then show ?case by (fastforce simp: Let_def le_Suc_eq split: if_splits)
qed simp

text \<open>One number with its unit: its nanoseconds and the rest of the text.\<close>

definition duration_item :: "string \<Rightarrow> (nat \<times> string) option" where
  "duration_item s =
     (if s = [] \<or> \<not> (hd s = CHR ''.'' \<or> is_digit (hd s)) then None
      else case leading_int 0 s of
          None \<Rightarrow> None
        | Some (v, s1) \<Rightarrow>
            (let dot = (s1 \<noteq> [] \<and> hd s1 = CHR ''.'');
                 (f, scale, s2) = (if dot then leading_fraction 0 (Fin 1) False (tl s1) else (0, Fin 1, s1));
                 pre = (length s1 \<noteq> length s); post = (dot \<and> length s2 \<noteq> length (tl s1));
                 u = takeWhile (\<lambda>c. \<not> (c = CHR ''.'' \<or> is_digit c)) s2;
                 s3 = drop (length u) s2 in
             if \<not> pre \<and> \<not> post \<or> u = [] then None
             else case duration_unit u of
                 None \<Rightarrow> None
               | Some k \<Rightarrow>
                   if 2 ^ 63 div k < v then None
                   else
                     (let extra = (if f = 0 then 0 else
                            case int_of_float (fmul (float_of_int (int f)) (fdiv (float_of_int (int k)) scale)) of
                              None \<Rightarrow> 0 | Some n \<Rightarrow> nat n);
                          total = v * k + extra in
                      if f \<noteq> 0 \<and> 2 ^ 63 < total then None else Some (total, s3))))"

lemma duration_item_shorter: "duration_item s = Some (v, r) \<Longrightarrow> length r < length s"
proof -
  assume d: "duration_item s = Some (v, r)"
  obtain w s1 where i: "leading_int 0 s = Some (w, s1)"
    using d by (auto simp: duration_item_def split: if_splits option.splits)
  define dot where "dot = (s1 \<noteq> [] \<and> hd s1 = CHR ''.'')"
  obtain f scale s2 where f: "(if dot then leading_fraction 0 (Fin 1) False (tl s1) else (0, Fin 1, s1)) = (f, scale, s2)"
    by (metis prod_cases3)
  define u where "u = takeWhile (\<lambda>c. \<not> (c = CHR ''.'' \<or> is_digit c)) s2"
  have r: "r = drop (length u) s2" "u \<noteq> []"
    using d unfolding duration_item_def i u_def
    by (auto simp: f [unfolded dot_def] Let_def split: if_splits option.splits)
  then have "length r < length s2" using r(2) by (cases s2) (auto simp: u_def)
  moreover have "length s2 \<le> length s1"
    using f leading_fraction_shorter [of 0 "Fin 1" False "tl s1" f scale s2] by (cases dot) auto
  ultimately show ?thesis using leading_int_shorter [OF i] by simp
qed

function duration_items :: "nat \<Rightarrow> string \<Rightarrow> nat option" where
  "duration_items d s =
     (if s = [] then Some d
      else case duration_item s of
          None \<Rightarrow> None
        | Some (v, r) \<Rightarrow>
            (let d1 = (d + v) mod 2 ^ 64 in if 2 ^ 63 < d1 then None else duration_items d1 r))"
  by pat_completeness auto
termination
  by (relation "measure (\<lambda>(_, s). length s)") (auto dest: duration_item_shorter)

declare duration_items.simps [simp del]

definition parse_duration :: "string \<Rightarrow> duration option" where
  "parse_duration text =
     (let neg = (text \<noteq> [] \<and> hd text = CHR ''-'');
          s = (if text \<noteq> [] \<and> (hd text = CHR ''-'' \<or> hd text = CHR ''+'') then tl text else text) in
      if s = ''0'' then Some 0
      else if s = [] then None
      else (case duration_items 0 s of
              None \<Rightarrow> None
            | Some d \<Rightarrow> if neg then Some (- int d) else if 2 ^ 63 - 1 < d then None else Some (int d)))"

lemma parse_duration_examples:
  "parse_duration ''10s'' = Some (10 * second)" "parse_duration ''1h30m'' = Some (90 * minute)"
  "parse_duration ''5'' = None" "parse_duration ''-2ms'' = Some (- 2000000)" "parse_duration [] = None"
  by (simp_all add: parse_duration_def duration_items.simps duration_item_def is_digit_def code_def
      duration_unit_def duration_defs Let_def)


subsection \<open>The agent's configuration\<close>

record docker_checks =
  dc_enabled :: bool
  dc_socket :: string
  dc_timeout :: duration

record http_check =
  hc_name :: string
  hc_url :: string
  hc_timeout :: duration

record tcp_check =
  tc_name :: string
  tc_address :: string
  tc_timeout :: duration

record agent_config =
  ac_agent_id :: string
  ac_server_url :: string
  ac_token :: string
  ac_interval :: duration
  ac_request_timeout :: duration
  ac_queue_size :: int
  ac_state_file :: string
  ac_spool_directory :: string
  ac_proc_root :: string
  ac_sys_root :: string
  ac_host_root :: string
  ac_mountinfo_path :: string
  ac_include_fs_types :: "string list"
  ac_insecure_dev_http :: bool
  ac_systemd_services :: "string list"
  ac_docker :: docker_checks
  ac_http_checks :: "http_check list"
  ac_tcp_checks :: "tcp_check list"

datatype config_error =
    CfgYaml | CfgDuration | CfgInterval | CfgMissing | CfgAgentId | CfgServerUrl | CfgHttps
  | CfgToken | CfgQueueSize | CfgPaths | CfgRequestTimeout | CfgTooManyChecks | CfgService
  | CfgDuplicate | CfgDocker | CfgCheckTimeout | CfgCheckName | CfgCheckUrl | CfgCheckAddress
  | CfgBool | CfgSecrets | CfgBcrypt | CfgListen | CfgListenHost | CfgDatabasePath | CfgPublicUrl
  | CfgSecureCookies | CfgTrustedProxy | CfgAgentToken | CfgSessionTimeouts | CfgCpu | CfgMemory
  | CfgHighUsage | CfgDisk | CfgOffline | CfgCooldown | CfgFailureCount | CfgTls | CfgSkew
  | CfgReportAge | CfgRawRetention | CfgAggregateRetention | CfgMaintenance | CfgSmtpAddress
  | CfgSmtpLineBreak | CfgSmtpBareAddress | CfgSmtpPassword

definition set_string :: "string \<Rightarrow> string \<Rightarrow> string" where
  "set_string value target = (if value \<noteq> [] then value else target)"

definition set_duration :: "string \<Rightarrow> duration \<Rightarrow> config_error + duration" where
  "set_duration value target =
     (if value \<noteq> [] then (case parse_duration value of None \<Rightarrow> Inl CfgDuration | Some d \<Rightarrow> Inr d)
      else Inr target)"

definition agent_id_char :: "char \<Rightarrow> bool" where
  "agent_id_char r \<longleftrightarrow> r = CHR ''-'' \<or> r = CHR ''_'' \<or> r = CHR ''.'' \<or>
     (CHR ''a'' \<le> r \<and> r \<le> CHR ''z'') \<or> (CHR ''A'' \<le> r \<and> r \<le> CHR ''Z'') \<or>
     (CHR ''0'' \<le> r \<and> r \<le> CHR ''9'')"

definition valid_agent_id :: "string \<Rightarrow> bool" where
  "valid_agent_id value \<longleftrightarrow> value \<noteq> [] \<and> length value \<le> 128 \<and> list_all agent_id_char value"

text \<open>\<open>config.validCheckName\<close> accepts the same names as the model's.\<close>

definition valid_check_timeout :: "duration \<Rightarrow> bool" where
  "valid_check_timeout value \<longleftrightarrow> 0 < value \<and> value \<le> minute"

text \<open>A URL that is just an origin.\<close>

definition origin_url :: "url \<Rightarrow> bool" where
  "origin_url u \<longleftrightarrow> url_host u \<noteq> [] \<and> \<not> url_user u \<and> url_raw_query u = [] \<and> url_fragment u = [] \<and>
     (url_path u = [] \<or> url_path u = ''/'')"

definition default_timeout :: "duration \<Rightarrow> duration" where
  "default_timeout d = (if d = 0 then 3 * second else d)"

text \<open>The loops over the checks: each name must be valid and not seen before, then the check's own
  tests follow; \<open>seen\<close> is the source's map.\<close>

fun check_each :: "('a \<Rightarrow> string) \<Rightarrow> ('a \<Rightarrow> config_error option) \<Rightarrow> ('a \<Rightarrow> config_error option) \<Rightarrow>
    'a list \<Rightarrow> string list \<Rightarrow> config_error + string list" where
  "check_each key before after [] seen = Inr seen"
| "check_each key before after (x # xs) seen =
     (case before x of
        Some e \<Rightarrow> Inl e
      | None \<Rightarrow>
          if key x \<in> set seen then Inl CfgDuplicate
          else (case after x of Some e \<Rightarrow> Inl e | None \<Rightarrow> check_each key before after xs (key x # seen)))"

definition check_services :: "string list \<Rightarrow> string list \<Rightarrow> config_error + string list" where
  "check_services = check_each (\<lambda>s. ''systemd:'' @ s)
     (\<lambda>s. fail_if (\<not> valid_check_name s \<or> \<not> has_suffix s ''.service'') CfgService) (\<lambda>_. None)"

definition check_http_checks :: "go_lib \<Rightarrow> http_check list \<Rightarrow> string list \<Rightarrow> config_error + string list" where
  "check_http_checks lib = check_each (\<lambda>c. ''http:'' @ hc_name c)
     (\<lambda>c. fail_if (\<not> valid_check_name (hc_name c)) CfgCheckName)
     (\<lambda>c. first_some
        [(case gl_request_uri lib (hc_url c) of None \<Rightarrow> Some CfgCheckUrl
          | Some u \<Rightarrow> fail_if (url_host u = [] \<or> (url_scheme u \<noteq> ''http'' \<and> url_scheme u \<noteq> ''https'') \<or> url_user u)
              CfgCheckUrl),
         fail_if (\<not> valid_check_timeout (hc_timeout c)) CfgCheckTimeout])"

definition check_tcp_checks :: "tcp_check list \<Rightarrow> string list \<Rightarrow> config_error + string list" where
  "check_tcp_checks = check_each (\<lambda>c. ''tcp:'' @ tc_name c)
     (\<lambda>c. fail_if (\<not> valid_check_name (tc_name c)) CfgCheckName)
     (\<lambda>c. first_some [fail_if (split_host_port (tc_address c) = None) CfgCheckAddress,
        fail_if (\<not> valid_check_timeout (tc_timeout c)) CfgCheckTimeout])"

definition agent_defaults :: agent_config where
  "agent_defaults = \<lparr>ac_agent_id = [], ac_server_url = [], ac_token = [], ac_interval = 10 * second,
     ac_request_timeout = 5 * second, ac_queue_size = 60,
     ac_state_file = ''/var/lib/monitorozo-agent/sequence'',
     ac_spool_directory = ''/var/lib/monitorozo-agent/spool'', ac_proc_root = ''/proc'',
     ac_sys_root = ''/sys'', ac_host_root = ''/'', ac_mountinfo_path = ''/proc/self/mountinfo'',
     ac_include_fs_types = [], ac_insecure_dev_http = False, ac_systemd_services = [],
     ac_docker = \<lparr>dc_enabled = False, dc_socket = ''/var/run/docker.sock'', dc_timeout = 3 * second\<rparr>,
     ac_http_checks = [], ac_tcp_checks = []\<rparr>"

definition agent_overrides :: "(string \<Rightarrow> string) \<Rightarrow> agent_config \<Rightarrow> agent_config" where
  "agent_overrides getenv c = c\<lparr>
     ac_agent_id := set_string (getenv ''MONITOROZO_AGENT_ID'') (ac_agent_id c),
     ac_server_url := set_string (getenv ''MONITOROZO_SERVER_URL'') (ac_server_url c),
     ac_token := set_string (getenv ''MONITOROZO_AGENT_TOKEN'') (ac_token c),
     ac_proc_root := set_string (getenv ''MONITOROZO_PROC_ROOT'') (ac_proc_root c),
     ac_sys_root := set_string (getenv ''MONITOROZO_SYS_ROOT'') (ac_sys_root c),
     ac_host_root := set_string (getenv ''MONITOROZO_HOST_ROOT'') (ac_host_root c),
     ac_mountinfo_path := set_string (getenv ''MONITOROZO_MOUNTINFO_PATH'') (ac_mountinfo_path c)\<rparr>"

text \<open>The tests from the interval to the number of checks.\<close>

definition agent_settings_error :: "go_lib \<Rightarrow> agent_config \<Rightarrow> config_error option" where
  "agent_settings_error lib c = first_some
     [fail_if (ac_interval c < 5 * second) CfgInterval,
      fail_if (ac_agent_id c = [] \<or> ac_server_url c = [] \<or> ac_token c = []) CfgMissing,
      fail_if (\<not> valid_agent_id (ac_agent_id c)) CfgAgentId,
      (case gl_request_uri lib (ac_server_url c) of
         None \<Rightarrow> Some CfgServerUrl
       | Some u \<Rightarrow> first_some [fail_if (\<not> origin_url u) CfgServerUrl,
           fail_if (url_scheme u \<noteq> ''https'' \<and> \<not> (ac_insecure_dev_http c \<and> url_scheme u = ''http'')) CfgHttps]),
      fail_if (length (ac_token c) < 32) CfgToken,
      fail_if (ac_queue_size c < 1 \<or> 10000 < ac_queue_size c) CfgQueueSize,
      fail_if (\<not> is_abs (ac_state_file c) \<or> \<not> is_abs (ac_spool_directory c) \<or> \<not> is_abs (ac_proc_root c) \<or>
               \<not> is_abs (ac_sys_root c) \<or> \<not> is_abs (ac_host_root c) \<or> \<not> is_abs (ac_mountinfo_path c)) CfgPaths,
      fail_if (ac_request_timeout c \<le> 0 \<or> minute < ac_request_timeout c) CfgRequestTimeout,
      fail_if (32 < length (ac_systemd_services c) \<or> 32 < length (ac_http_checks c) \<or>
               32 < length (ac_tcp_checks c)) CfgTooManyChecks]"

definition agent_normalised :: "agent_config \<Rightarrow> agent_config" where
  "agent_normalised c = c\<lparr>ac_server_url := trim_suffix (ac_server_url c) ''/'',
     ac_docker := (ac_docker c)\<lparr>dc_timeout := default_timeout (dc_timeout (ac_docker c))\<rparr>,
     ac_http_checks := map (\<lambda>h. h\<lparr>hc_timeout := default_timeout (hc_timeout h)\<rparr>) (ac_http_checks c),
     ac_tcp_checks := map (\<lambda>t. t\<lparr>tc_timeout := default_timeout (tc_timeout t)\<rparr>) (ac_tcp_checks c)\<rparr>"

definition agent_checks :: "go_lib \<Rightarrow> agent_config \<Rightarrow> config_error + string list" where
  "agent_checks lib c =
     (case check_services (ac_systemd_services c) [] of
        Inl e \<Rightarrow> Inl e
      | Inr seen \<Rightarrow>
          (case (if dc_enabled (ac_docker c)
              then first_some [fail_if (\<not> is_abs (dc_socket (ac_docker c))) CfgDocker,
                fail_if (\<not> valid_check_timeout (dc_timeout (ac_docker c))) CfgCheckTimeout]
              else None) of
             Some e \<Rightarrow> Inl e
           | None \<Rightarrow>
               (case check_http_checks lib (ac_http_checks c) seen of
                  Inl e \<Rightarrow> Inl e
                | Inr seen1 \<Rightarrow> check_tcp_checks (ac_tcp_checks c) seen1)))"

definition load_agent :: "go_lib \<Rightarrow> (agent_config \<Rightarrow> agent_config option) \<Rightarrow> (string \<Rightarrow> string) \<Rightarrow>
    config_error + agent_config" where
  "load_agent lib yaml getenv =
     (case yaml agent_defaults of
        None \<Rightarrow> Inl CfgYaml
      | Some c0 \<Rightarrow>
          (let c1 = agent_overrides getenv c0 in
           case set_duration (getenv ''MONITOROZO_INTERVAL'') (ac_interval c1) of
             Inl e \<Rightarrow> Inl e
           | Inr d \<Rightarrow>
               (let c2 = c1\<lparr>ac_interval := d\<rparr> in
                case agent_settings_error lib c2 of
                  Some e \<Rightarrow> Inl e
                | None \<Rightarrow>
                    (let c3 = agent_normalised c2 in
                     case agent_checks lib c3 of Inl e \<Rightarrow> Inl e | Inr _ \<Rightarrow> Inr c3))))"

subsection \<open>The server's configuration\<close>

type_synonym agent_token = "string \<times> string"

record smtp_config =
  sm_enabled :: bool
  sm_address :: string
  sm_username :: string
  sm_password :: string
  sm_from :: string
  sm_to :: string

record server_config =
  sc_listen :: string
  sc_database_path :: string
  sc_public_url :: string
  sc_agent_tokens :: "agent_token list"
  sc_admin_password_hash :: string
  sc_session_secret :: string
  sc_session_idle_timeout :: duration
  sc_session_max_lifetime :: duration
  sc_secure_cookies :: bool
  sc_max_clock_skew :: duration
  sc_max_report_age :: duration
  sc_cpu_alert_threshold :: float64
  sc_memory_alert_threshold :: float64
  sc_high_usage_duration :: duration
  sc_disk_warning_threshold :: float64
  sc_disk_critical_threshold :: float64
  sc_agent_offline_after :: duration
  sc_alert_cooldown :: duration
  sc_http_failure_count :: int
  sc_tls_warning_days :: float64
  sc_tls_critical_days :: float64
  sc_trusted_proxy :: string
  sc_raw_retention :: duration
  sc_aggregate_retention :: duration
  sc_maintenance_interval :: duration
  sc_smtp :: smtp_config

definition server_defaults :: server_config where
  "server_defaults = \<lparr>sc_listen = ''127.0.0.1:8080'',
     sc_database_path = ''/var/lib/monitorozo-server/monitorozo.db'', sc_public_url = [],
     sc_agent_tokens = [], sc_admin_password_hash = [], sc_session_secret = [],
     sc_session_idle_timeout = 30 * minute, sc_session_max_lifetime = 12 * hour,
     sc_secure_cookies = True, sc_max_clock_skew = 2 * minute, sc_max_report_age = 24 * hour,
     sc_cpu_alert_threshold = Fin 90, sc_memory_alert_threshold = Fin 90,
     sc_high_usage_duration = 5 * minute, sc_disk_warning_threshold = Fin 85,
     sc_disk_critical_threshold = Fin 95, sc_agent_offline_after = 120 * second,
     sc_alert_cooldown = 30 * minute, sc_http_failure_count = 3, sc_tls_warning_days = Fin 14,
     sc_tls_critical_days = Fin 3, sc_trusted_proxy = [], sc_raw_retention = 7 * 24 * hour,
     sc_aggregate_retention = 90 * 24 * hour, sc_maintenance_interval = hour,
     sc_smtp = \<lparr>sm_enabled = False, sm_address = [], sm_username = [], sm_password = [],
       sm_from = [], sm_to = []\<rparr>\<rparr>"

definition server_overrides :: "(string \<Rightarrow> string) \<Rightarrow> server_config \<Rightarrow> server_config" where
  "server_overrides getenv c = c\<lparr>
     sc_listen := set_string (getenv ''MONITOROZO_LISTEN'') (sc_listen c),
     sc_database_path := set_string (getenv ''MONITOROZO_DATABASE_PATH'') (sc_database_path c),
     sc_public_url := set_string (getenv ''MONITOROZO_PUBLIC_URL'') (sc_public_url c),
     sc_admin_password_hash := set_string (getenv ''MONITOROZO_ADMIN_PASSWORD_HASH'') (sc_admin_password_hash c),
     sc_session_secret := set_string (getenv ''MONITOROZO_SESSION_SECRET'') (sc_session_secret c),
     sc_smtp := (sc_smtp c)\<lparr>sm_password := set_string (getenv ''MONITOROZO_SMTP_PASSWORD'') (sm_password (sc_smtp c))\<rparr>\<rparr>"

text \<open>\<open>validateServerEndpoints\<close>; the part that rewrites the public URL is its success value.\<close>

definition listen_error :: "go_lib \<Rightarrow> string \<Rightarrow> config_error option" where
  "listen_error lib listen =
     (case split_host_port listen of
        None \<Rightarrow> Some CfgListen
      | Some (host, port) \<Rightarrow> first_some
          [(case atoi port of None \<Rightarrow> Some CfgListen | Some n \<Rightarrow> fail_if (n < 1 \<or> 65535 < n) CfgListen),
           fail_if (host \<noteq> [] \<and> gl_parse_ip lib host = None \<and> host \<noteq> ''localhost'') CfgListenHost])"

definition validate_server_endpoints :: "go_lib \<Rightarrow> server_config \<Rightarrow> config_error + server_config" where
  "validate_server_endpoints lib c =
     (case first_some
        [listen_error lib (sc_listen c),
         fail_if (\<not> is_abs (sc_database_path c)) CfgDatabasePath,
         (case gl_request_uri lib (sc_public_url c) of
            None \<Rightarrow> Some CfgPublicUrl
          | Some u \<Rightarrow> first_some
              [fail_if (\<not> origin_url u \<or> (url_scheme u \<noteq> ''http'' \<and> url_scheme u \<noteq> ''https'')) CfgPublicUrl,
               fail_if (sc_secure_cookies c \<and> url_scheme u \<noteq> ''https'') CfgSecureCookies]),
         fail_if (sc_trusted_proxy c \<noteq> [] \<and> gl_parse_cidr lib (sc_trusted_proxy c) = None) CfgTrustedProxy] of
        Some e \<Rightarrow> Inl e
      | None \<Rightarrow> Inr (c\<lparr>sc_public_url := trim_suffix (sc_public_url c) ''/'' @ ''/''\<rparr>))"

text \<open>\<open>validateSMTP\<close> ranges over a map of the two addresses, in either order.\<close>

definition smtp_address_error :: "go_lib \<Rightarrow> string \<Rightarrow> config_error option" where
  "smtp_address_error lib value = first_some
     [fail_if (contains_any value [CHR 0x0D, CHR 0x0A]) CfgSmtpLineBreak,
      fail_if (gl_mail_address lib value \<noteq> Some value) CfgSmtpBareAddress]"

definition validate_smtp :: "go_lib \<Rightarrow> bool \<Rightarrow> smtp_config \<Rightarrow> config_error option" where
  "validate_smtp lib from_first m =
     (if \<not> sm_enabled m then None
      else first_some
        [(case split_host_port (sm_address m) of None \<Rightarrow> Some CfgSmtpAddress
          | Some (host, _) \<Rightarrow> fail_if (host = []) CfgSmtpAddress),
         for_each (smtp_address_error lib)
           (if from_first then [sm_from m, sm_to m] else [sm_to m, sm_from m]),
         fail_if (sm_username m \<noteq> [] \<and> sm_password m = []) CfgSmtpPassword])"

fun token_entries :: "agent_token list \<Rightarrow> agent_token list \<Rightarrow> config_error option" where
  "token_entries [] seen = None"
| "token_entries (t # ts) seen =
     (if \<not> valid_agent_id (fst t) \<or> \<not> valid_token_hash (snd t) then Some CfgAgentToken
      else if fst t @ [CHR 0x00] @ snd t \<in> set (map (\<lambda>q. fst q @ [CHR 0x00] @ snd q) seen) then Some CfgDuplicate
      else token_entries ts (t # seen))"

definition server_settings_error :: "go_lib \<Rightarrow> bool \<Rightarrow> server_config \<Rightarrow> config_error option" where
  "server_settings_error lib from_first c = first_some
     [fail_if (sc_session_idle_timeout c < minute \<or> sc_session_max_lifetime c < sc_session_idle_timeout c \<or>
               30 * 24 * hour < sc_session_max_lifetime c) CfgSessionTimeouts,
      fail_if (fle (sc_cpu_alert_threshold c) (Fin 0) \<or> flt (Fin 100) (sc_cpu_alert_threshold c)) CfgCpu,
      fail_if (fle (sc_memory_alert_threshold c) (Fin 0) \<or> flt (Fin 100) (sc_memory_alert_threshold c)) CfgMemory,
      fail_if (sc_high_usage_duration c < 0) CfgHighUsage,
      fail_if (fle (sc_disk_warning_threshold c) (Fin 0) \<or>
               fle (sc_disk_critical_threshold c) (sc_disk_warning_threshold c) \<or>
               flt (Fin 100) (sc_disk_critical_threshold c)) CfgDisk,
      fail_if (sc_agent_offline_after c < 30 * second) CfgOffline,
      fail_if (sc_alert_cooldown c < 0) CfgCooldown,
      fail_if (sc_http_failure_count c < 1 \<or> 100 < sc_http_failure_count c) CfgFailureCount,
      fail_if (fle (sc_tls_critical_days c) (Fin 0) \<or> fle (sc_tls_warning_days c) (sc_tls_critical_days c)) CfgTls,
      fail_if (sc_max_clock_skew c \<le> 0 \<or> hour < sc_max_clock_skew c) CfgSkew,
      fail_if (sc_max_report_age c < sc_max_clock_skew c \<or> 7 * 24 * hour < sc_max_report_age c) CfgReportAge,
      fail_if (sc_raw_retention c < 24 * hour) CfgRawRetention,
      fail_if (sc_aggregate_retention c < sc_raw_retention c) CfgAggregateRetention,
      fail_if (sc_maintenance_interval c < 5 * minute) CfgMaintenance,
      validate_smtp lib from_first (sc_smtp c)]"

text \<open>Everything after the environment has been read.\<close>

definition server_checked :: "go_lib \<Rightarrow> bool \<Rightarrow> server_config \<Rightarrow> config_error + server_config" where
  "server_checked lib from_first c =
     (case first_some
        [fail_if (sc_admin_password_hash c = [] \<or> length (sc_session_secret c) < 32 \<or> sc_agent_tokens c = []) CfgSecrets,
         fail_if (\<not> gl_bcrypt_ok lib (sc_admin_password_hash c)) CfgBcrypt] of
        Some e \<Rightarrow> Inl e
      | None \<Rightarrow>
          (case validate_server_endpoints lib c of
             Inl e \<Rightarrow> Inl e
           | Inr c1 \<Rightarrow>
               (case first_some [token_entries (sc_agent_tokens c1) [], server_settings_error lib from_first c1] of
                  Some e \<Rightarrow> Inl e
                | None \<Rightarrow> Inr c1)))"

definition load_server :: "go_lib \<Rightarrow> (server_config \<Rightarrow> server_config option) \<Rightarrow> (string \<Rightarrow> string) \<Rightarrow> bool \<Rightarrow>
    config_error + server_config" where
  "load_server lib yaml getenv from_first =
     (case yaml server_defaults of
        None \<Rightarrow> Inl CfgYaml
      | Some c0 \<Rightarrow>
          (let c1 = server_overrides getenv c0; raw = getenv ''MONITOROZO_SECURE_COOKIES'' in
           if raw = [] then server_checked lib from_first c1
           else case parse_bool raw of
               None \<Rightarrow> Inl CfgBool
             | Some b \<Rightarrow> server_checked lib from_first (c1\<lparr>sc_secure_cookies := b\<rparr>)))"

end
