(* ===== verification/Alert_Life.thy ===== *)
theory Alert_Life
  imports Alert_Queries
begin

text \<open>
  What the operations of the alerts table guarantee together: the life of an alert under a series
  of evaluations, and the outbox of notifications under concurrent transitions.
\<close>

subsection \<open>Success\<close>

text \<open>Without a failing statement a rule can always be applied for a known agent.\<close>

lemma apply_rule_succeeds:
  assumes "\<forall>c. \<not> fails c" and "amap_get (db_agents d) (ev_agent_id e) \<noteq> None"
  shows "\<exists>changed d'. apply_rule fails e now clock d = (Inr changed, d')"
proof -
  have ins: "\<exists>d1. insert_alert (new_row e now (db_next_alert d)) d = Some d1" if "select_active e d = None"
    using assms(2) that by (auto simp: insert_alert_def new_row_def select_active_def Let_def)
  have "\<exists>c d'. apply_rule_tx fails e now clock d = Inr (c, d')"
  proof (cases "select_active e d")
    case None
    then show ?thesis using ins assms(1)
      by (auto simp: apply_rule_tx_def audited_def audit_rule_tx_def audit_tx_def)
  next
    case (Some r)
    then show ?thesis using assms(1)
      by (simp add: apply_rule_tx_def Let_def audited_def audit_rule_tx_def audit_tx_def) blast
  qed
  then show ?thesis using assms(1) by (auto simp: apply_rule_def)
qed

lemma apply_rule_tx_agents:
  assumes "apply_rule_tx fails e now clock d = Inr (c, d')"
  shows "db_agents d' = db_agents d"
proof -
  have a: "audited fails e s clock d0 = Inr (c, d') \<Longrightarrow> db_agents d' = db_agents d0" for s d0
    by (auto dest!: audited_Inr)
  show ?thesis
  proof (cases "select_active e d")
    case None
    then consider "d' = d" | d1 s where "insert_alert (new_row e now (db_next_alert d)) d = Some d1"
        "audited fails e s clock d1 = Inr (c, d')"
      using assms by (auto simp: apply_rule_tx_def split: if_splits option.splits)
    then show ?thesis
      by cases (auto simp: insert_alert_def split: if_splits dest!: a)
  next
    case (Some r)
    then consider s P f where "audited fails e s clock (update_alerts P f d) = Inr (c, d')"
      | P f where "d' = update_alerts P f d"
      using assms unfolding apply_rule_tx_def Let_def
      by (simp split: if_splits) blast+
    then show ?thesis by cases (auto dest!: a)
  qed
qed

lemma apply_rule_agents: "db_agents (snd (apply_rule fails e now clock d)) = db_agents d"
proof (cases "apply_rule_tx fails e now clock d")
  case (Inl err)
  then show ?thesis by (simp add: apply_rule_def)
next
  case (Inr x)
  obtain c d' where "x = (c, d')" by force
  then show ?thesis using Inr apply_rule_tx_agents [of fails e now clock d c d']
    by (simp add: apply_rule_def)
qed

subsection \<open>Series of evaluations\<close>

text \<open>The same rule evaluated at several times, as one report after another does.\<close>

fun rule_run :: "faults \<Rightarrow> rule_evaluation \<Rightarrow> gotime list \<Rightarrow> db \<Rightarrow> bool list \<times> db" where
  "rule_run fails e [] d = ([], d)"
| "rule_run fails e (t # ts) d =
     (case apply_rule fails e t t d of
        (Inl err, d') \<Rightarrow> ([], d')
      | (Inr c, d') \<Rightarrow> (let (cs, d'') = rule_run fails e ts d' in (c # cs, d'')))"

fun life_run :: "rule_evaluation \<Rightarrow> gotime list \<Rightarrow> life \<Rightarrow> bool list \<times> life" where
  "life_run e [] l = ([], l)"
| "life_run e (t # ts) l =
     (let l1 = life_step e t l; (cs, l2) = life_run e ts l1 in (life_changes l l1 # cs, l2))"

definition life_at :: "rule_evaluation \<Rightarrow> db \<Rightarrow> life" where
  "life_at e d = life_of (select_active e d)"

lemma rule_run_life:
  assumes "alerts_ok d" "\<forall>c. \<not> fails c" "amap_get (db_agents d) (ev_agent_id e) \<noteq> None"
  shows "fst (rule_run fails e ts d) = fst (life_run e ts (life_at e d)) \<and>
    life_at e (snd (rule_run fails e ts d)) = snd (life_run e ts (life_at e d))"
  using assms(1,3)
proof (induction ts arbitrary: d)
  case Nil
  then show ?case by simp
next
  case (Cons t ts)
  obtain c d' where d': "apply_rule fails e t t d = (Inr c, d')"
    using apply_rule_succeeds [OF assms(2) Cons.prems(2)] by blast
  have eff: "rule_effect e t d c d'" by (rule apply_rule_effect [OF Cons.prems(1) d'])
  have "db_agents d' = db_agents d" using apply_rule_agents [of fails e t t d] d' by simp
  then show ?case using Cons.IH [of d'] Cons.prems(2) eff d'
    by (simp add: rule_effect_def life_at_def Let_def case_prod_beta)
qed

text \<open>Rules that count violations: \<open>Waiting\<close> until the required number, then \<open>Alerting\<close>.\<close>

lemma count_run_waiting:
  assumes "ev_violated e" "1 < ev_consecutive e" "0 \<le> n" "n < ev_consecutive e"
  shows "life_run e ts (Waiting t0 n sev) =
    (map (\<lambda>i. n + int i = ev_consecutive e) [1..<Suc (length ts)] ,
     if ts = [] then Waiting t0 n sev
     else (if n + int (length ts) < ev_consecutive e then Waiting else Alerting)
       t0 (n + int (length ts)) (ev_severity e))" (is "?l n ts = _")
  and "ev_violated e \<Longrightarrow> sev = ev_severity e \<Longrightarrow> life_run e ts (Alerting t0 m sev) =
    (replicate (length ts) False, Alerting t0 (m + int (length ts)) sev)"
proof -
  have al: "life_run e ts (Alerting t0 m (ev_severity e)) =
      (replicate (length ts) False, Alerting t0 (m + int (length ts)) (ev_severity e))" for m ts
    using assms(1) by (induction ts arbitrary: m) (auto simp: Let_def)
  then show "ev_violated e \<Longrightarrow> sev = ev_severity e \<Longrightarrow> life_run e ts (Alerting t0 m sev) =
      (replicate (length ts) False, Alerting t0 (m + int (length ts)) sev)" by simp
  show "life_run e ts (Waiting t0 n sev) =
    (map (\<lambda>i. n + int i = ev_consecutive e) [1..<Suc (length ts)] ,
     if ts = [] then Waiting t0 n sev
     else (if n + int (length ts) < ev_consecutive e then Waiting else Alerting)
       t0 (n + int (length ts)) (ev_severity e))"
    using assms(3,4)
  proof (induction ts arbitrary: n sev)
    case Nil
    then show ?case by simp
  next
    case (Cons t ts)
    have shift: "map (\<lambda>i. n + int i = ev_consecutive e) [1..<Suc (length (t # ts))] =
        (n + 1 = ev_consecutive e) # map (\<lambda>i. n + 1 + int i = ev_consecutive e) [1..<Suc (length ts)]"
      by (auto simp: upt_conv_Cons map_Suc_upt [symmetric] simp del: upt_Suc)
    show ?case
    proof (cases "n + 1 < ev_consecutive e")
      case True
      then show ?thesis using Cons.IH [of "n + 1" "ev_severity e"] Cons.prems assms(1,2)
        unfolding shift by (auto simp: must_fire_def Let_def)
    next
      case False
      then have n: "n + 1 = ev_consecutive e" using Cons.prems by simp
      have "map (\<lambda>i. n + 1 + int i = ev_consecutive e) [1..<Suc (length ts)] = replicate (length ts) False"
      proof -
        have "map (\<lambda>i. n + 1 + int i = ev_consecutive e) [1..<Suc (length ts)] =
            map (\<lambda>_. False) [1..<Suc (length ts)]"
          unfolding n by (rule map_cong) auto
        then show ?thesis by (simp add: map_replicate_const del: upt_Suc)
      qed
      then show ?thesis using al [of ts "n + 1"] n assms(1,2)
        unfolding shift by (auto simp: must_fire_def Let_def)
    qed
  qed
qed


text \<open>Rules that wait for a duration.\<close>

lemma wait_run:
  assumes "ev_violated e" "ev_consecutive e \<le> 1"
  shows "snd (life_run e ts (Waiting t0 n (ev_severity e))) =
    (if \<exists>t \<in> set ts. ev_for e \<le> time_sub t t0 then Alerting else Waiting) t0 (n + int (length ts)) (ev_severity e)"
proof (induction ts arbitrary: n)
  case Nil
  then show ?case by simp
next
  case (Cons t ts)
  have al: "life_run e ts (Alerting t0 m (ev_severity e)) =
      (replicate (length ts) False, Alerting t0 (m + int (length ts)) (ev_severity e))" for m ts
    using assms(1) by (induction ts arbitrary: m) (auto simp: Let_def)
  show ?case using Cons.IH [of "n + 1"] assms al [of ts "n + 1"]
    by (auto simp: must_fire_def Let_def case_prod_beta)
qed

subsection \<open>A concrete database\<close>

definition demo_db :: db where
  "demo_db = \<lparr>db_agents = [(''web'', \<lparr>gr_last_sequence = 0, gr_last_seen = None\<rparr>)], db_tokens = [],
     db_reports = [], db_next_report = 1, db_hourly = [], db_alerts = [], db_next_alert = 1,
     db_audit = [], db_preferences = None\<rparr>"

definition demo_rule :: "bool \<Rightarrow> duration \<Rightarrow> int \<Rightarrow> rule_evaluation" where
  "demo_rule violated dur consecutive = \<lparr>ev_agent_id = ''web'', ev_rule_key = ''http_failed'',
     ev_resource = ''shop'', ev_severity = Critical, ev_value = Fin 500, ev_threshold = Fin 399,
     ev_violated = violated, ev_for = dur, ev_consecutive = consecutive\<rparr>"

lemma demo_rule_simps [simp]:
  "ev_agent_id (demo_rule v f n) = ''web''" "ev_rule_key (demo_rule v f n) = ''http_failed''"
  "ev_resource (demo_rule v f n) = ''shop''" "ev_severity (demo_rule v f n) = Critical"
  "ev_violated (demo_rule v f n) = v" "ev_for (demo_rule v f n) = f" "ev_consecutive (demo_rule v f n) = n"
  by (simp_all add: demo_rule_def)

lemma demo_applies:
  "db_agents d = db_agents demo_db \<Longrightarrow>
    \<exists>c d'. apply_rule (\<lambda>_. False) (demo_rule v f n) now clock d = (Inr c, d')"
  by (rule apply_rule_succeeds) (simp_all add: demo_db_def amap_get_def)

lemma demo_db_ok: "alerts_ok demo_db" "amap_get (db_agents demo_db) ''web'' \<noteq> None"
  "life_at (demo_rule v f n) demo_db = Idle" "active_at demo_db a k s = None" "db_alerts demo_db = []"
  "db_audit demo_db = []"
  by (simp_all add: alerts_ok_def demo_db_def amap_get_def life_at_def select_active_def active_at_def)

subsection \<open>Properties\<close>

text \<open>C5. \<open>ApplyRule\<close> implements the life cycle of an alert: a call that succeeds takes the abstract state
  of its rule and resource to the next one, reports a change exactly when the alert opens, fires,
  escalates or resolves, writes one audit entry in exactly these cases, leaves the active alerts of all
  other rules and resources alone and keeps the table well formed.\<close>

theorem apply_rule_refines_life:
  assumes "alerts_ok d" and "apply_rule fails e now clock d = (Inr changed, d')"
  shows "life_of (select_active e d') = life_step e now (life_of (select_active e d)) \<and>
    (changed \<longleftrightarrow> life_changes (life_of (select_active e d)) (life_of (select_active e d'))) \<and>
    length (db_audit d') = length (db_audit d) + (if changed then 1 else 0) \<and>
    ((a, k, s) \<noteq> (ev_agent_id e, ev_rule_key e, ev_resource e) \<longrightarrow> active_at d' a k s = active_at d a k s) \<and>
    alerts_ok d'"
  using apply_rule_effect [OF assms] by (auto simp: rule_effect_def)

theorem apply_rule_refines_life_witness:
  "\<exists>d'. apply_rule (\<lambda>_. False) (demo_rule True 0 3) 1000 1000 demo_db = (Inr True, d') \<and>
     life_of (select_active (demo_rule True 0 3) d') = Waiting 1000 1 Critical \<and>
     length (db_audit d') = 1 \<and> alerts_ok d'"
proof -
  obtain c d' where a: "apply_rule (\<lambda>_. False) (demo_rule True 0 3) 1000 1000 demo_db = (Inr c, d')"
    using demo_applies [OF refl] by blast
  show ?thesis
    using apply_rule_refines_life [OF demo_db_ok(1) a] a demo_db_ok(3) [of True 0 3]
    by (simp add: life_at_def demo_rule_def demo_db_ok(6))
qed

text \<open>C32. A check fires after the configured number of consecutive failures, neither earlier nor
  later: for a rule with \<open>Consecutive = n > 1\<close> and no open alert, \<open>m\<close> violated evaluations in a row
  report a change at the first and at the \<open>n\<close>-th evaluation only, and leave a pending alert with
  count \<open>m\<close> when \<open>m < n\<close> and a firing one otherwise.\<close>

theorem consecutive_failures_fire:
  assumes "alerts_ok d" and "\<forall>c. \<not> fails c" and "amap_get (db_agents d) (ev_agent_id e) \<noteq> None"
    and "select_active e d = None" and "ev_violated e" and "1 < ev_consecutive e" and "ts \<noteq> []"
  shows "fst (rule_run fails e ts d) = map (\<lambda>i. i = 1 \<or> int i = ev_consecutive e) [1..<Suc (length ts)] \<and>
    life_of (select_active e (snd (rule_run fails e ts d))) =
      (if int (length ts) < ev_consecutive e then Waiting else Alerting) (hd ts) (int (length ts)) (ev_severity e)"
proof -
  obtain t ts' where ts: "ts = t # ts'" using assms(7) by (cases ts) auto
  have shift: "map (\<lambda>i. i = 1 \<or> int i = ev_consecutive e) [1..<Suc (length ts)] =
      True # map (\<lambda>i. 1 + int i = ev_consecutive e) [1..<Suc (length ts')]"
    by (auto simp: ts upt_conv_Cons map_Suc_upt [symmetric] simp del: upt_Suc)
  show ?thesis
    using rule_run_life [OF assms(1-3), of ts] count_run_waiting(1) [OF assms(5,6), of 1 ts' t "ev_severity e"]
      assms(4-6) unfolding shift
    by (auto simp: ts life_at_def Let_def case_prod_beta simp del: upt_Suc)
qed

theorem consecutive_failures_fire_witness:
  "fst (rule_run (\<lambda>_. False) (demo_rule True 0 3) [10, 20, 30, 40] demo_db) = [True, False, True, False] \<and>
   life_of (select_active (demo_rule True 0 3) (snd (rule_run (\<lambda>_. False) (demo_rule True 0 3) [10, 20, 30, 40] demo_db))) =
     Alerting 10 4 Critical"
  using consecutive_failures_fire [OF demo_db_ok(1), of "\<lambda>_. False" "demo_rule True 0 3" "[10, 20, 30, 40]"]
    demo_db_ok(2,3) by (simp add: demo_rule_def select_active_at demo_db_ok(4) upt_conv_Cons)

text \<open>C33. A usage alert fires once the violation has lasted for the configured duration: with
  \<open>For = f > 0\<close>, a violation first seen at \<open>t0\<close> and at every later evaluation is firing exactly when
  one of these evaluations came at least \<open>f\<close> after \<open>t0\<close>.\<close>

theorem lasting_violation_fires:
  assumes "alerts_ok d" and "\<forall>c. \<not> fails c" and "amap_get (db_agents d) (ev_agent_id e) \<noteq> None"
    and "select_active e d = None" and "ev_violated e" and "ev_consecutive e \<le> 1"
    and "0 < ev_for e" and "ev_for e \<le> max_duration"
  shows "life_of (select_active e (snd (rule_run fails e (t0 # ts) d))) =
    (if list_ex (\<lambda>t. ev_for e \<le> t - t0) ts then Alerting else Waiting) t0 (int (length ts) + 1) (ev_severity e)"
  using rule_run_life [OF assms(1-3), of "t0 # ts"] wait_run [OF assms(5,6), of ts t0 1] assms(4-8)
  by (auto simp: life_at_def Let_def case_prod_beta list_ex_iff time_sub_ge)

theorem lasting_violation_fires_witness:
  "life_of (select_active (demo_rule True 300 0) (snd (rule_run (\<lambda>_. False) (demo_rule True 300 0)
     [10, 100, 309] demo_db))) = Waiting 10 3 Critical"
  using lasting_violation_fires [OF demo_db_ok(1), of "\<lambda>_. False" "demo_rule True 300 0" 10 "[100, 309]"]
    demo_db_ok(2,3)
  by (simp add: demo_rule_def select_active_at demo_db_ok(4) max_duration_def)

lemma mark_other_state:
  assumes "alerts_ok d" "r \<in> set (db_alerts d)" "ar_id r = al_id a"
    and "ar_state r \<noteq> al_state a \<or> ar_severity r \<noteq> al_severity a"
  shows "snd (mark_alert_delivery fails a state now d) = d"
proof -
  have "q = r" if "q \<in> set (db_alerts d)" "ar_id q = al_id a" for q
    using row_by_id [OF assms(1) that(1) assms(2)] that(2) assms(3) by simp
  then have "map (\<lambda>q. if ar_id q = al_id a \<and> ar_state q = al_state a \<and> ar_severity q = al_severity a \<and>
      ar_notification q = NotPending then f q else q) (db_alerts d) = db_alerts d" for f
    using assms(4) by (intro map_idI) auto
  then show ?thesis
    by (simp add: mark_alert_delivery_def mark_alert_notification_if_def update_alerts_def)
qed

text \<open>C21. A transition is never swallowed by a delivery in flight: when an alert recovers or
  escalates while the message for its earlier state is being sent, recording that delivery leaves
  the newer notification pending, so it is sent next.\<close>

theorem delivery_keeps_newer_transition:
  assumes "alerts_ok d" and "r \<in> set (db_alerts d)" and "ar_state r = Firing" and "ar_notification r = NotPending"
    and "row_of (ev_agent_id e) (ev_rule_key e) (ev_resource e) r"
    and "\<not> ev_violated e \<or> ar_severity r = Warning \<and> ev_severity e = Critical"
    and "apply_rule fails e now clock d = (Inr changed, d1)"
    and "mark_alert_delivery fails2 (scan_alert r) NotSent later d1 = (err, d2)"
  shows "\<exists>q \<in> set (db_alerts d2). ar_id q = ar_id r \<and> due_row q \<and>
    (if ev_violated e then ar_severity q = Critical else ar_state q = Resolved)"
proof -
  let ?n = "ar_violation_count r + 1"
  let ?f = "if ev_violated e then escalate_row e ?n else resolve_row e now NotPending"
  have sel: "select_active e d = Some r"
    using assms(2,3,5) active_at_iff [OF assms(1)] by (simp add: select_active_at active_row_def)
  obtain c d0 where tx: "apply_rule_tx fails e now clock d = Inr (c, d0)" "d1 = d0"
    using assms(7) by (auto simp: apply_rule_def split: if_splits sum.splits)
  have "\<exists>s. audited fails e s clock (update_alerts (\<lambda>q. ar_id q = ar_id r) ?f d) = Inr (c, d0)"
    using tx(1) sel assms(3,4,6) by (auto simp: apply_rule_tx_def Let_def split: if_splits)
  then obtain l where d1: "d1 = (update_alerts (\<lambda>q. ar_id q = ar_id r) ?f d)\<lparr>db_audit := l\<rparr>"
    using tx(2) by (auto dest!: audited_Inr)
  let ?q = "?f r"
  have "alerts_ok d1" using apply_rule_effect [OF assms(1,7)] by (simp add: rule_effect_def)
  moreover have q: "?q \<in> set (db_alerts d1)" using set_update_alerts [OF assms(1,2), of ?f] by (simp add: d1)
  moreover have "ar_id ?q = al_id (scan_alert r)"
    "ar_state ?q \<noteq> al_state (scan_alert r) \<or> ar_severity ?q \<noteq> al_severity (scan_alert r)"
    using assms(3,6) by (auto simp: escalate_row_def resolve_row_def)
  ultimately have "d2 = d1" using mark_other_state [of d1 ?q "scan_alert r"] assms(8) by (metis snd_conv)
  then show ?thesis using q assms(3,6)
    by (intro bexI [of _ ?q]) (auto simp: due_row_def escalate_row_def resolve_row_def)
qed

definition demo_firing :: db where
  "demo_firing = snd (apply_rule (\<lambda>_. False) (demo_rule True 0 0) 1000 1000 demo_db)"

lemma demo_firing_eval: "db_alerts demo_firing = [new_row (demo_rule True 0 0) 1000 1]"
  "db_agents demo_firing = db_agents demo_db" "alerts_ok demo_firing" "db_next_alert demo_firing = 2"
proof -
  have "alerts_ok (snd (apply_rule (\<lambda>_. False) (demo_rule True 0 0) 1000 1000 demo_db))"
    by (intro inv_intros demo_db_ok)
  then show "alerts_ok demo_firing" by (simp add: demo_firing_def)
qed (simp_all add: demo_firing_def apply_rule_def apply_rule_tx_def select_active_def demo_db_def
    insert_alert_def audited_def audit_rule_tx_def audit_tx_def amap_get_def demo_rule_def new_row_def Let_def)

theorem delivery_keeps_newer_transition_witness:
  "\<exists>d1. apply_rule (\<lambda>_. False) (demo_rule False 0 0) 2000 2000 demo_firing = (Inr True, d1) \<and>
     filter due_row (db_alerts (snd (mark_alert_delivery (\<lambda>_. False)
       (scan_alert (new_row (demo_rule True 0 0) 1000 1)) NotSent 3000 d1))) \<noteq> []"
proof -
  let ?r = "new_row (demo_rule True 0 0) 1000 1"
  obtain c d1 where a: "apply_rule (\<lambda>_. False) (demo_rule False 0 0) 2000 2000 demo_firing = (Inr c, d1)"
    using demo_applies [OF demo_firing_eval(2)] by blast
  have c: "c" using a
    by (simp add: apply_rule_def apply_rule_tx_def select_active_def demo_firing_eval row_of_def demo_rule_def
        new_row_def active_row_def Let_def audited_def audit_rule_tx_def audit_tx_def)
  obtain err d2 where m: "mark_alert_delivery (\<lambda>_. False) (scan_alert ?r) NotSent 3000 d1 = (err, d2)" by force
  show ?thesis
    using delivery_keeps_newer_transition [OF demo_firing_eval(3) _ _ _ _ _ a m] a c m
    by (auto simp: demo_firing_eval new_row_def row_of_def demo_rule_def Let_def filter_empty_conv)
qed

text \<open>Acknowledging is for open alerts only, once, and an escalation asks again: a successful
  acknowledgement marks exactly the one open, unacknowledged alert with that id and audits it, a
  second one finds nothing and changes nothing, and the alert is unacknowledged again after it
  escalates.\<close>

theorem acknowledgement_once:
  assumes "alerts_ok d" and "acknowledge_alert fails n actor now clock d = (None, d1)"
    and "\<forall>c. \<not> fails2 c"
  shows "(\<exists>r \<in> set (db_alerts d). ar_id r = n \<and> active_row r \<and> ar_acknowledged_at r = None \<and>
      db_alerts d1 = map (\<lambda>q. if q = r then r\<lparr>ar_acknowledged_at := Some (rfc3339_nano now),
        ar_acknowledged_by := Some actor\<rparr> else q) (db_alerts d)) \<and>
    length (db_audit d1) = Suc (length (db_audit d)) \<and>
    acknowledge_alert fails2 n actor2 now2 clock2 d1 = (Some NoRows, d1) \<and>
    ar_acknowledged_at (escalate_row e k q) = None"
proof -
  let ?open = "\<lambda>r. ar_id r = n \<and> active_row r \<and> ar_acknowledged_at r = None"
  let ?f = "\<lambda>r. r\<lparr>ar_acknowledged_at := Some (rfc3339_nano now), ar_acknowledged_by := Some actor\<rparr>"
  obtain l where one: "length (filter ?open (db_alerts d)) = 1"
      and d1: "d1 = (update_alerts ?open ?f d)\<lparr>db_audit := db_audit d @ [l]\<rparr>"
    using assms(2) by (auto simp: acknowledge_alert_def audit_tx_def Let_def split: if_splits sum.splits)
  from one obtain r where "filter ?open (db_alerts d) = [r]" by (auto simp: length_Suc_conv)
  then have "r \<in> set (filter ?open (db_alerts d))" by simp
  then have r: "r \<in> set (db_alerts d)" "?open r" by simp_all
  have only: "?open q \<longleftrightarrow> q = r" if "q \<in> set (db_alerts d)" for q
    using row_by_id [OF assms(1) that r(1)] r(2) by auto
  have rows: "db_alerts d1 = map (\<lambda>q. if q = r then ?f r else q) (db_alerts d)"
    using only by (auto simp: d1 update_alerts_def intro!: map_cong)
  have "\<not> ?open (if q = r then ?f r else q)" if q: "q \<in> set (db_alerts d)" for q
    using only [OF q] by (cases "q = r") simp_all
  then have "filter ?open (db_alerts d1) = []" unfolding rows filter_empty_conv by fastforce
  then have "acknowledge_alert fails2 n actor2 now2 clock2 d1 = (Some NoRows, d1)"
    using assms(3) by (simp add: acknowledge_alert_def Let_def)
  moreover have "length (db_audit d1) = Suc (length (db_audit d))" unfolding d1 by simp
  moreover have "ar_acknowledged_at (escalate_row e k q) = None" by (simp add: escalate_row_def)
  ultimately show ?thesis using r rows by (intro conjI bexI [of _ r]) simp_all
qed

theorem acknowledgement_once_witness:
  "acknowledge_alert (\<lambda>_. False) 1 ''bob'' 3000 3000
     (snd (acknowledge_alert (\<lambda>_. False) 1 ''ann'' 2000 2000 demo_firing)) =
   (Some NoRows, snd (acknowledge_alert (\<lambda>_. False) 1 ''ann'' 2000 2000 demo_firing))"
proof -
  have none: "fst (acknowledge_alert (\<lambda>_. False) 1 ''ann'' 2000 2000 demo_firing) = None"
    by (simp add: acknowledge_alert_def demo_firing_eval new_row_def demo_rule_def active_row_def Let_def audit_tx_def)
  obtain d1 where d1: "acknowledge_alert (\<lambda>_. False) 1 ''ann'' 2000 2000 demo_firing = (None, d1)"
    using none by (cases "acknowledge_alert (\<lambda>_. False) 1 ''ann'' 2000 2000 demo_firing") simp
  show ?thesis
    using acknowledgement_once [OF demo_firing_eval(3) d1, of "\<lambda>_. False" "''bob''" 3000 3000] d1 by simp
qed

end
