(* ===== verification/Engine.thy ===== *)
theory Engine
  imports Config Alert_Life Report_Store
begin

text \<open>
  The alert engine (\<open>internal/alerts/engine.go\<close>): the rules a report is evaluated against, the
  resolution of alerts whose subject is no longer reported, and the watch for agents that went silent.
  Every call of the store has its own faults and reading of the clock; \<open>io n\<close> belongs to the \<open>n\<close>-th.
\<close>

type_synonym store_io = "nat \<Rightarrow> faults \<times> gotime"

definition calm_io :: "gotime \<Rightarrow> store_io" where
  "calm_io clock = (\<lambda>_. (\<lambda>_. False, clock))"

subsection \<open>Configuration\<close>

text \<open>\<open>New\<close> fills in three settings left at zero.\<close>

definition new_engine :: "server_config \<Rightarrow> server_config" where
  "new_engine c = c\<lparr>
     sc_http_failure_count := (if sc_http_failure_count c = 0 then 3 else sc_http_failure_count c),
     sc_tls_warning_days := (if sc_tls_warning_days c = Fin 0 then Fin 14 else sc_tls_warning_days c),
     sc_tls_critical_days := (if sc_tls_critical_days c = Fin 0 then Fin 3 else sc_tls_critical_days c)\<rparr>"

subsection \<open>The rules of a report\<close>

definition bool_value :: "bool \<Rightarrow> float64" where
  "bool_value value = (if value then Fin 1 else Fin 0)"

definition rule_key :: "string \<Rightarrow> string \<Rightarrow> string" where
  "rule_key rule resource = rule @ [CHR 0x00] @ resource"

text \<open>A composite literal that leaves the resource, the duration and the count at zero.\<close>

definition rule :: "string \<Rightarrow> string \<Rightarrow> severity \<Rightarrow> float64 \<Rightarrow> float64 \<Rightarrow> bool \<Rightarrow> rule_evaluation" where
  "rule agent key sev value threshold violated = \<lparr>ev_agent_id = agent, ev_rule_key = key, ev_resource = [],
     ev_severity = sev, ev_value = value, ev_threshold = threshold, ev_violated = violated, ev_for = 0,
     ev_consecutive = 0\<rparr>"

definition usage_rules :: "server_config \<Rightarrow> report \<Rightarrow> rule_evaluation list" where
  "usage_rules c r =
     [(rule (rep_agent_id r) ''cpu_high'' Critical (rep_cpu_percent r) (sc_cpu_alert_threshold c)
         (flt (sc_cpu_alert_threshold c) (rep_cpu_percent r)))\<lparr>ev_for := sc_high_usage_duration c\<rparr>,
      (rule (rep_agent_id r) ''memory_high'' Critical (mem_used_percent (rep_memory r)) (sc_memory_alert_threshold c)
         (flt (sc_memory_alert_threshold c) (mem_used_percent (rep_memory r))))\<lparr>ev_for := sc_high_usage_duration c\<rparr>,
      rule (rep_agent_id r) ''agent_offline'' Critical (Fin 0) (dur_seconds (sc_agent_offline_after c)) False]"

definition filesystem_rules :: "server_config \<Rightarrow> string \<Rightarrow> filesystem \<Rightarrow> rule_evaluation list" where
  "filesystem_rules c agent f =
     (if \<not> monitorable f then []
      else
        [(rule agent ''disk_warning'' Warning (fs_used_percent f) (sc_disk_warning_threshold c)
            (flt (sc_disk_warning_threshold c) (fs_used_percent f) \<and>
             fle (fs_used_percent f) (sc_disk_critical_threshold c)))\<lparr>ev_resource := fs_mountpoint f\<rparr>,
         (rule agent ''disk_critical'' Critical (fs_used_percent f) (sc_disk_critical_threshold c)
            (flt (sc_disk_critical_threshold c) (fs_used_percent f)))\<lparr>ev_resource := fs_mountpoint f\<rparr>])"

definition service_state_known :: "service_status \<Rightarrow> bool" where
  "service_state_known s \<longleftrightarrow> svc_error s = [] \<and> svc_active_state s \<noteq> [] \<and> svc_active_state s \<noteq> ''unknown''"

definition service_down :: "service_status \<Rightarrow> bool" where
  "service_down s \<longleftrightarrow> svc_active_state s = ''failed'' \<or> svc_active_state s = ''inactive''"

definition service_rules :: "string \<Rightarrow> service_status \<Rightarrow> rule_evaluation list" where
  "service_rules agent s =
     (if \<not> service_state_known s then []
      else [(rule agent ''systemd_unavailable'' Critical (bool_value (service_down s)) (Fin 1)
               (service_down s))\<lparr>ev_resource := svc_name s\<rparr>])"

definition container_rules :: "string \<Rightarrow> container_status \<Rightarrow> rule_evaluation list" where
  "container_rules agent t =
     [(rule agent ''docker_stopped'' Critical (bool_value (ct_state t \<noteq> ''running'')) (Fin 1)
         (ct_state t \<noteq> ''running''))\<lparr>ev_resource := ct_name t\<rparr>,
      (rule agent ''docker_unhealthy'' Critical (bool_value (ct_health t = ''unhealthy'')) (Fin 1)
         (ct_health t = ''unhealthy''))\<lparr>ev_resource := ct_name t\<rparr>]"

definition http_rules :: "server_config \<Rightarrow> string \<Rightarrow> http_status \<Rightarrow> rule_evaluation list" where
  "http_rules c agent h =
     [(rule agent ''http_failed'' Critical (float_of_int (hs_status_code h)) (Fin 399) (\<not> hs_ok h))
        \<lparr>ev_resource := hs_name h, ev_consecutive := sc_http_failure_count c\<rparr>] @
     (case hs_tls_days_left h of
        None \<Rightarrow> []
      | Some days \<Rightarrow>
          [(rule agent ''tls_expiring'' (if fle days (sc_tls_critical_days c) then Critical else Warning) days
              (sc_tls_warning_days c) (fle days (sc_tls_warning_days c)))\<lparr>ev_resource := hs_name h\<rparr>])"

definition report_rules :: "server_config \<Rightarrow> report \<Rightarrow> rule_evaluation list" where
  "report_rules c r = usage_rules c r @
     concat (map (filesystem_rules c (rep_agent_id r)) (rep_filesystems r)) @
     concat (map (service_rules (rep_agent_id r)) (rep_services r)) @
     concat (map (container_rules (rep_agent_id r)) (dk_containers (rep_docker r))) @
     concat (map (http_rules c (rep_agent_id r)) (rep_http_checks r))"

subsection \<open>Applying rules\<close>

text \<open>The loop over rules, for any operation that applies one: it ends at the first error.\<close>

fun apply_each :: "(faults \<Rightarrow> rule_evaluation \<Rightarrow> gotime \<Rightarrow> gotime \<Rightarrow> 'd \<Rightarrow> (db_error + bool) \<times> 'd) \<Rightarrow>
    store_io \<Rightarrow> nat \<Rightarrow> rule_evaluation list \<Rightarrow> gotime \<Rightarrow> 'd \<Rightarrow> db_error option \<times> 'd" where
  "apply_each apply io n [] now d = (None, d)"
| "apply_each apply io n (e # es) now d =
     (case apply (fst (io n)) e now (snd (io n)) d of
        (Inl err, d') \<Rightarrow> (Some err, d')
      | (Inr _, d') \<Rightarrow> apply_each apply io (Suc n) es now d')"

subsection \<open>Resolving what is missing\<close>

text \<open>The last check or service of a name, as the source's maps keep it.\<close>

definition http_resource :: "report \<Rightarrow> string \<Rightarrow> http_status option" where
  "http_resource r name = find (\<lambda>h. hs_name h = name) (rev (rep_http_checks r))"

definition service_resource :: "report \<Rightarrow> string \<Rightarrow> service_status option" where
  "service_resource r name = find (\<lambda>s. svc_name s = name) (rev (rep_services r))"

text \<open>The \<open>switch\<close> that decides whether an open alert that no rule looked at is resolved.\<close>

definition resolvable :: "report \<Rightarrow> string \<Rightarrow> string \<Rightarrow> bool" where
  "resolvable r key resource =
     (if key \<in> set [''disk_warning'', ''disk_critical'', ''http_failed''] then True
      else if key = ''systemd_unavailable'' then
        (case service_resource r resource of None \<Rightarrow> True | Some s \<Rightarrow> service_state_known s)
      else if key \<in> set [''docker_stopped'', ''docker_unhealthy''] then
        \<not> dk_enabled (rep_docker r) \<or> dk_available (rep_docker r)
      else if key = ''tls_expiring'' then
        (case http_resource r resource of None \<Rightarrow> True | Some h \<Rightarrow> has_prefix (hs_url h) ''http://'')
      else False)"

definition resolution :: "alert \<Rightarrow> rule_evaluation" where
  "resolution a = (rule (al_agent_id a) (al_rule_key a) (al_severity a) (Fin 0) (al_threshold a) False)
     \<lparr>ev_resource := al_resource a\<rparr>"

definition seen_keys :: "rule_evaluation list \<Rightarrow> string list" where
  "seen_keys rules = map (\<lambda>e. rule_key (ev_rule_key e) (ev_resource e)) rules"

definition to_resolve :: "report \<Rightarrow> string list \<Rightarrow> alert \<Rightarrow> bool" where
  "to_resolve r seen a \<longleftrightarrow> al_agent_id a = rep_agent_id r \<and> rule_key (al_rule_key a) (al_resource a) \<notin> set seen \<and>
     resolvable r (al_rule_key a) (al_resource a)"

definition resolve_missing :: "store_io \<Rightarrow> nat \<Rightarrow> report \<Rightarrow> string list \<Rightarrow> gotime \<Rightarrow> db \<Rightarrow> db_error option \<times> db" where
  "resolve_missing io n r seen now d =
     (case active_alerts (fst (io n)) d of
        Inl err \<Rightarrow> (Some err, d)
      | Inr active \<Rightarrow>
          apply_each apply_rule io (Suc n) (map resolution (filter (to_resolve r seen) active)) now d)"

definition evaluate_report :: "server_config \<Rightarrow> store_io \<Rightarrow> report \<Rightarrow> gotime \<Rightarrow> db \<Rightarrow> db_error option \<times> db" where
  "evaluate_report c io r now d =
     (let rules = report_rules c r in
      case apply_each apply_rule io 0 rules now d of
        (Some err, d') \<Rightarrow> (Some err, d')
      | (None, d') \<Rightarrow> resolve_missing io (length rules) r (seen_keys rules) now d')"

subsection \<open>Silence\<close>

definition silence :: "gotime \<Rightarrow> gotime \<Rightarrow> float64" where
  "silence now last_seen =
     (let seconds = dur_seconds (time_sub now last_seen) in if flt seconds (Fin 0) then Fin 0 else seconds)"

definition offline_rule :: "server_config \<Rightarrow> gotime \<Rightarrow> string \<times> gotime \<Rightarrow> rule_evaluation" where
  "offline_rule c now x = (case x of (agent, last_seen) \<Rightarrow>
     rule agent ''agent_offline'' Critical (silence now last_seen) (dur_seconds (sc_agent_offline_after c))
       (flt (dur_seconds (sc_agent_offline_after c)) (silence now last_seen)))"

definition evaluate_offline :: "server_config \<Rightarrow> store_io \<Rightarrow> gotime \<Rightarrow> db \<Rightarrow> db_error option \<times> db" where
  "evaluate_offline c io now d =
     (case agent_last_seen (fst (io 0)) d of
        Inl err \<Rightarrow> (Some err, d)
      | Inr agents \<Rightarrow> apply_each apply_rule io 1 (map (offline_rule c now) agents) now d)"

definition resolve_online :: "server_config \<Rightarrow> store_io \<Rightarrow> string \<Rightarrow> gotime \<Rightarrow> db \<Rightarrow> db_error option \<times> db" where
  "resolve_online c io agent now d =
     apply_each apply_rule io 0
       [rule agent ''agent_offline'' Critical (Fin 0) (dur_seconds (sc_agent_offline_after c)) False] now d"

subsection \<open>The store the engine relies on\<close>

text \<open>
  What the engine needs of the store: applying a rule takes the life of its key one step, or fails and
  changes nothing; all other keys keep theirs.
\<close>

type_synonym rule_id = "string \<times> string \<times> string"

definition rule_id :: "rule_evaluation \<Rightarrow> rule_id" where
  "rule_id e = (ev_agent_id e, ev_rule_key e, ev_resource e)"

text \<open>What a list of rules makes of the life of one key.\<close>

definition lives_after :: "rule_evaluation list \<Rightarrow> gotime \<Rightarrow> rule_id \<Rightarrow> life \<Rightarrow> life" where
  "lives_after es now i l = fold (\<lambda>e. life_step e now) (filter (\<lambda>e. rule_id e = i) es) l"

locale rule_store =
  fixes app :: "faults \<Rightarrow> rule_evaluation \<Rightarrow> gotime \<Rightarrow> gotime \<Rightarrow> 'd \<Rightarrow> (db_error + bool) \<times> 'd"
    and life :: "'d \<Rightarrow> rule_id \<Rightarrow> life"
    and ok :: "'d \<Rightarrow> bool"
  assumes step: "ok d \<Longrightarrow> app fails e now clock d = (Inr c, d') \<Longrightarrow> life d' (rule_id e) = life_step e now (life d (rule_id e))"
    and frame: "ok d \<Longrightarrow> app fails e now clock d = (Inr c, d') \<Longrightarrow> i \<noteq> rule_id e \<Longrightarrow> life d' i = life d i"
    and stays_ok: "ok d \<Longrightarrow> app fails e now clock d = (Inr c, d') \<Longrightarrow> ok d'"
    and error: "app fails e now clock d = (Inl err, d') \<Longrightarrow> d' = d"
begin

lemma apply_each_ok: "ok d \<Longrightarrow> ok (snd (apply_each app io n es now d))"
proof (induction es arbitrary: n d)
  case (Cons e es)
  then show ?case using stays_ok error by (auto split: prod.splits sum.splits) metis
qed simp

lemma apply_each_life:
  "ok d \<Longrightarrow> apply_each app io n es now d = (None, d') \<Longrightarrow> life d' i = lives_after es now i (life d i)"
proof (induction es arbitrary: n d)
  case Nil
  then show ?case by (simp add: lives_after_def)
next
  case (Cons e es)
  obtain x d1 where a: "app (fst (io n)) e now (snd (io n)) d = (x, d1)" by force
  with Cons.prems obtain c where x: "x = Inr c" and rest: "apply_each app io (Suc n) es now d1 = (None, d')"
    by (auto split: sum.splits)
  note a = a [unfolded x]
  have "life d' i = lives_after es now i (life d1 i)"
    by (rule Cons.IH [OF stays_ok [OF Cons.prems(1) a] rest])
  moreover have "life d1 i = (if rule_id e = i then life_step e now (life d i) else life d i)"
    using step [OF Cons.prems(1) a] frame [OF Cons.prems(1) a, of i] by auto
  ultimately show ?case by (simp add: lives_after_def)
qed

text \<open>A key that no rule of the list has keeps its life, even when the loop ends early.\<close>

lemma apply_each_frame:
  "ok d \<Longrightarrow> i \<notin> rule_id ` set es \<Longrightarrow> life (snd (apply_each app io n es now d)) i = life d i"
proof (induction es arbitrary: n d)
  case (Cons e es)
  obtain x d1 where a: "app (fst (io n)) e now (snd (io n)) d = (x, d1)" by force
  show ?case
  proof (cases x)
    case (Inl err)
    then show ?thesis using a error [OF a [unfolded Inl]] by simp
  next
    case (Inr c)
    note a = a [unfolded Inr]
    have "i \<noteq> rule_id e" "i \<notin> rule_id ` set es" using Cons.prems by auto
    then show ?thesis using Cons.IH [OF stays_ok [OF Cons.prems(1) a], of "Suc n"] frame [OF Cons.prems(1) a, of i] a
      by simp
  qed
qed simp

end

definition db_life :: "db \<Rightarrow> rule_id \<Rightarrow> life" where
  "db_life d i = (case i of (a, k, s) \<Rightarrow> life_of (active_at d a k s))"

lemma apply_rule_frame:
  assumes "alerts_ok d" "apply_rule fails e now clock d = (Inr c, d')" "(a, k, s) \<noteq> rule_id e"
  shows "active_at d' a k s = active_at d a k s"
  using apply_rule_effect [OF assms(1,2)] assms(3) unfolding rule_effect_def rule_id_def by blast

interpretation rules: rule_store apply_rule db_life alerts_ok
proof
  show "\<And>d fails e now clock c d'. alerts_ok d \<Longrightarrow> apply_rule fails e now clock d = (Inr c, d') \<Longrightarrow>
      db_life d' (rule_id e) = life_step e now (db_life d (rule_id e))"
    using apply_rule_effect by (simp add: rule_effect_def db_life_def rule_id_def select_active_at)
  show "\<And>d fails e now clock c d' i. alerts_ok d \<Longrightarrow> apply_rule fails e now clock d = (Inr c, d') \<Longrightarrow>
      i \<noteq> rule_id e \<Longrightarrow> db_life d' i = db_life d i"
    using apply_rule_frame by (auto simp: db_life_def)
  show "\<And>d fails e now clock c d'. alerts_ok d \<Longrightarrow> apply_rule fails e now clock d = (Inr c, d') \<Longrightarrow> alerts_ok d'"
    using apply_rule_effect by (simp add: rule_effect_def)
qed (rule apply_rule_error)


subsection \<open>What an evaluation does\<close>

lemma life_step_unviolated [simp]: "\<not> ev_violated e \<Longrightarrow> life_step e now l = Idle"
  by (cases l) auto

lemma life_step_violated: "ev_violated e \<Longrightarrow> life_step e now l \<noteq> Idle"
  by (cases l) auto

lemma lives_after_none: "i \<notin> rule_id ` set es \<Longrightarrow> lives_after es now i l = l"
  by (induction es arbitrary: l) (auto simp: lives_after_def)

lemma lives_after_agree:
  "i \<in> rule_id ` set es \<Longrightarrow> \<forall>e \<in> set es. rule_id e = i \<longrightarrow> ev_violated e = v \<Longrightarrow>
    lives_after es now i l \<noteq> Idle \<longleftrightarrow> v"
proof (induction es arbitrary: l)
  case (Cons e es)
  have step: "lives_after (e # es) now i l = lives_after es now i (if rule_id e = i then life_step e now l else l)"
    by (simp add: lives_after_def)
  show ?case
  proof (cases "i \<in> rule_id ` set es")
    case True
    then show ?thesis unfolding step using Cons.IH Cons.prems(2) by simp
  next
    case False
    then have e: "rule_id e = i" "ev_violated e = v" using Cons.prems by auto
    then show ?thesis unfolding step using lives_after_none [OF False]
      by (cases v) (simp_all add: life_step_violated)
  qed
qed simp

lemma db_life_Idle: "db_life d (a, k, s) = Idle \<longleftrightarrow> active_at d a k s = None"
  by (auto simp: db_life_def life_of_def split: option.splits if_splits)

lemma report_rules_agent: "e \<in> set (report_rules c r) \<Longrightarrow> ev_agent_id e = rep_agent_id r"
  by (auto simp: report_rules_def usage_rules_def filesystem_rules_def service_rules_def container_rules_def
      http_rules_def rule_def split: if_splits option.splits)

lemma resolve_missing_life:
  assumes ok: "alerts_ok d" and r: "resolve_missing io n r seen now d = (None, d')"
  shows "alerts_ok d' \<and> db_life d' (a, k, s) =
    (if a = rep_agent_id r \<and> rule_key k s \<notin> set seen \<and> resolvable r k s then Idle else db_life d (a, k, s))"
proof -
  obtain active where act: "active_alerts (fst (io n)) d = Inr active"
      and each: "apply_each apply_rule io (Suc n) (map resolution (filter (to_resolve r seen) active)) now d = (None, d')"
    using r by (auto simp: resolve_missing_def split: sum.splits)
  let ?es = "map resolution (filter (to_resolve r seen) active)"
  have set: "set active = scan_alert ` {q \<in> set (db_alerts d). active_row q}"
    using act by (auto simp: active_alerts_def query_alerts_def descending_def split: if_splits)
  have life: "db_life d' (a, k, s) = lives_after ?es now (a, k, s) (db_life d (a, k, s))"
    by (rule rules.apply_each_life [OF ok each])
  have ok': "alerts_ok d'" using rules.apply_each_ok [OF ok, of io "Suc n" ?es now] each by simp
  have unv: "\<forall>e \<in> set ?es. \<not> ev_violated e" by (auto simp: resolution_def rule_def)
  have id: "(a, k, s) \<in> rule_id ` set ?es \<longleftrightarrow>
      a = rep_agent_id r \<and> rule_key k s \<notin> set seen \<and> resolvable r k s \<and> active_at d a k s \<noteq> None"
  proof -
    have "(a, k, s) \<in> rule_id ` set ?es \<longleftrightarrow> (\<exists>q \<in> set (db_alerts d). active_row q \<and> to_resolve r seen (scan_alert q) \<and>
        ar_agent_id q = a \<and> ar_rule_key q = k \<and> ar_resource q = s)"
      by (auto simp: set resolution_def rule_id_def rule_def image_iff)
    also have "\<dots> \<longleftrightarrow> (\<exists>q \<in> set (db_alerts d). active_row q \<and> row_of a k s q) \<and>
        a = rep_agent_id r \<and> rule_key k s \<notin> set seen \<and> resolvable r k s"
      by (auto simp: to_resolve_def row_of_def)
    also have "(\<exists>q \<in> set (db_alerts d). active_row q \<and> row_of a k s q) \<longleftrightarrow> active_at d a k s \<noteq> None"
      using active_at_None [OF ok, of a k s] by metis
    finally show ?thesis by blast
  qed
  show ?thesis
  proof (cases "(a, k, s) \<in> rule_id ` set ?es")
    case True
    have "\<not> (lives_after ?es now (a, k, s) (db_life d (a, k, s)) \<noteq> Idle)"
      using lives_after_agree [OF True, of False] unv by simp
    then show ?thesis using life ok' True id by simp
  next
    case False
    then have same: "db_life d' (a, k, s) = db_life d (a, k, s)" using life lives_after_none by simp
    have "active_at d a k s = None \<Longrightarrow> db_life d (a, k, s) = Idle" by (simp add: db_life_Idle)
    then show ?thesis using same ok' False id by auto
  qed
qed

lemma evaluate_report_life:
  assumes ok: "alerts_ok d" and e: "evaluate_report c io r now d = (None, d')"
  shows "alerts_ok d' \<and> db_life d' (a, k, s) =
    (if a \<noteq> rep_agent_id r then db_life d (a, k, s)
     else if rule_key k s \<in> set (seen_keys (report_rules c r))
     then lives_after (report_rules c r) now (a, k, s) (db_life d (a, k, s))
     else if resolvable r k s then Idle else db_life d (a, k, s))"
proof -
  let ?rules = "report_rules c r"
  obtain d1 where d1: "apply_each apply_rule io 0 ?rules now d = (None, d1)"
      and res: "resolve_missing io (length ?rules) r (seen_keys ?rules) now d1 = (None, d')"
    using e by (auto simp: evaluate_report_def Let_def split: prod.splits option.splits)
  have ok1: "alerts_ok d1" using rules.apply_each_ok [OF ok, of io 0 ?rules now] d1 by simp
  have life: "db_life d1 (a, k, s) = lives_after ?rules now (a, k, s) (db_life d (a, k, s))"
    by (rule rules.apply_each_life [OF ok d1])
  have "(a, k, s) \<in> rule_id ` set ?rules \<Longrightarrow> a = rep_agent_id r \<and> rule_key k s \<in> set (seen_keys ?rules)"
    using report_rules_agent by (auto simp: rule_id_def seen_keys_def)
  then have "a \<noteq> rep_agent_id r \<or> rule_key k s \<notin> set (seen_keys ?rules) \<Longrightarrow>
      lives_after ?rules now (a, k, s) l = l" for l
    using lives_after_none by blast
  then show ?thesis using resolve_missing_life [OF ok1 res] life by auto
qed

text \<open>The alert of a rule is open after the evaluation exactly when the rule is violated.\<close>

lemma evaluate_report_open:
  assumes ok: "alerts_ok d" and ev: "evaluate_report c io r now d = (None, d')"
    and e: "e \<in> set (report_rules c r)"
    and agree: "\<forall>e' \<in> set (report_rules c r). rule_id e' = rule_id e \<longrightarrow> ev_violated e' = ev_violated e"
  shows "active_at d' (rep_agent_id r) (ev_rule_key e) (ev_resource e) \<noteq> None \<longleftrightarrow> ev_violated e"
proof -
  have id: "rule_id e = (rep_agent_id r, ev_rule_key e, ev_resource e)"
    using report_rules_agent [OF e] by (simp add: rule_id_def)
  have "rule_key (ev_rule_key e) (ev_resource e) \<in> set (seen_keys (report_rules c r))"
    using e by (auto simp: seen_keys_def)
  then have "db_life d' (rep_agent_id r, ev_rule_key e, ev_resource e) =
      lives_after (report_rules c r) now (rule_id e) (db_life d (rule_id e))"
    using evaluate_report_life [OF ok ev, of "rep_agent_id r" "ev_rule_key e" "ev_resource e"] id by simp
  moreover have "lives_after (report_rules c r) now (rule_id e) l \<noteq> Idle \<longleftrightarrow> ev_violated e" for l
    by (rule lives_after_agree [OF _ agree]) (use e in blast)
  ultimately show ?thesis using db_life_Idle by metis
qed

end
