(* ===== verification/Store.thy ===== *)
theory Store
  imports Report_Store Alert_Life
begin

text \<open>
  The database as a whole: its invariant, kept by every operation of \<open>internal/storage\<close> whatever
  statement fails, and what the operations on reports, tokens and preferences guarantee.
\<close>

subsection \<open>The invariant of agents, tokens and reports\<close>

definition row_before :: "report_row \<Rightarrow> report_row \<Rightarrow> bool" where
  "row_before r q \<longleftrightarrow> rr_id r < rr_id q \<and> (rr_agent_id r = rr_agent_id q \<longrightarrow> rr_sequence r < rr_sequence q)"

definition reports_ok :: "db \<Rightarrow> bool" where
  "reports_ok d \<longleftrightarrow> sorted_wrt row_before (db_reports d) \<and>
     (\<forall>r \<in> set (db_reports d). rr_id r < db_next_report d \<and>
        (\<exists>g. amap_get (db_agents d) (rr_agent_id r) = Some g \<and> rr_sequence r \<le> gr_last_sequence g) \<and>
        rr_measured_at r \<in> range rfc3339_nano) \<and>
     distinct (db_tokens d) \<and> (\<forall>t \<in> set (db_tokens d). amap_get (db_agents d) (fst t) \<noteq> None)"

definition db_ok :: "db \<Rightarrow> bool" where
  "db_ok d \<longleftrightarrow> alerts_ok d \<and> reports_ok d"

text \<open>Agents are only added, and their sequence never goes back.\<close>

definition agents_grow :: "db \<Rightarrow> db \<Rightarrow> bool" where
  "agents_grow d d' \<longleftrightarrow> (\<forall>a g. amap_get (db_agents d) a = Some g \<longrightarrow>
     (\<exists>g'. amap_get (db_agents d') a = Some g' \<and> gr_last_sequence g \<le> gr_last_sequence g'))"

lemma agents_grow_refl [simp]: "agents_grow d d"
  by (simp add: agents_grow_def)

lemma agents_grow_trans: "agents_grow a b \<Longrightarrow> agents_grow b c \<Longrightarrow> agents_grow a c"
  by (fastforce simp: agents_grow_def intro: order_trans)

lemma alerts_ok_grow:
  "alerts_ok d \<Longrightarrow> agents_grow d d' \<Longrightarrow> db_alerts d' = db_alerts d \<Longrightarrow> db_next_alert d' = db_next_alert d \<Longrightarrow>
    alerts_ok d'"
  by (fastforce simp: alerts_ok_def agents_grow_def)

lemma reports_ok_grow:
  "reports_ok d \<Longrightarrow> agents_grow d d' \<Longrightarrow> db_reports d' = db_reports d \<Longrightarrow> db_next_report d' = db_next_report d \<Longrightarrow>
    db_tokens d' = db_tokens d \<Longrightarrow> reports_ok d'"
  by (fastforce simp: reports_ok_def agents_grow_def intro: order_trans)

subsection \<open>Tokens\<close>

lemma sync_loop_effect:
  assumes "sync_loop fails items d = Inr d'"
  shows "agents_grow d d' \<and> db_tokens d' = db_tokens d @ items \<and>
    db_alerts d' = db_alerts d \<and> db_next_alert d' = db_next_alert d \<and> db_reports d' = db_reports d \<and>
    db_next_report d' = db_next_report d \<and> db_audit d' = db_audit d \<and> db_preferences d' = db_preferences d \<and>
    db_hourly d' = db_hourly d \<and>
    (distinct (db_tokens d) \<longrightarrow> distinct (db_tokens d')) \<and>
    (\<forall>t \<in> set items. amap_get (db_agents d') (fst t) \<noteq> None)"
  using assms
proof (induction fails items d rule: sync_loop.induct)
  case (2 fails agent hash items d)
  let ?d1 = "if amap_get (db_agents d) agent = None
      then d\<lparr>db_agents := amap_put agent \<lparr>gr_last_sequence = 0, gr_last_seen = None\<rparr> (db_agents d)\<rparr> else d"
  let ?d2 = "?d1\<lparr>db_tokens := db_tokens ?d1 @ [(agent, hash)]\<rparr>"
  have c: "\<not> (agent = [] \<or> hash = [])" "\<not> fails (InsertAgent agent)" "\<not> fails (InsertToken agent hash)"
      "(agent, hash) \<notin> set (db_tokens ?d1)" "sync_loop fails items ?d2 = Inr d'"
    using "2.prems" by (auto simp: Let_def split: if_splits)
  note ih = "2.IH" [OF c(1,2) refl c(3,4,5)]
  have g: "agents_grow d ?d2" "amap_get (db_agents ?d2) agent \<noteq> None"
    by (auto simp: agents_grow_def amap.get_put)
  then have "amap_get (db_agents d') agent \<noteq> None" using ih by (force simp: agents_grow_def)
  moreover have "agents_grow d d'" using g(1) ih agents_grow_trans by blast
  ultimately show ?case using ih c(4) by auto
qed simp

lemma sync_agents_cases:
  assumes "sync_agents fails tokens d = (err, d')"
  shows "(err \<noteq> None \<and> d' = d) \<or>
    (err = None \<and> agents_grow d d' \<and> db_tokens d' = tokens \<and> distinct tokens \<and>
      (\<forall>t \<in> set tokens. amap_get (db_agents d') (fst t) \<noteq> None) \<and>
      db_alerts d' = db_alerts d \<and> db_next_alert d' = db_next_alert d \<and> db_reports d' = db_reports d \<and>
      db_next_report d' = db_next_report d)"
proof -
  have g: "agents_grow (d\<lparr>db_tokens := []\<rparr>) x \<Longrightarrow> agents_grow d x" for x by (simp add: agents_grow_def)
  show ?thesis using assms sync_loop_effect [of fails tokens "d\<lparr>db_tokens := []\<rparr>"]
    by (auto simp: sync_agents_def g split: sum.splits if_splits)
qed

lemma sync_agents_ok [inv_intros]: "db_ok d \<Longrightarrow> db_ok (snd (sync_agents fails tokens d))"
proof -
  assume ok: "db_ok d"
  obtain err d' where s: "sync_agents fails tokens d = (err, d')" by force
  from sync_agents_cases [OF s] show ?thesis
  proof
    assume e: "err = None \<and> agents_grow d d' \<and> db_tokens d' = tokens \<and> distinct tokens \<and>
      (\<forall>t \<in> set tokens. amap_get (db_agents d') (fst t) \<noteq> None) \<and>
      db_alerts d' = db_alerts d \<and> db_next_alert d' = db_next_alert d \<and> db_reports d' = db_reports d \<and>
      db_next_report d' = db_next_report d"
    then have "alerts_ok d'" using ok alerts_ok_grow by (auto simp: db_ok_def)
    moreover have "reports_ok d'" using ok e by (fastforce simp: db_ok_def reports_ok_def agents_grow_def intro: order_trans)
    ultimately show ?thesis using s by (simp add: db_ok_def)
  qed (use ok s in simp)
qed

subsection \<open>Reports\<close>

lemma save_report_cases:
  assumes "save_report fails encode r seen received d = (err, d')"
  obtains (refused) "err \<noteq> None" "d' = d"
    | (saved) payload g where "err = None" "encode r = Some payload"
      "amap_get (db_agents d) (rep_agent_id r) = Some g" "gr_last_sequence g < uint (rep_sequence r)"
      "d' = d\<lparr>db_agents := amap_put (rep_agent_id r)
            \<lparr>gr_last_sequence = uint (rep_sequence r), gr_last_seen = Some (rfc3339_nano seen)\<rparr> (db_agents d),
          db_reports := db_reports d @ [report_row_of r payload received (db_next_report d)],
          db_next_report := Suc (db_next_report d)\<rparr>"
  using assms
  by (auto simp: save_report_def Let_def split: option.splits if_splits)

lemma saved_grow:
  assumes "amap_get (db_agents d) a = Some g" "gr_last_sequence g \<le> gr_last_sequence g'"
  shows "agents_grow d (d\<lparr>db_agents := amap_put a g' (db_agents d), db_reports := rs, db_next_report := n\<rparr>)"
  using assms by (auto simp: agents_grow_def amap.get_put)

lemma save_report_ok [inv_intros]:
  assumes "db_ok d"
  shows "db_ok (snd (save_report fails encode r seen received d))"
proof -
  obtain err d' where s: "save_report fails encode r seen received d = (err, d')" by force
  then show ?thesis
  proof (cases rule: save_report_cases)
    case (saved payload g)
    have grow: "agents_grow d d'" unfolding saved(5) by (rule saved_grow [OF saved(3)]) (use saved(4) in simp)
    have "alerts_ok d'" by (rule alerts_ok_grow [OF _ grow]) (use assms saved(5) in \<open>simp_all add: db_ok_def\<close>)
    moreover have "reports_ok d'"
    proof -
      let ?row = "report_row_of r payload received (db_next_report d)"
      have rs: "reports_ok d" using assms by (simp add: db_ok_def)
      have row: "rr_id ?row = db_next_report d" "rr_agent_id ?row = rep_agent_id r"
          "rr_sequence ?row = uint (rep_sequence r)"
          "rr_measured_at ?row \<in> range rfc3339_nano"
        by (simp_all add: report_row_of_def)
      have "\<forall>q \<in> set (db_reports d). row_before q ?row"
        using rs saved(3,4) row by (force simp: reports_ok_def row_before_def)
      then have "sorted_wrt row_before (db_reports d')"
        using rs saved(5) by (simp add: reports_ok_def sorted_wrt_append)
      moreover have "\<forall>q \<in> set (db_reports d'). rr_id q < db_next_report d' \<and>
          (\<exists>g. amap_get (db_agents d') (rr_agent_id q) = Some g \<and> rr_sequence q \<le> gr_last_sequence g) \<and>
          rr_measured_at q \<in> range rfc3339_nano"
        using rs saved(3,4,5) row grow
        by (fastforce simp: reports_ok_def agents_grow_def amap.get_put intro: order_trans)
      moreover have "\<forall>t \<in> set (db_tokens d'). amap_get (db_agents d') (fst t) \<noteq> None"
        using rs saved(5) by (auto simp: reports_ok_def amap.get_put)
      ultimately show ?thesis using rs saved(5) by (simp add: reports_ok_def)
    qed
    ultimately show ?thesis using s by (simp add: db_ok_def)
  qed (use assms s in simp)
qed

subsection \<open>Every operation\<close>

lemma apply_rule_tx_reports:
  assumes "apply_rule_tx fails e now clock d = Inr (c, d')"
  shows "db_reports d' = db_reports d \<and> db_next_report d' = db_next_report d \<and> db_tokens d' = db_tokens d"
proof -
  have a: "audited fails e s clock d0 = Inr (c, d') \<Longrightarrow>
      db_reports d' = db_reports d0 \<and> db_next_report d' = db_next_report d0 \<and> db_tokens d' = db_tokens d0" for s d0
    by (auto dest!: audited_Inr)
  have u: "db_reports (update_alerts P f d) = db_reports d \<and> db_next_report (update_alerts P f d) = db_next_report d \<and>
      db_tokens (update_alerts P f d) = db_tokens d" for P f by (simp add: update_alerts_def)
  show ?thesis
  proof (cases "select_active e d")
    case None
    then consider "d' = d" | d1 s where "insert_alert (new_row e now (db_next_alert d)) d = Some d1"
        "audited fails e s clock d1 = Inr (c, d')"
      using assms by (auto simp: apply_rule_tx_def split: if_splits option.splits)
    then show ?thesis
      by cases (auto simp: insert_alert_def split: if_splits dest!: a)
  next
    case (Some r)
    then consider s P f where "audited fails e s clock (update_alerts P f d) = Inr (c, d')"
      | P f where "d' = update_alerts P f d"
      using assms unfolding apply_rule_tx_def Let_def
      by (simp split: if_splits) blast+
    then show ?thesis
    proof cases
      case 1
      then show ?thesis using a u by metis
    next
      case 2
      then show ?thesis using u by simp
    qed
  qed
qed

lemma apply_rule_reports_ok: "reports_ok d \<Longrightarrow> reports_ok (snd (apply_rule fails e now clock d))"
proof (cases "apply_rule_tx fails e now clock d")
  case (Inl err)
  then show "reports_ok d \<Longrightarrow> ?thesis" by (simp add: apply_rule_def)
next
  case (Inr x)
  obtain c d' where x: "x = (c, d')" by force
  have "reports_ok d \<Longrightarrow> reports_ok d'"
    using apply_rule_tx_reports [of fails e now clock d c d'] apply_rule_tx_agents [of fails e now clock d c d'] Inr x
    by (simp add: reports_ok_def)
  then show "reports_ok d \<Longrightarrow> ?thesis" using Inr x by (simp add: apply_rule_def)
qed

definition maintained :: "db \<Rightarrow> db \<Rightarrow> bool" where
  "maintained d d' \<longleftrightarrow> (\<exists>hs P. d' = d\<lparr>db_hourly := hs, db_reports := filter P (db_reports d)\<rparr>)"

lemma maintain_cases:
  "maintain fails avg hour_text now raw agg d = (err, d') \<Longrightarrow> d' = d \<or> maintained d d'"
  by (auto simp: maintain_def maintained_def Let_def split: if_splits)

lemma maintained_ok: "maintained d d' \<Longrightarrow> db_ok d \<Longrightarrow> db_ok d'"
proof -
  assume m: "maintained d d'" and ok: "db_ok d"
  obtain hs P where d': "d' = d\<lparr>db_hourly := hs, db_reports := filter P (db_reports d)\<rparr>"
    using m by (auto simp: maintained_def)
  have "alerts_ok d'" using ok unfolding d' db_ok_def alerts_ok_def by simp
  moreover have "reports_ok d'"
    using ok unfolding d' db_ok_def reports_ok_def by (simp add: sorted_wrt_filter)
  ultimately show ?thesis by (simp add: db_ok_def)
qed

lemma maintain_ok [inv_intros]: "db_ok d \<Longrightarrow> db_ok (snd (maintain fails avg hour_text now raw agg d))"
proof -
  obtain err d' where m: "maintain fails avg hour_text now raw agg d = (err, d')" by force
  show "db_ok d \<Longrightarrow> ?thesis" using maintain_cases [OF m] maintained_ok m by auto
qed

record store_env =
  sv_encode :: "report \<Rightarrow> string option"
  sv_avg :: "float64 list \<Rightarrow> float64"
  sv_hour_text :: "stamp \<Rightarrow> stamp"

text \<open>The writing operations, each with the times it reads from the clock.\<close>

datatype store_op =
    SyncAgents "(string \<times> string) list"
  | SaveReport report gotime gotime
  | ApplyRule rule_evaluation gotime gotime
  | MarkDelivery alert notification gotime
  | Acknowledge nat string gotime gotime
  | Maintain gotime duration duration
  | SavePreferences preferences

fun store_do :: "store_env \<Rightarrow> faults \<Rightarrow> store_op \<Rightarrow> db \<Rightarrow> db" where
  "store_do p fails (SyncAgents tokens) d = snd (sync_agents fails tokens d)"
| "store_do p fails (SaveReport r seen received) d = snd (save_report fails (sv_encode p) r seen received d)"
| "store_do p fails (ApplyRule e now clock) d = snd (apply_rule fails e now clock d)"
| "store_do p fails (MarkDelivery a state now) d = snd (mark_alert_delivery fails a state now d)"
| "store_do p fails (Acknowledge n actor now clock) d = snd (acknowledge_alert fails n actor now clock d)"
| "store_do p fails (Maintain now raw agg) d = snd (maintain fails (sv_avg p) (sv_hour_text p) now raw agg d)"
| "store_do p fails (SavePreferences q) d = snd (save_notification_preferences fails q d)"

text \<open>A migrated, empty database, and what operations make of it.\<close>

definition db_empty :: db where
  "db_empty = \<lparr>db_agents = [], db_tokens = [], db_reports = [], db_next_report = 1, db_hourly = [],
     db_alerts = [], db_next_alert = 1, db_audit = [], db_preferences = None\<rparr>"

inductive db_reachable :: "store_env \<Rightarrow> db \<Rightarrow> bool" for p where
  empty: "db_reachable p db_empty"
| op: "db_reachable p d \<Longrightarrow> db_reachable p (store_do p fails x d)"

lemma update_alerts_reports_ok [simp]: "reports_ok (update_alerts P f d) = reports_ok d"
  by (simp add: reports_ok_def) (simp add: update_alerts_def)

lemma mark_reports_ok: "reports_ok d \<Longrightarrow> reports_ok (snd (mark_alert_delivery fails a state now d))"
  by (simp add: mark_alert_delivery_def mark_alert_notification_if_def)

lemma acknowledge_reports_ok: "reports_ok d \<Longrightarrow> reports_ok (snd (acknowledge_alert fails n actor now clock d))"
proof -
  have "reports_ok (d0\<lparr>db_audit := l\<rparr>) = reports_ok d0" for d0 l by (simp add: reports_ok_def)
  then show "reports_ok d \<Longrightarrow> ?thesis"
    by (auto simp: acknowledge_alert_def audit_tx_def Let_def split: sum.splits)
qed

lemma store_do_ok [inv_intros]: "db_ok d \<Longrightarrow> db_ok (store_do p fails x d)"
proof (cases x)
  case (MarkDelivery a state now)
  moreover assume "db_ok d"
  ultimately show ?thesis
    using mark_alerts_ok [of d "Some a"] mark_reports_ok by (simp add: db_ok_def mark_alert_delivery_def)
next
  case (SavePreferences q)
  moreover assume "db_ok d"
  ultimately show ?thesis by (simp add: db_ok_def save_notification_preferences_def alerts_ok_def reports_ok_def)
qed (auto simp: db_ok_def apply_rule_reports_ok acknowledge_reports_ok intro: apply_rule_ok acknowledge_alerts_ok
    intro!: sync_agents_ok [unfolded db_ok_def] save_report_ok [unfolded db_ok_def] maintain_ok [unfolded db_ok_def])

lemma db_reachable_ok: "db_reachable p d \<Longrightarrow> db_ok d"
proof (induction rule: db_reachable.induct)
  case empty
  then show ?case by (simp add: db_ok_def alerts_ok_def reports_ok_def db_empty_def)
qed (rule store_do_ok)


subsection \<open>Agents only grow\<close>

lemma store_do_grow: "agents_grow d (store_do p fails x d)"
proof (cases x)
  case (SyncAgents tokens)
  obtain err d' where s: "sync_agents fails tokens d = (err, d')" by force
  show ?thesis using sync_agents_cases [OF s] s SyncAgents by auto
next
  case (SaveReport r seen received)
  obtain err d' where s: "save_report fails (sv_encode p) r seen received d = (err, d')" by force
  then have "agents_grow d d'"
  proof (cases rule: save_report_cases)
    case (saved payload g)
    show ?thesis unfolding saved(5) by (rule saved_grow [OF saved(3)]) (use saved(4) in simp)
  qed simp
  then show ?thesis using s SaveReport by simp
next
  case (ApplyRule e now clock)
  then show ?thesis by (simp add: agents_grow_def apply_rule_agents)
next
  case (MarkDelivery a state now)
  then show ?thesis by (simp add: agents_grow_def mark_alert_delivery_def mark_alert_notification_if_def)
next
  case (Acknowledge n actor now clock)
  then show ?thesis
    by (auto simp: agents_grow_def acknowledge_alert_def audit_tx_def Let_def split: sum.splits)
next
  case (Maintain now raw agg)
  then show ?thesis by (simp add: agents_grow_def maintain_def Let_def)
next
  case (SavePreferences q)
  then show ?thesis by (simp add: agents_grow_def save_notification_preferences_def)
qed

text \<open>A series of operations, each with its own faults.\<close>

definition store_run :: "store_env \<Rightarrow> (faults \<times> store_op) list \<Rightarrow> db \<Rightarrow> db" where
  "store_run p xs d = fold (\<lambda>(fails, x). store_do p fails x) xs d"

lemma store_run_grow: "agents_grow d (store_run p xs d)"
proof (induction xs arbitrary: d)
  case Nil
  then show ?case by (simp add: store_run_def)
next
  case (Cons x xs)
  obtain fails y where x: "x = (fails, y)" by force
  show ?case
    using agents_grow_trans [OF store_do_grow [of d p fails y] Cons.IH] by (simp add: store_run_def x)
qed

lemma store_run_reachable: "db_reachable p d \<Longrightarrow> db_reachable p (store_run p xs d)"
proof (induction xs arbitrary: d)
  case Nil
  then show ?case by (simp add: store_run_def)
next
  case (Cons x xs)
  obtain fails y where x: "x = (fails, y)" by force
  show ?case
    using Cons.IH [OF db_reachable.op [OF Cons.prems, of fails y]] by (simp add: store_run_def x)
qed

subsection \<open>Properties\<close>

text \<open>Replay protection: a report is stored only when its sequence number is greater than every
  one stored for its agent, and then it is appended and the agent's number becomes its own; any error
  leaves the database as it was; and a report once accepted is never accepted again, whatever
  operations, with whatever failures, come in between.\<close>

theorem replay_protection:
  assumes "db_reachable p d" and "save_report fails (sv_encode p) r seen received d = (err, d')"
  shows "if err \<noteq> None then d' = d
    else (\<forall>q \<in> set (db_reports d). rr_agent_id q = rep_agent_id r \<longrightarrow> rr_sequence q < uint (rep_sequence r)) \<and>
      (\<exists>payload. sv_encode p r = Some payload \<and>
         db_reports d' = db_reports d @ [report_row_of r payload received (db_next_report d)]) \<and>
      (\<exists>g. amap_get (db_agents d') (rep_agent_id r) = Some g \<and> gr_last_sequence g = uint (rep_sequence r)) \<and>
      fst (save_report fails2 (sv_encode p) r seen2 received2 (store_run p xs d')) \<noteq> None"
  using assms(2)
proof (cases rule: save_report_cases)
  case (saved payload g)
  have ok: "reports_ok d" using db_reachable_ok [OF assms(1)] by (simp add: db_ok_def)
  have newer: "\<forall>q \<in> set (db_reports d). rr_agent_id q = rep_agent_id r \<longrightarrow> rr_sequence q < uint (rep_sequence r)"
    using ok saved(3,4) by (force simp: reports_ok_def)
  have last: "\<exists>g. amap_get (db_agents d') (rep_agent_id r) = Some g \<and> gr_last_sequence g = uint (rep_sequence r)"
    using saved(5) by (simp add: amap.get_put)
  let ?d2 = "store_run p xs d'"
  obtain g2 where g2: "amap_get (db_agents ?d2) (rep_agent_id r) = Some g2" "uint (rep_sequence r) \<le> gr_last_sequence g2"
    using last store_run_grow [of d' p xs] unfolding agents_grow_def by metis
  obtain err2 d3 where s2: "save_report fails2 (sv_encode p) r seen2 received2 ?d2 = (err2, d3)" by force
  have "err2 \<noteq> None"
    using s2 by (cases rule: save_report_cases) (use g2 in auto)
  then show ?thesis using saved newer last s2 by simp
qed simp

definition demo_env :: store_env where
  "demo_env = \<lparr>sv_encode = (\<lambda>_. Some ''payload''), sv_avg = hd, sv_hour_text = (\<lambda>(s, _). (s - s mod 3600, ''Z''))\<rparr>"

definition demo_synced :: db where
  "demo_synced = store_do demo_env (\<lambda>_. False) (SyncAgents [(''web'', ''hash'')]) db_empty"

lemma demo_synced_reachable: "db_reachable demo_env demo_synced"
  unfolding demo_synced_def by (intro db_reachable.intros)

lemma demo_synced_eval: "demo_synced = db_empty\<lparr>db_agents := [(''web'', \<lparr>gr_last_sequence = 0, gr_last_seen = None\<rparr>)],
    db_tokens := [(''web'', ''hash'')]\<rparr>"
  by (simp add: demo_synced_def sync_agents_def db_empty_def amap_defs)

theorem replay_protection_witness:
  "fst (save_report (\<lambda>_. False) (sv_encode demo_env) (zero_report ''web'' 7 1000) 0 0
     (store_run demo_env [((\<lambda>_. False), SyncAgents [])]
       (snd (save_report (\<lambda>_. False) (sv_encode demo_env) (zero_report ''web'' 7 1000) 0 0 demo_synced)))) \<noteq> None"
proof -
  obtain err d' where s: "save_report (\<lambda>_. False) (sv_encode demo_env) (zero_report ''web'' 7 1000) 0 0 demo_synced = (err, d')"
    by force
  have "err = None"
    using s by (simp add: save_report_def demo_synced_eval demo_env_def amap_get_def db_empty_def Let_def zero_report_def)
  then show ?thesis
    using replay_protection [OF demo_synced_reachable s, where ?fails2.0 = "\<lambda>_. False" and ?seen2.0 = 0
        and ?received2.0 = 0 and xs = "[((\<lambda>_. False), SyncAgents [])]"] s by simp
qed


text \<open>C15. The database stays well formed through every sequence of operations, whatever statements
  fail: there is at most one open alert per agent, rule and resource, every alert and token belongs to
  a known agent, alert ids are distinct, and the stored reports of an agent have increasing sequence
  numbers up to the agent's last one.\<close>

theorem reachable_db_ok:
  assumes "db_reachable p d"
  shows "distinct (map ar_id (db_alerts d)) \<and> distinct (db_tokens d) \<and>
    sorted_wrt (\<lambda>r q. rr_agent_id r = rr_agent_id q \<longrightarrow> rr_sequence r < rr_sequence q) (db_reports d) \<and>
    (\<forall>r \<in> set (db_reports d). \<exists>g. amap_get (db_agents d) (rr_agent_id r) = Some g \<and> rr_sequence r \<le> gr_last_sequence g) \<and>
    (\<forall>t \<in> set (db_tokens d). amap_get (db_agents d) (fst t) \<noteq> None) \<and>
    (\<forall>r \<in> set (db_alerts d). amap_get (db_agents d) (ar_agent_id r) \<noteq> None \<and> row_ok r) \<and>
    (\<forall>r \<in> set (db_alerts d). \<forall>q \<in> set (db_alerts d).
       active_row r \<and> active_row q \<and> same_key r q \<longrightarrow> r = q)"
proof -
  have ok: "alerts_ok d" "reports_ok d" using db_reachable_ok [OF assms] by (simp_all add: db_ok_def)
  have "sorted_wrt (\<lambda>r q. rr_agent_id r = rr_agent_id q \<longrightarrow> rr_sequence r < rr_sequence q) (db_reports d)"
    by (rule sorted_wrt_mono_rel [of _ row_before]) (use ok(2) in \<open>simp_all add: reports_ok_def row_before_def\<close>)
  then show ?thesis using ok unfolding alerts_ok_def reports_ok_def by blast
qed

theorem reachable_db_ok_witness: "distinct (db_tokens demo_synced) \<and> db_tokens demo_synced \<noteq> []"
  using reachable_db_ok [OF demo_synced_reachable] by (simp add: demo_synced_eval)

lemma sync_loop_succeeds:
  assumes calm: "\<forall>c. \<not> fails c"
  shows "(\<exists>d'. sync_loop fails items d = Inr d') \<longleftrightarrow>
    (\<forall>t \<in> set items. fst t \<noteq> [] \<and> snd t \<noteq> []) \<and> distinct items \<and> set items \<inter> set (db_tokens d) = {}"
proof (induction items arbitrary: d)
  case Nil
  then show ?case by simp
next
  case (Cons t items)
  obtain a h where t: "t = (a, h)" by force
  let ?d1 = "if amap_get (db_agents d) a = None
      then d\<lparr>db_agents := amap_put a \<lparr>gr_last_sequence = 0, gr_last_seen = None\<rparr> (db_agents d)\<rparr> else d"
  let ?d2 = "?d1\<lparr>db_tokens := db_tokens ?d1 @ [(a, h)]\<rparr>"
  have tok: "db_tokens ?d1 = db_tokens d" "db_tokens ?d2 = db_tokens d @ [(a, h)]" by simp_all
  have step: "sync_loop fails (t # items) d =
      (if a = [] \<or> h = [] then Inl BadArgument
       else if (a, h) \<in> set (db_tokens d) then Inl Constraint else sync_loop fails items ?d2)"
    using calm by (simp add: t Let_def)
  show ?case
  proof (cases "a = [] \<or> h = [] \<or> (a, h) \<in> set (db_tokens d)")
    case True
    then show ?thesis unfolding step by (auto simp: t)
  next
    case False
    then have eq: "sync_loop fails (t # items) d = sync_loop fails items ?d2" unfolding step by simp
    show ?thesis unfolding eq Cons.IH tok using False by (auto simp: t)
  qed
qed

text \<open>Synchronising the tokens with the configuration: without failing statements it succeeds exactly
  when the entries are complete and distinct; then an agent's hashes are the configured ones, an agent
  without a token has none, every configured agent is known, and nothing else changes, in particular no
  agent is forgotten and no sequence number goes back.  When it fails nothing changes.\<close>

theorem sync_agents_effect:
  assumes "sync_agents fails tokens d = (err, d')"
  shows "(err \<noteq> None \<longrightarrow> d' = d) \<and>
    ((\<forall>c. \<not> fails c) \<longrightarrow>
      (err = None \<longleftrightarrow> (\<forall>t \<in> set tokens. fst t \<noteq> [] \<and> snd t \<noteq> []) \<and> distinct tokens)) \<and>
    (err = None \<and> \<not> fails SelectTokens \<longrightarrow>
      (let hashes = map snd (filter (\<lambda>t. fst t = agent) tokens) in
       token_hashes fails agent d' = (if hashes = [] then Inl NoRows else Inr hashes)) \<and>
      (\<forall>t \<in> set tokens. amap_get (db_agents d') (fst t) \<noteq> None) \<and>
      (\<forall>g. amap_get (db_agents d) agent = Some g \<longrightarrow> (\<exists>g'. amap_get (db_agents d') agent = Some g' \<and>
         gr_last_sequence g \<le> gr_last_sequence g')) \<and>
      db_reports d' = db_reports d \<and> db_alerts d' = db_alerts d)"
proof -
  have ok: "err = None \<longleftrightarrow> (\<forall>t \<in> set tokens. fst t \<noteq> [] \<and> snd t \<noteq> []) \<and> distinct tokens" if c: "\<forall>c. \<not> fails c"
  proof -
    have "err = None \<longleftrightarrow> (\<exists>d'. sync_loop fails tokens (d\<lparr>db_tokens := []\<rparr>) = Inr d')"
      using assms c by (auto simp: sync_agents_def split: sum.splits)
    then show ?thesis using sync_loop_succeeds [OF c, of tokens "d\<lparr>db_tokens := []\<rparr>"] by simp
  qed
  from sync_agents_cases [OF assms] show ?thesis
  proof
    assume "err \<noteq> None \<and> d' = d"
    then show ?thesis using ok by auto
  next
    assume e: "err = None \<and> agents_grow d d' \<and> db_tokens d' = tokens \<and> distinct tokens \<and>
      (\<forall>t \<in> set tokens. amap_get (db_agents d') (fst t) \<noteq> None) \<and>
      db_alerts d' = db_alerts d \<and> db_next_alert d' = db_next_alert d \<and> db_reports d' = db_reports d \<and>
      db_next_report d' = db_next_report d"
    then show ?thesis using ok by (simp add: token_hashes_def agents_grow_def)
  qed
qed

theorem sync_agents_effect_witness:
  "token_hashes (\<lambda>_. False) ''web'' (snd (sync_agents (\<lambda>_. False) [(''web'', ''h1''), (''db'', ''h2'')] db_empty)) = Inr [''h1'']"
  using sync_agents_effect [of "\<lambda>_. False" "[(''web'', ''h1''), (''db'', ''h2'')]" db_empty None _ "''web''"]
  by (cases "sync_agents (\<lambda>_. False) [(''web'', ''h1''), (''db'', ''h2'')] db_empty")
    (simp add: sync_agents_def amap_defs db_empty_def token_hashes_def)

end
