(* ===== verification/Maintenance.thy ===== *)
theory Maintenance
  imports Store
begin

text \<open>
  The nightly side of the store: what \<open>Maintain\<close> makes of the hourly metrics and the raw reports, and
  which measurement \<open>PreviousReport\<close> finds.
\<close>

subsection \<open>Hourly rows by their key\<close>

definition hourly_at :: "db \<Rightarrow> string \<Rightarrow> stamp \<Rightarrow> hourly_row option" where
  "hourly_at d agent h = find (\<lambda>x. hourly_key x = (agent, h)) (db_hourly d)"

lemma find_map_same:
  "\<forall>x. P (f x) = P x \<Longrightarrow> find P (map f xs) = map_option f (find P xs)"
  by (induction xs) auto

lemma find_append: "find P (xs @ ys) = (case find P xs of None \<Rightarrow> find P ys | Some x \<Rightarrow> Some x)"
  by (induction xs) auto

lemma find_upsert:
  "find (\<lambda>x. hourly_key x = k) (upsert_hourly h hs) =
    (if hourly_key h = k then Some h else find (\<lambda>x. hourly_key x = k) hs)"
proof (cases "list_ex (\<lambda>x. hourly_key x = hourly_key h) hs")
  case True
  let ?f = "\<lambda>x. if hourly_key x = hourly_key h then h else x"
  have "find (\<lambda>x. hourly_key x = k) (map ?f hs) = map_option ?f (find (\<lambda>x. hourly_key x = k) hs)"
    by (rule find_map_same) simp
  moreover have "find (\<lambda>x. hourly_key x = k) hs \<noteq> None" if "hourly_key h = k"
    using True that by (auto simp: list_ex_iff find_None_iff)
  moreover have "find (\<lambda>x. hourly_key x = k) hs = Some x \<Longrightarrow> hourly_key x = k" for x
    using find_Some_mem by fast
  ultimately show ?thesis using True
    by (cases "find (\<lambda>x. hourly_key x = k) hs") (auto simp: upsert_hourly_def)
next
  case False
  then have "hourly_key h = k \<Longrightarrow> find (\<lambda>x. hourly_key x = k) hs = None"
    by (auto simp: list_ex_iff find_None_iff)
  then show ?thesis using False by (auto simp: upsert_hourly_def find_append split: option.splits)
qed

lemma find_fold_upsert:
  "distinct (map hourly_key gs) \<Longrightarrow> find (\<lambda>x. hourly_key x = k) (fold upsert_hourly gs hs) =
    (case find (\<lambda>x. hourly_key x = k) gs of None \<Rightarrow> find (\<lambda>x. hourly_key x = k) hs | Some g \<Rightarrow> Some g)"
proof (induction gs arbitrary: hs)
  case Nil
  then show ?case by simp
next
  case (Cons g gs)
  have "hourly_key g = k \<Longrightarrow> find (\<lambda>x. hourly_key x = k) gs = None"
    using Cons.prems by (auto simp: find_None_iff) (metis image_eqI)
  then show ?case using Cons by (auto simp: find_upsert split: option.splits)
qed

lemma hour_group_key [simp]: "hourly_key (hour_group avg a h rows) = (a, h)"
  by (simp add: hour_group_def hourly_key_def Let_def)

lemma hour_groups_keys:
  "map hourly_key (hour_groups avg ht rows) = remdups (map (\<lambda>r. (rr_agent_id r, ht (rr_measured_at r))) rows)"
  by (simp add: hour_groups_def comp_def case_prod_beta)

lemma find_hour_groups:
  "find (\<lambda>x. hourly_key x = (a, h)) (hour_groups avg ht rows) =
    (let mine = filter (\<lambda>r. rr_agent_id r = a \<and> ht (rr_measured_at r) = h) rows in
     if mine = [] then None else Some (hour_group avg a h mine))"
proof -
  let ?g = "\<lambda>(a, h). hour_group avg a h (filter (\<lambda>r. rr_agent_id r = a \<and> ht (rr_measured_at r) = h) rows)"
  have f: "find (\<lambda>x. hourly_key x = (a, h)) (map ?g ks) = (if (a, h) \<in> set ks then Some (?g (a, h)) else None)" for ks
    by (induction ks) auto
  show ?thesis unfolding hour_groups_def f Let_def by (auto simp: filter_empty_conv)
qed

lemma find_filter_key:
  "(\<And>x. P x \<Longrightarrow> Q x) \<Longrightarrow> find P (filter Q xs) = find P xs"
  by (induction xs) auto

subsection \<open>Properties\<close>



definition demo_rows :: "report_row list" where
  "demo_rows = [report_row_of (zero_report ''web'' 1 (600 * second)) ''p1'' 0 1,
     report_row_of (zero_report ''web'' 2 (3000 * second)) ''p2'' 0 2]"

definition demo_history :: db where
  "demo_history = db_empty\<lparr>db_reports := demo_rows\<rparr>"

definition hour_text_of :: "stamp \<Rightarrow> stamp" where
  "hour_text_of s = (fst s - fst s mod 3600, ''Z'')"


text \<open>An hour is aggregated again while any of its raw reports are left, and then only from those: of
  two reports in one hour, both counted by the run a day later, only one is counted once a run has
  deleted the older one, although the raw report is gone and the hourly row was complete.\<close>

theorem maintenance_forgets_samples:
  "let d1 = snd (maintain (\<lambda>_. False) avg hour_text_of (24 * hour + 30 * minute) (24 * hour) (48 * hour) demo_history);
       d2 = snd (maintain (\<lambda>_. False) avg hour_text_of (25 * hour + 30 * minute) (24 * hour) (48 * hour) d1) in
   map_option hr_samples (hourly_at d1 ''web'' (0, ''Z'')) = Some 2 \<and>
   map_option hr_samples (hourly_at d2 ''web'' (0, ''Z'')) = Some 1 \<and> db_reports d2 = []"
proof -
  define r1 r2 where "r1 = demo_rows ! 0" and "r2 = demo_rows ! 1"
  have r: "rr_agent_id r1 = ''web''" "rr_agent_id r2 = ''web''"
      "rr_measured_at r1 = (600, ''Z'')" "rr_measured_at r2 = (3000, ''Z'')"
    by (simp_all add: r1_def r2_def demo_rows_def report_row_of_def rfc3339_nano_def fraction_text_def second_def)
  have d: "db_reports demo_history = [r1, r2]" "db_hourly demo_history = []"
    by (simp_all add: demo_history_def r1_def r2_def demo_rows_def db_empty_def)
  have h: "hour_text_of (600, ''Z'') = (0, ''Z'')" "hour_text_of (3000, ''Z'') = (0, ''Z'')"
    by (simp_all add: hour_text_of_def)
  define d1 where "d1 = snd (maintain (\<lambda>_. False) avg hour_text_of (24 * hour + 30 * minute) (24 * hour) (48 * hour) demo_history)"
  define d2 where "d2 = snd (maintain (\<lambda>_. False) avg hour_text_of (25 * hour + 30 * minute) (24 * hour) (48 * hour) d1)"
  have t: "time_truncate (24 * hour + 30 * minute) hour = 24 * hour" "time_truncate (25 * hour + 30 * minute) hour = 25 * hour"
      "rfc3339 (24 * hour) = (86400, ''Z'')" "rfc3339 (25 * hour) = (90000, ''Z'')"
      "rfc3339_nano (time_add (24 * hour + 30 * minute) (- (24 * hour))) = (1800, ''Z'')"
      "rfc3339_nano (time_add (25 * hour + 30 * minute) (- (24 * hour))) = (5400, ''Z'')"
      "rfc3339 (time_add (24 * hour + 30 * minute) (- (48 * hour))) = (- 84600, ''Z'')"
      "rfc3339 (time_add (25 * hour + 30 * minute) (- (48 * hour))) = (- 81000, ''Z'')"
    by (simp_all add: time_truncate_def duration_defs rfc3339_def rfc3339_nano_def time_add_def fraction_text_def)
  have less: "stamp_less (600, ''Z'') (86400, ''Z'')" "stamp_less (3000, ''Z'') (86400, ''Z'')" "stamp_less (3000, ''Z'') (90000, ''Z'')"
      "stamp_less (600, ''Z'') (1800, ''Z'')" "\<not> stamp_less (3000, ''Z'') (1800, ''Z'')" "stamp_less (3000, ''Z'') (5400, ''Z'')"
      "\<not> stamp_less (0, ''Z'') (- 84600, ''Z'')" "\<not> stamp_less (0, ''Z'') (- 81000, ''Z'')"
    by (simp_all add: stamp_less_def)
  have g: "hr_hour_start (hour_group avg a x rows) = x" "hr_samples (hour_group avg a x rows) = int (length rows)" for a x rows
    by (simp_all add: hour_group_def Let_def)
  have d1: "db_hourly d1 = [hour_group avg ''web'' (0, ''Z'') [r1, r2]]" "db_reports d1 = [r2]"
    by (simp_all add: d1_def maintain_def Let_def d t r h less hour_groups_def upsert_hourly_def g)
  have d2: "db_hourly d2 = [hour_group avg ''web'' (0, ''Z'') [r2]]" "db_reports d2 = []"
    by (simp_all add: d2_def maintain_def Let_def d1 t r h less hour_groups_def upsert_hourly_def g)
  show ?thesis unfolding d1_def [symmetric] Let_def d2_def [symmetric] by (simp add: hourly_at_def d1 d2 g)
qed

lemma last_by_key:
  fixes f :: "'a \<Rightarrow> 'k::linorder"
  assumes "rev (sort_key f xs) = r # rs"
  shows "r \<in> set xs \<and> (\<forall>q \<in> set xs. f q \<le> f r)"
proof -
  have s: "sort_key f xs = rev rs @ [r]" using assms by (metis rev.simps(2) rev_rev_ident)
  have "sorted (map f (rev rs @ [r]))" unfolding s [symmetric] by simp
  then have "\<forall>q \<in> set (rev rs @ [r]). f q \<le> f r" by (auto simp: sorted_append)
  moreover have "set (rev rs @ [r]) = set xs" unfolding s [symmetric] by simp
  ultimately show ?thesis by auto
qed

text \<open>\<open>PreviousReport\<close> orders times by their texts.  When the measurements of an agent and the given
  time lie in different seconds it returns the latest measurement before that time, and finds none only
  when there is none.\<close>

theorem previous_report_chronological:
  assumes "db_reachable p d" and "\<not> fails SelectPrevious"
    and "\<forall>r \<in> set (db_reports d). rr_agent_id r = agent \<longrightarrow>
      parsed_or_zero (rr_measured_at r) div second \<noteq> before div second"
    and "\<forall>r \<in> set (db_reports d). \<forall>q \<in> set (db_reports d). rr_agent_id r = agent \<and> rr_agent_id q = agent \<and> r \<noteq> q \<longrightarrow>
      parsed_or_zero (rr_measured_at r) div second \<noteq> parsed_or_zero (rr_measured_at q) div second"
  shows "case previous_report fails decode agent before d of
      Inr x \<Rightarrow> (\<exists>r \<in> set (db_reports d). rr_agent_id r = agent \<and> parsed_or_zero (rr_measured_at r) < before \<and>
        decode (rr_payload r) = Some x \<and> (\<forall>q \<in> set (db_reports d). rr_agent_id q = agent \<and>
          parsed_or_zero (rr_measured_at q) < before \<longrightarrow> parsed_or_zero (rr_measured_at q) \<le> parsed_or_zero (rr_measured_at r)))
    | Inl e \<Rightarrow> e = DecodePayload \<or>
        (e = NoRows \<and> (\<forall>q \<in> set (db_reports d). rr_agent_id q = agent \<longrightarrow> before \<le> parsed_or_zero (rr_measured_at q)))"
proof -
  let ?at = "\<lambda>r. parsed_or_zero (rr_measured_at r)"
  let ?mine = "filter (\<lambda>r. rr_agent_id r = agent \<and> stamp_less (rr_measured_at r) (rfc3339_nano before)) (db_reports d)"
  have at: "rr_measured_at r = rfc3339_nano (?at r)" if "r \<in> set (db_reports d)" for r
  proof -
    have "rr_measured_at r \<in> range rfc3339_nano"
      using db_reachable_ok [OF assms(1)] that by (simp add: db_ok_def reports_ok_def)
    then show ?thesis by auto
  qed
  have mine: "r \<in> set ?mine \<longleftrightarrow> r \<in> set (db_reports d) \<and> rr_agent_id r = agent \<and> ?at r < before" for r
  proof (cases "r \<in> set (db_reports d) \<and> rr_agent_id r = agent")
    case True
    then have "stamp_less (rr_measured_at r) (rfc3339_nano before) \<longleftrightarrow> ?at r < before"
      using assms(3) at [of r] stamp_less_seconds [of "?at r" before] by metis
    then show ?thesis using True by simp
  qed auto
  show ?thesis
  proof (cases "rev (sort_key (\<lambda>r. (rr_measured_at r, rr_id r)) ?mine)")
    case Nil
    have "set ?mine = {}" using arg_cong [OF Nil, of set] by (simp only: set_rev set_sort list.set)
    then have empty: "?mine = []" by (simp only: set_empty)
    then have "previous_report fails decode agent before d = Inl NoRows"
      unfolding previous_report_def empty using assms(2) by simp
    moreover have "\<forall>q \<in> set (db_reports d). rr_agent_id q = agent \<longrightarrow> before \<le> ?at q"
      using mine \<open>set ?mine = {}\<close> by (metis empty_iff linorder_not_less)
    ultimately show ?thesis by simp
  next
    case (Cons r rs)
    note l = last_by_key [OF Cons]
    have "?at q \<le> ?at r" if q: "q \<in> set ?mine" for q
    proof (cases "q = r")
      case False
      have "(rr_measured_at q, rr_id q) \<le> (rr_measured_at r, rr_id r)" using l q by blast
      then have "fst (rr_measured_at q) \<le> fst (rr_measured_at r)" by (auto simp: less_eq_prod_def less_prod_def)
      moreover have "fst (rr_measured_at x) = ?at x div second" if "x \<in> set ?mine" for x
      proof -
        have x: "x \<in> set (db_reports d)" using mine that by blast
        show ?thesis by (subst at [OF x]) (simp add: rfc3339_nano_def)
      qed
      moreover have "?at q div second \<noteq> ?at r div second"
      proof -
        have "q \<in> set (db_reports d)" "r \<in> set (db_reports d)" "rr_agent_id q = agent" "rr_agent_id r = agent"
          using mine conjunct1 [OF l] q by blast+
        then show ?thesis using False assms(4) by blast
      qed
      moreover have "r \<in> set ?mine" by (rule conjunct1 [OF l])
      ultimately have "?at q div second < ?at r div second" using q by fastforce
      then show ?thesis by (metis less_le_not_le linorder_linear second_def zdiv_mono1 zero_less_numeral)
    qed simp
    then have greatest: "\<forall>q \<in> set (db_reports d). rr_agent_id q = agent \<and> ?at q < before \<longrightarrow> ?at q \<le> ?at r"
      using mine by blast
    have r: "r \<in> set (db_reports d)" "rr_agent_id r = agent" "?at r < before"
      using l mine by blast+
    have eq: "previous_report fails decode agent before d =
        (case decode (rr_payload r) of None \<Rightarrow> Inl DecodePayload | Some p \<Rightarrow> Inr p)"
      unfolding previous_report_def Cons using assms(2) by simp
    show ?thesis
    proof (cases "decode (rr_payload r)")
      case None
      then show ?thesis unfolding eq by simp
    next
      case (Some x)
      show ?thesis unfolding eq Some sum.case option.case
        by (rule bexI [of _ r]) (use greatest r Some in blast)+
    qed
  qed
qed

definition demo_saved :: db where
  "demo_saved = store_do demo_env (\<lambda>_. False) (SaveReport (zero_report ''web'' 2 (3000 * second)) 0 0)
     (store_do demo_env (\<lambda>_. False) (SaveReport (zero_report ''web'' 1 (600 * second)) 0 0) demo_synced)"

lemma demo_saved_reports: "db_reports demo_saved =
    [report_row_of (zero_report ''web'' 1 (600 * second)) ''payload'' 0 1,
     report_row_of (zero_report ''web'' 2 (3000 * second)) ''payload'' 0 2]"
  by (simp add: demo_saved_def demo_synced_eval db_empty_def save_report_def demo_env_def amap_defs Let_def
      zero_report_def report_row_of_def)

definition demo_report :: report where
  "demo_report = zero_report ''web'' 2 0"

theorem previous_report_chronological_witness:
  "previous_report (\<lambda>_. False) (\<lambda>_. Some demo_report) ''web'' (4000 * second) demo_saved = Inr demo_report"
proof -
  have reach: "db_reachable demo_env demo_saved"
    unfolding demo_saved_def by (intro db_reachable.op demo_synced_reachable)
  have s: "\<forall>r \<in> set (db_reports demo_saved). rr_agent_id r = ''web'' \<longrightarrow>
      parsed_or_zero (rr_measured_at r) div second \<noteq> 4000 * second div second"
    unfolding demo_saved_reports by (simp add: report_row_of_def second_def)
  have a: "\<forall>r \<in> set (db_reports demo_saved). \<forall>q \<in> set (db_reports demo_saved).
      rr_agent_id r = ''web'' \<and> rr_agent_id q = ''web'' \<and> r \<noteq> q \<longrightarrow>
      parsed_or_zero (rr_measured_at r) div second \<noteq> parsed_or_zero (rr_measured_at q) div second"
    unfolding demo_saved_reports by (simp add: report_row_of_def second_def)
  show ?thesis
    using previous_report_chronological [OF reach _ s a, of "\<lambda>_. False" "\<lambda>_. Some demo_report"]
    unfolding demo_saved_reports
    by (cases "previous_report (\<lambda>_. False) (\<lambda>_. Some demo_report) ''web'' (4000 * second) demo_saved")
      (auto simp: report_row_of_def second_def previous_report_def split: list.splits if_splits)
qed

lemma fraction_dot: "0 < n \<Longrightarrow> hd (fraction_text n) = CHR ''.''"
  by (simp add: fraction_text_def)

text \<open>Within one second the order of the texts is not that of the times: a measurement taken on a whole
  second is not found from a later moment of the same second.\<close>

theorem previous_report_misses_same_second:
  assumes "db_reports d = [row]" and "rr_measured_at row = rfc3339_nano (s * second)"
    and "0 < n" and "n < second" and "\<not> fails SelectPrevious"
  shows "previous_report fails decode agent (s * second + n) d = Inl NoRows"
proof -
  have "(s * second + n) div second = s" "(s * second + n) mod second = n"
    using assms(3,4) by (simp_all add: second_def)
  moreover obtain f where "fraction_text n = CHR ''.'' # f"
    using assms(3) by (simp add: fraction_text_def)
  ultimately have "\<not> stamp_less (rr_measured_at row) (rfc3339_nano (s * second + n))"
    using assms(2) by (simp add: stamp_less_def rfc3339_nano_def fraction_text_def [of 0] second_def less_char_def)
  then show ?thesis using assms(1,5) by (simp add: previous_report_def)
qed

theorem previous_report_misses_same_second_witness:
  "previous_report (\<lambda>_. False) (\<lambda>_. None) ''web'' (600 * second + 500000000)
     (db_empty\<lparr>db_reports := [hd demo_rows]\<rparr>) = Inl NoRows"
  by (rule previous_report_misses_same_second [where row = "hd demo_rows"])
    (simp_all add: demo_rows_def report_row_of_def second_def)

end
