(* ===== verification/Engine_Watch.thy ===== *)
theory Engine_Watch
  imports Engine Maintenance
begin

text \<open>
  What the alert engine guarantees: which alerts are open after a report has been evaluated, and that
  an agent is reported as offline exactly while it is silent for too long.
\<close>

subsection \<open>Durations in seconds\<close>

text \<open>A duration compares with a whole number of seconds as the integers do: rounding the fraction does
  not reach the next second.\<close>

lemma fl_fraction:
  assumes "0 < n" "n < 1000000000"
  shows "\<exists>f. fl (of_int n / 1000000000) = Fin f \<and> 1 / 2000000000 \<le> f \<and> f \<le> 1 - 1 / 2000000000"
proof -
  define q :: rat where "q = of_int n / 1000000000"
  have n: "(1::rat) \<le> of_int n" "(of_int n :: rat) \<le> 999999999"
    using assms by (simp_all add: of_int_le_iff [of n 999999999, simplified])
  have q: "1 / 1000000000 \<le> q" "q \<le> 999999999 / 1000000000" unfolding q_def using n by (simp_all add: field_simps)
  have "pow2 (-1022) \<le> pow2 (-30)" by (rule pow2_mono) simp
  also have "\<dots> \<le> q" using q(1) by (simp add: pow2_def)
  finally have err: "\<bar>rnd_pos q - q\<bar> \<le> q * pow2 (-53)" by (rule rnd_pos_error)
  have s: "q * pow2 (-53) \<le> 1 / 4000000000" using q(2) by (simp add: pow2_def)
  have r: "1 / 2000000000 \<le> rnd_pos q" "rnd_pos q \<le> 1 - 1 / 2000000000"
    using err s q by (auto simp: abs_le_iff)
  have "rnd_pos q < pow2 1024" using r(2) pow2_mono [of 0 1024] by (simp add: pow2_def [of 0])
  then show ?thesis using r q(1) by (auto simp: fl_def q_def Let_def)
qed

lemma fl_near:
  assumes "0 \<le> k" "k \<le> 1048576" "1 / 2000000000 \<le> f" "f \<le> 1 - 1 / 2000000000"
  shows "\<exists>x. fl (of_int k + f) = Fin x \<and> of_int k < x \<and> x < of_int k + 1"
proof -
  define q where "q = of_int k + f"
  have k: "(0::rat) \<le> of_int k" "(of_int k :: rat) \<le> 1048576"
    using assms(1,2) of_int_le_iff [of k 1048576, where 'a = rat] by simp_all
  have q: "1 / 2000000000 \<le> q" "q \<le> 1048577" unfolding q_def using k assms(3,4) by linarith+
  have "pow2 (-1022) \<le> pow2 (-40)" by (rule pow2_mono) simp
  also have "\<dots> \<le> q" using q(1) by (simp add: pow2_def)
  finally have err: "\<bar>rnd_pos q - q\<bar> \<le> q * pow2 (-53)" by (rule rnd_pos_error)
  have s: "q * pow2 (-53) \<le> 1 / 4000000000" using q(2) by (simp add: pow2_def)
  have r: "of_int k < rnd_pos q" "rnd_pos q < of_int k + 1" "rnd_pos q < 1048578"
    using err s q assms(3,4) unfolding q_def by (auto simp: abs_le_iff)
  have "(1048578 :: rat) \<le> pow2 21" by (simp add: pow2_def)
  also have "\<dots> \<le> pow2 1024" by (rule pow2_mono) simp
  finally have "rnd_pos q < pow2 1024" using r(3) by simp
  then have "fl q = Fin (rnd_pos q)" using q(1) by (simp add: fl_def Let_def)
  then show ?thesis using r(1,2) by (simp add: q_def)
qed

lemma dur_seconds_split:
  assumes "0 \<le> d" "d \<le> max_duration"
  shows "dur_seconds d = fadd (Fin (of_int (d div second))) (fl (of_int (d mod second) / 1000000000))"
proof -
  have "trunc_quot d second = d div second" using assms(1) by (cases "d = 0") (auto simp: trunc_quot_def sgn_if)
  moreover have "d - d div second * second = d mod second" by (metis minus_div_mult_eq_mod)
  moreover have "0 \<le> d div second" "d div second < 2 ^ 53" "0 \<le> d mod second" "d mod second < 2 ^ 53"
    using assms by (auto simp: second_def max_duration_def)
  ultimately show ?thesis by (simp add: dur_seconds_def Let_def float_of_int_exact)
qed

lemma dur_seconds_cases:
  assumes "0 \<le> d" "d \<le> max_duration"
  shows "\<exists>x. dur_seconds d = Fin x \<and>
    (if d mod second = 0 then x = of_int (d div second)
     else if d div second \<le> 1048576 then of_int (d div second) < x \<and> x < of_int (d div second) + 1
     else 1048576 < x)"
proof -
  let ?k = "d div second" and ?n = "d mod second"
  have k: "0 \<le> ?k" "?k < 2 ^ 40" using assms by (auto simp: second_def max_duration_def)
  show ?thesis
  proof (cases "?n = 0")
    case True
    then show ?thesis using dur_seconds_split [OF assms] fl_int [of ?k] k by (simp add: fl_def [of 0])
  next
    case False
    then have n: "0 < ?n" "?n < 1000000000" by (simp_all add: second_def)
    obtain f where f: "fl (of_int ?n / 1000000000) = Fin f" "1 / 2000000000 \<le> f" "f \<le> 1 - 1 / 2000000000"
      using fl_fraction [OF n] by blast
    have d: "dur_seconds d = fl (of_int ?k + f)" using dur_seconds_split [OF assms] f(1) by simp
    show ?thesis
    proof (cases "?k \<le> 1048576")
      case True
      then show ?thesis using fl_near [OF k(1) True f(2,3)] d False by auto
    next
      case big: False
      then have k2: "(1048577 :: rat) \<le> of_int ?k" "(of_int ?k :: rat) \<le> 2 ^ 40"
        using k(2) of_int_le_iff [of 1048577 ?k, where 'a = rat] of_int_le_iff [of ?k "2 ^ 40", where 'a = rat] by simp_all
      then have q: "1 \<le> of_int ?k + f" "of_int ?k + f \<le> 2 ^ 60" using f(2,3) by simp_all
      obtain r where r: "fl (of_int ?k + f) = Fin r" "\<bar>r - (of_int ?k + f)\<bar> \<le> (of_int ?k + f) * pow2 (-53)"
        by (rule fl_in_range [OF q])
      have "(of_int ?k + f) * pow2 (-53) \<le> 1 / 2" using q k2 f(3) by (simp add: pow2_def)
      then have "1048576 < r" using r(2) k2 f(2) by (auto simp: abs_le_iff)
      then show ?thesis using d r(1) False big by simp
    qed
  qed
qed

lemma seconds_less:
  fixes k q m :: int
  assumes "0 \<le> m" "m < 1000000000"
  shows "k * 1000000000 < q * 1000000000 + m \<longleftrightarrow> k < q \<or> (k = q \<and> m \<noteq> 0)"
proof -
  consider "k < q" | "k = q" | "q < k" by linarith
  then show ?thesis by cases (use assms in linarith)+
qed

lemma dur_seconds_less:
  assumes "0 \<le> k" "k \<le> 1048576" "0 \<le> d" "d \<le> max_duration"
  shows "flt (dur_seconds (k * second)) (dur_seconds d) \<longleftrightarrow> k * second < d"
proof -
  have m: "0 \<le> k * second" "k * second \<le> max_duration"
    using assms by (simp_all add: second_def max_duration_def)
  have off: "dur_seconds (k * second) = Fin (of_int k)"
    using dur_seconds_cases [OF m] by (simp add: second_def)
  obtain x where x: "dur_seconds d = Fin x"
      "if d mod second = 0 then x = of_int (d div second)
       else if d div second \<le> 1048576 then of_int (d div second) < x \<and> x < of_int (d div second) + 1
       else 1048576 < x"
    using dur_seconds_cases [OF assms(3,4)] by blast
  have dk: "k * second < d \<longleftrightarrow> k < d div second \<or> (k = d div second \<and> d mod second \<noteq> 0)"
    using seconds_less [of "d mod second" k "d div second"] by (simp add: second_def)
  have i: "(of_int a :: rat) < of_int b \<longleftrightarrow> a < b" for a b by simp
  have "(of_int k :: rat) < x \<longleftrightarrow> k * second < d"
  proof (cases "d mod second = 0")
    case True
    then show ?thesis using x(2) dk by auto
  next
    case False
    show ?thesis
    proof (cases "d div second \<le> 1048576")
      case True
      then have b: "of_int (d div second) < x" "x < of_int (d div second) + 1" using x(2) False by simp_all
      show ?thesis
      proof (cases "k \<le> d div second")
        case True
        then have "(of_int k :: rat) \<le> of_int (d div second)" by simp
        then show ?thesis using b dk False True by auto
      next
        case less: False
        then have "(of_int (d div second) + 1 :: rat) \<le> of_int k"
          using of_int_le_iff [of "d div second + 1" k, where 'a = rat] by simp
        then show ?thesis using b dk less by auto
      qed
    next
      case big: False
      have "(of_int k :: rat) \<le> 1048576" using assms(2) of_int_le_iff [of k 1048576, where 'a = rat] by simp
      moreover have "1048576 < x" using x(2) False big by simp
      ultimately show ?thesis using dk big assms(2) by auto
    qed
  qed
  then show ?thesis using off x(1) by simp
qed

lemma fl_nonpos: "q \<le> 0 \<Longrightarrow> flt (Fin 0) (fl q) = False"
  using rnd_pos_nonneg [of "- q"] by (auto simp: fl_def Let_def)

lemma dur_seconds_nonpos:
  assumes "d \<le> 0" "min_duration \<le> d"
  shows "\<not> flt (Fin 0) (dur_seconds d)"
proof -
  define s where "s = trunc_quot d second"
  define n where "n = d - s * second"
  have sn: "s = - (\<bar>d\<bar> div second)" using assms(1) by (cases "d = 0") (auto simp: s_def trunc_quot_def sgn_if)
  have s: "s \<le> 0" "\<bar>s\<bar> < 2 ^ 53" using sn assms by (auto simp: second_def min_duration_def)
  have "n = - (\<bar>d\<bar> mod second)" using sn assms(1) by (simp add: n_def minus_mult_div_eq_mod [symmetric])
  then have n: "n \<le> 0" "\<bar>n\<bar> < 2 ^ 53" by (simp_all add: second_def)
  have d: "dur_seconds d = fadd (Fin (of_int s)) (fl (of_int n / 1000000000))"
    using s(2) n(2) by (simp add: dur_seconds_def Let_def float_of_int_exact s_def [symmetric] n_def [symmetric])
  have nn: "(of_int n :: rat) / 1000000000 \<le> 0" using n(1) by simp
  note f = fl_nonpos [OF nn]
  show ?thesis
  proof (cases "fl (of_int n / 1000000000 :: rat)")
    case (Fin b)
    then have "of_int s + b \<le> 0" using f s(1) by (simp add: add_nonpos_nonpos)
    then show ?thesis unfolding d Fin using fl_nonpos by simp
  qed (use f d in simp_all)
qed

text \<open>Silence is negative only when clocks disagree.\<close>

lemma silence_exceeds:
  assumes "0 \<le> k" "k \<le> 1048576"
  shows "flt (dur_seconds (k * second)) (silence now seen) \<longleftrightarrow> k * second < now - seen"
proof (cases "seen \<le> now")
  case True
  then have d: "0 \<le> time_sub now seen" "time_sub now seen \<le> max_duration"
    by (auto simp: time_sub_def max_duration_def min_duration_def)
  obtain x where x: "dur_seconds (time_sub now seen) = Fin x" using dur_seconds_cases [OF d] by blast
  have "\<not> flt (dur_seconds (time_sub now seen)) (Fin 0)"
  proof -
    have "flt (dur_seconds (0 * second)) (dur_seconds (time_sub now seen)) \<longleftrightarrow> 0 < time_sub now seen"
      using dur_seconds_less [of 0 "time_sub now seen"] d by simp
    moreover have "dur_seconds (0 * second) = Fin 0" "time_sub now seen = 0 \<Longrightarrow> x = 0"
      using dur_seconds_cases [of 0] x by (simp_all add: max_duration_def)
    ultimately show ?thesis using x d(1) by (cases "time_sub now seen = 0") auto
  qed
  then have "silence now seen = dur_seconds (time_sub now seen)" by (simp add: silence_def Let_def)
  moreover have "k * second < time_sub now seen \<longleftrightarrow> k * second < now - seen"
    using assms by (auto simp: time_sub_def max_duration_def min_duration_def second_def)
  ultimately show ?thesis using dur_seconds_less [OF assms d] by simp
next
  case False
  then have d: "time_sub now seen \<le> 0" "min_duration \<le> time_sub now seen"
    by (auto simp: time_sub_def max_duration_def min_duration_def)
  have "\<not> flt (Fin (of_int k)) (silence now seen)"
  proof (cases "dur_seconds (time_sub now seen)")
    case (Fin x)
    then have "x \<le> 0" using dur_seconds_nonpos [OF d] by simp
    then show ?thesis using Fin assms(1) by (auto simp: silence_def Let_def not_less intro: order_trans)
  qed (use dur_seconds_nonpos [OF d] assms(1) in \<open>auto simp: silence_def Let_def\<close>)
  moreover have "dur_seconds (k * second) = Fin (of_int k)"
    using dur_seconds_cases [of "k * second"] assms by (simp add: second_def max_duration_def)
  moreover have "\<not> k * second < now - seen" using False assms(1) by (simp add: second_def)
  ultimately show ?thesis by simp
qed


subsection \<open>The agents table\<close>

lemma sync_loop_wf: "sync_loop fails items d = Inr d' \<Longrightarrow> amap_wf (db_agents d) \<Longrightarrow> amap_wf (db_agents d')"
proof (induction fails items d rule: sync_loop.induct)
  case (2 fails agent hash items d)
  let ?d1 = "if amap_get (db_agents d) agent = None
      then d\<lparr>db_agents := amap_put agent \<lparr>gr_last_sequence = 0, gr_last_seen = None\<rparr> (db_agents d)\<rparr> else d"
  let ?d2 = "?d1\<lparr>db_tokens := db_tokens ?d1 @ [(agent, hash)]\<rparr>"
  have c: "\<not> (agent = [] \<or> hash = [])" "\<not> fails (InsertAgent agent)" "\<not> fails (InsertToken agent hash)"
      "(agent, hash) \<notin> set (db_tokens ?d1)" "sync_loop fails items ?d2 = Inr d'"
    using "2.prems"(1) by (auto simp: Let_def split: if_splits)
  have "amap_wf (db_agents ?d2)" using "2.prems"(2) by (simp add: amap.wf_put)
  then show ?case by (rule "2.IH" [OF c(1,2) refl c(3,4,5)])
qed simp

lemma agents_wf: "db_reachable p d \<Longrightarrow> amap_wf (db_agents d)"
proof (induction rule: db_reachable.induct)
  case empty
  then show ?case by (simp add: db_empty_def amap_wf_def)
next
  case (op d fails x)
  show ?case
  proof (cases x)
    case (SyncAgents tokens)
    then show ?thesis using op.IH sync_loop_wf [of fails tokens "d\<lparr>db_tokens := []\<rparr>"]
      by (auto simp: sync_agents_def split: sum.splits)
  next
    case (SaveReport r seen received)
    obtain err d' where s: "save_report fails (sv_encode p) r seen received d = (err, d')" by force
    then have "amap_wf (db_agents d')" using op.IH
      by (cases rule: save_report_cases) (auto simp: amap.wf_put)
    then show ?thesis using s SaveReport by simp
  next
    case (ApplyRule e now clock)
    then show ?thesis using op.IH by (simp add: apply_rule_agents)
  next
    case (MarkDelivery a state now)
    then show ?thesis using op.IH by (simp add: mark_alert_delivery_def mark_alert_notification_if_def)
  next
    case (Acknowledge n actor now clock)
    then show ?thesis using op.IH
      by (auto simp: acknowledge_alert_def audit_tx_def Let_def split: sum.splits)
  next
    case (Maintain now raw agg)
    then show ?thesis using op.IH by (simp add: maintain_def Let_def)
  next
    case (SavePreferences q)
    then show ?thesis using op.IH by (simp add: save_notification_preferences_def)
  qed
qed

lemma set_agent_last_seen:
  assumes "amap_wf (db_agents d)" "agent_last_seen fails d = Inr xs"
  shows "(a, t) \<in> set xs \<longleftrightarrow>
    (\<exists>g stamp. amap_get (db_agents d) a = Some g \<and> gr_last_seen g = Some stamp \<and> t = parsed_or_zero stamp)"
proof -
  let ?f = "\<lambda>(agent, g). case gr_last_seen g of None \<Rightarrow> [] | Some t \<Rightarrow> [(agent, parsed_or_zero t)]"
  have "xs = concat (map ?f (sort_key fst (db_agents d)))"
    using assms(2) by (simp add: agent_last_seen_def split: if_splits)
  then have xs: "set xs = (\<Union>x \<in> set (db_agents d). set (?f x))"
    by (simp only: set_concat set_map set_sort image_image)
  have mem: "(a, t) \<in> set (?f x) \<longleftrightarrow> fst x = a \<and> (\<exists>stamp. gr_last_seen (snd x) = Some stamp \<and> t = parsed_or_zero stamp)" for x
    by (cases x; cases "gr_last_seen (snd x)") auto
  have pair: "(\<exists>x \<in> S. fst x = a \<and> P (snd x)) \<longleftrightarrow> (\<exists>g. (a, g) \<in> S \<and> P g)" for S :: "(string \<times> agent_row) set" and P
    by force
  have "(a, t) \<in> set xs \<longleftrightarrow>
      (\<exists>g. (a, g) \<in> set (db_agents d) \<and> (\<exists>stamp. gr_last_seen g = Some stamp \<and> t = parsed_or_zero stamp))"
    unfolding xs UN_iff mem by (rule pair)
  also have "\<dots> \<longleftrightarrow> (\<exists>g stamp. amap_get (db_agents d) a = Some g \<and> gr_last_seen g = Some stamp \<and> t = parsed_or_zero stamp)"
    using assms(1) by (simp add: amap_get_def amap_wf_def map_of_eq_Some_iff)
  finally show ?thesis .
qed

subsection \<open>Evaluations succeed\<close>

text \<open>Without failing statements an evaluation always comes to its end.\<close>

definition calm_calls :: "store_io \<Rightarrow> bool" where
  "calm_calls io \<longleftrightarrow> (\<forall>n c. \<not> fst (io n) c)"

lemma calm_io_calm [simp]: "calm_calls (calm_io t)"
  by (simp add: calm_calls_def calm_io_def)

lemma apply_each_succeeds:
  assumes "calm_calls io"
  shows "\<forall>e \<in> set es. amap_get (db_agents d) (ev_agent_id e) \<noteq> None \<Longrightarrow>
    \<exists>d'. apply_each apply_rule io n es now d = (None, d') \<and> db_agents d' = db_agents d"
proof (induction es arbitrary: n d)
  case (Cons e es)
  obtain c d1 where a: "apply_rule (fst (io n)) e now (snd (io n)) d = (Inr c, d1)"
    using apply_rule_succeeds [of "fst (io n)" d e now "snd (io n)"] assms Cons.prems by (auto simp: calm_calls_def)
  have "db_agents d1 = db_agents d" using apply_rule_agents [of "fst (io n)" e now "snd (io n)" d] a by simp
  then show ?case using Cons.IH [of d1 "Suc n"] Cons.prems a by simp
qed simp

lemma evaluate_report_succeeds:
  assumes "calm_calls io" and ok: "alerts_ok d" and "amap_get (db_agents d) (rep_agent_id r) \<noteq> None"
  shows "\<exists>d'. evaluate_report c io r now d = (None, d') \<and> db_agents d' = db_agents d"
proof -
  obtain d1 where d1: "apply_each apply_rule io 0 (report_rules c r) now d = (None, d1)" "db_agents d1 = db_agents d"
    using apply_each_succeeds [OF assms(1), of "report_rules c r" d] assms(3) report_rules_agent by metis
  let ?active = "map scan_alert (descending ar_started_at (filter active_row (db_alerts d1)))"
  let ?n = "length (report_rules c r)"
  let ?es = "map resolution (filter (to_resolve r (seen_keys (report_rules c r))) ?active)"
  have "\<forall>e \<in> set ?es. ev_agent_id e = rep_agent_id r" by (auto simp: to_resolve_def resolution_def rule_def)
  then obtain d2 where "apply_each apply_rule io (Suc ?n) ?es now d1 = (None, d2)" "db_agents d2 = db_agents d1"
    using apply_each_succeeds [OF assms(1), of ?es d1] assms(3) d1(2) by metis
  moreover have "active_alerts (fst (io ?n)) d1 = Inr ?active"
    using assms(1) by (simp add: active_alerts_def query_alerts_def calm_calls_def)
  ultimately show ?thesis using d1 by (simp add: evaluate_report_def Let_def resolve_missing_def)
qed

lemma evaluate_offline_succeeds:
  assumes "calm_calls io" "amap_wf (db_agents d)"
  shows "\<exists>d'. evaluate_offline c io now d = (None, d') \<and> db_agents d' = db_agents d"
proof -
  obtain xs where xs: "agent_last_seen (fst (io 0)) d = Inr xs"
    using assms(1) by (simp add: agent_last_seen_def calm_calls_def)
  have "\<forall>e \<in> set (map (offline_rule c now) xs). amap_get (db_agents d) (ev_agent_id e) \<noteq> None"
    using set_agent_last_seen [OF assms(2) xs] by (auto simp: offline_rule_def rule_def)
  then show ?thesis using apply_each_succeeds [OF assms(1)] xs by (simp add: evaluate_offline_def)
qed

definition demo_filesystem :: filesystem where
  "demo_filesystem = \<lparr>fs_mountpoint = ''/'', fs_device = ''/dev/sda1'', fs_type = ''ext4'',
     fs_total_bytes = 100, fs_used_bytes = 97, fs_avail_bytes = 3, fs_used_percent = Fin 97\<rparr>"

definition demo_full :: report where
  "demo_full = (zero_report ''web'' 3 (4000 * second))\<lparr>rep_filesystems := [demo_filesystem]\<rparr>"

lemma demo_full_simps [simp]: "rep_agent_id demo_full = ''web''" "rep_filesystems demo_full = [demo_filesystem]"
  by (simp_all add: demo_full_def zero_report_def)

lemma demo_saved_reachable: "db_reachable demo_env demo_saved"
  unfolding demo_saved_def by (intro db_reachable.op demo_synced_reachable)

lemma demo_saved_ok: "alerts_ok demo_saved" "amap_get (db_agents demo_saved) ''web'' =
    Some \<lparr>gr_last_sequence = 2, gr_last_seen = Some (0, ''Z'')\<rparr>"
proof -
  show "alerts_ok demo_saved" using db_reachable_ok [OF demo_saved_reachable] by (simp add: db_ok_def)
  show "amap_get (db_agents demo_saved) ''web'' = Some \<lparr>gr_last_sequence = 2, gr_last_seen = Some (0, ''Z'')\<rparr>"
    by (simp add: demo_saved_def demo_synced_eval db_empty_def save_report_def demo_env_def amap_defs Let_def
        zero_report_def report_row_of_def rfc3339_nano_def fraction_text_def second_def)
qed

lemma demo_saved_evaluates:
  "\<exists>d'. evaluate_report server_defaults (calm_io 0) demo_full (4000 * second) demo_saved = (None, d')"
  using evaluate_report_succeeds [of "calm_io 0" demo_saved demo_full server_defaults "4000 * second"] demo_saved_ok by auto

subsection \<open>Properties\<close>

text \<open>C11. Evaluating a report takes the abstract life of every alert key exactly where the rules say: the
  keys of other agents stay as they are, also when the evaluation fails half-way; a key of the
  reporting agent that rules of the report look at takes one step per rule; any other key of that agent
  is closed if the report shows that its subject is gone and stays as it is otherwise.\<close>

theorem evaluate_report_effect:
  assumes "alerts_ok d" and "evaluate_report c io r now d = (err, d')"
  shows "alerts_ok d' \<and>
    (a \<noteq> rep_agent_id r \<longrightarrow> db_life d' (a, k, s) = db_life d (a, k, s)) \<and>
    (err = None \<and> a = rep_agent_id r \<longrightarrow> db_life d' (a, k, s) =
      (if rule_key k s \<in> set (seen_keys (report_rules c r))
       then lives_after (report_rules c r) now (a, k, s) (db_life d (a, k, s))
       else if resolvable r k s then Idle else db_life d (a, k, s)))"
proof -
  obtain e1 d1 where d1: "apply_each apply_rule io 0 (report_rules c r) now d = (e1, d1)" by force
  have other: "a \<noteq> rep_agent_id r \<Longrightarrow> (a, k, s) \<notin> rule_id ` set (report_rules c r)"
    using report_rules_agent by (auto simp: rule_id_def)
  have ok1: "alerts_ok d1" using rules.apply_each_ok [OF assms(1), of io 0 "report_rules c r" now] d1 by simp
  have fr1: "a \<noteq> rep_agent_id r \<Longrightarrow> db_life d1 (a, k, s) = db_life d (a, k, s)"
    using rules.apply_each_frame [OF assms(1) other, of io 0 now] d1 by simp
  have "alerts_ok d' \<and> (a \<noteq> rep_agent_id r \<longrightarrow> db_life d' (a, k, s) = db_life d (a, k, s))"
  proof (cases e1)
    case (Some e)
    then show ?thesis using assms(2) d1 ok1 fr1 by (simp add: evaluate_report_def Let_def)
  next
    case None
    then have res: "resolve_missing io (length (report_rules c r)) r (seen_keys (report_rules c r)) now d1 = (err, d')"
      using assms(2) d1 by (simp add: evaluate_report_def Let_def)
    show ?thesis
    proof (cases "active_alerts (fst (io (length (report_rules c r)))) d1")
      case (Inl e)
      then show ?thesis using res ok1 fr1 by (simp add: resolve_missing_def)
    next
      case (Inr active)
      let ?es = "map resolution (filter (to_resolve r (seen_keys (report_rules c r))) active)"
      have each: "apply_each apply_rule io (Suc (length (report_rules c r))) ?es now d1 = (err, d')"
        using res Inr by (simp add: resolve_missing_def)
      have "a \<noteq> rep_agent_id r \<Longrightarrow> (a, k, s) \<notin> rule_id ` set ?es"
        by (auto simp: rule_id_def resolution_def rule_def to_resolve_def)
      then show ?thesis
        using rules.apply_each_frame [OF ok1, of "(a, k, s)" ?es] rules.apply_each_ok [OF ok1] each fr1
        by (metis snd_conv)
    qed
  qed
  then show ?thesis
  proof (cases err)
    case None
    then show ?thesis using evaluate_report_life [OF assms(1), of c io r now d' a k s] assms(2)
      by (cases "a = rep_agent_id r") simp_all
  qed simp
qed

theorem evaluate_report_effect_witness:
  "\<exists>d'. evaluate_report server_defaults (calm_io 0) demo_full (4000 * second) demo_saved = (None, d') \<and>
     db_life d' (''db'', ''cpu_high'', []) = db_life demo_saved (''db'', ''cpu_high'', []) \<and>
     db_life d' (''web'', ''http_failed'', ''shop'') = Idle"
proof -
  obtain d' where d': "evaluate_report server_defaults (calm_io 0) demo_full (4000 * second) demo_saved = (None, d')"
    using demo_saved_evaluates by blast
  have "rule_key ''http_failed'' ''shop'' \<notin> set (seen_keys (report_rules server_defaults demo_full))"
    by (simp add: seen_keys_def report_rules_def usage_rules_def filesystem_rules_def rule_def rule_key_def demo_full_def
        zero_report_def zero_docker_def demo_filesystem_def monitorable_def)
  then show ?thesis
    using d' evaluate_report_effect [OF demo_saved_ok(1) d', of "''db''" "''cpu_high''" "[]"]
      evaluate_report_effect [OF demo_saved_ok(1) d', of "''web''" "''http_failed''" "''shop''"]
    by (simp add: resolvable_def)
qed

text \<open>The two disk alerts of a mount point exclude each other: after a report has been evaluated the
  critical one is open exactly when the usage exceeds the critical threshold, the warning exactly when
  it exceeds only the warning threshold, and what was open before does not matter.\<close>

theorem disk_alerts_exclusive:
  assumes "alerts_ok d" and "evaluate_report c io r now d = (None, d')"
    and "f \<in> set (rep_filesystems r)" and "monitorable f"
    and "\<forall>g \<in> set (rep_filesystems r). fs_mountpoint g = fs_mountpoint f \<longrightarrow> g = f"
  shows "(active_at d' (rep_agent_id r) ''disk_critical'' (fs_mountpoint f) \<noteq> None \<longleftrightarrow>
      flt (sc_disk_critical_threshold c) (fs_used_percent f)) \<and>
    (active_at d' (rep_agent_id r) ''disk_warning'' (fs_mountpoint f) \<noteq> None \<longleftrightarrow>
      flt (sc_disk_warning_threshold c) (fs_used_percent f) \<and> fle (fs_used_percent f) (sc_disk_critical_threshold c)) \<and>
    (active_at d' (rep_agent_id r) ''disk_critical'' (fs_mountpoint f) = None \<or>
     active_at d' (rep_agent_id r) ''disk_warning'' (fs_mountpoint f) = None)"
proof -
  let ?w = "filesystem_rules c (rep_agent_id r) f ! 0" and ?c = "filesystem_rules c (rep_agent_id r) f ! 1"
  have in_rules: "?w \<in> set (report_rules c r)" "?c \<in> set (report_rules c r)"
    using assms(3,4) by (auto simp: report_rules_def filesystem_rules_def)
  have ids: "ev_rule_key ?w = ''disk_warning''" "ev_resource ?w = fs_mountpoint f"
      "ev_rule_key ?c = ''disk_critical''" "ev_resource ?c = fs_mountpoint f"
      "ev_violated ?c \<longleftrightarrow> flt (sc_disk_critical_threshold c) (fs_used_percent f)"
      "ev_violated ?w \<longleftrightarrow> flt (sc_disk_warning_threshold c) (fs_used_percent f) \<and>
         fle (fs_used_percent f) (sc_disk_critical_threshold c)"
    using assms(4) by (simp_all add: filesystem_rules_def rule_def)
  have from_fs: "\<exists>g \<in> set (rep_filesystems r). monitorable g \<and> e \<in> set (filesystem_rules c (rep_agent_id r) g)"
    if "e \<in> set (report_rules c r)" "ev_rule_key e = ''disk_warning'' \<or> ev_rule_key e = ''disk_critical''" for e
    using that by (auto simp: report_rules_def usage_rules_def filesystem_rules_def service_rules_def container_rules_def
        http_rules_def rule_def split: if_splits option.splits)
  have res: "e \<in> set (filesystem_rules c (rep_agent_id r) g) \<Longrightarrow> ev_resource e = fs_mountpoint g" for e g
    by (auto simp: filesystem_rules_def rule_def split: if_splits)
  have two: "set (filesystem_rules c (rep_agent_id r) f) = {?w, ?c}"
    using assms(4) by (simp add: filesystem_rules_def)
  have only: "e = ?w \<or> e = ?c"
    if e: "e \<in> set (report_rules c r)" "ev_rule_key e = ''disk_warning'' \<or> ev_rule_key e = ''disk_critical''"
      "ev_resource e = fs_mountpoint f" for e
  proof -
    obtain g where "g \<in> set (rep_filesystems r)" "e \<in> set (filesystem_rules c (rep_agent_id r) g)"
      using from_fs [OF e(1,2)] by blast
    then have "e \<in> set (filesystem_rules c (rep_agent_id r) f)" using res e(3) assms(5) by metis
    then show ?thesis unfolding two by blast
  qed
  have "\<forall>e' \<in> set (report_rules c r). rule_id e' = rule_id ?w \<longrightarrow> ev_violated e' = ev_violated ?w"
    using only ids by (fastforce simp: rule_id_def)
  note w = evaluate_report_open [OF assms(1,2) in_rules(1) this, unfolded ids]
  have "\<forall>e' \<in> set (report_rules c r). rule_id e' = rule_id ?c \<longrightarrow> ev_violated e' = ev_violated ?c"
    using only ids by (fastforce simp: rule_id_def)
  note cr = evaluate_report_open [OF assms(1,2) in_rules(2) this, unfolded ids]
  have "\<not> (flt a b \<and> fle b a)" for a b :: float64 by (cases a; cases b) auto
  then show ?thesis using w cr by blast
qed

theorem disk_alerts_exclusive_witness:
  "\<exists>d'. evaluate_report server_defaults (calm_io 0) demo_full (4000 * second) demo_saved = (None, d') \<and>
     active_at d' ''web'' ''disk_critical'' ''/'' \<noteq> None \<and> active_at d' ''web'' ''disk_warning'' ''/'' = None"
proof -
  obtain d' where d': "evaluate_report server_defaults (calm_io 0) demo_full (4000 * second) demo_saved = (None, d')"
    using demo_saved_evaluates by blast
  show ?thesis
    using d' disk_alerts_exclusive [OF demo_saved_ok(1) d', of demo_filesystem]
    by (simp add: demo_filesystem_def monitorable_def server_defaults_def)
qed

text \<open>The rules of the offline watch have one key for each agent, and agree for each agent.\<close>

lemma offline_rule_keys:
  "i \<in> rule_id ` set (map (offline_rule c now) xs) \<longleftrightarrow> (\<exists>a t. (a, t) \<in> set xs \<and> i = (a, ''agent_offline'', []))"
proof -
  have "rule_id (offline_rule c now (a, t)) = (a, ''agent_offline'', [])" for a t
    by (simp add: offline_rule_def rule_def rule_id_def)
  then have "(\<lambda>x. rule_id (offline_rule c now x)) ` set xs = (\<lambda>x. (fst x, ''agent_offline'', [])) ` set xs"
    by (intro image_cong [OF refl]) (metis prod.collapse)
  then show ?thesis by (simp add: image_image image_iff Bex_def)
qed

lemma offline_lives:
  assumes "db_reachable p d" and "agent_last_seen fails d = Inr xs"
    and "sc_agent_offline_after c = n * second" and "0 \<le> n" and "n \<le> 1048576"
    and g: "amap_get (db_agents d) agent = Some g" "gr_last_seen g = Some seen"
  shows "lives_after (map (offline_rule c now) xs) now (agent, ''agent_offline'', []) l \<noteq> Idle \<longleftrightarrow>
    n * second < now - parsed_or_zero seen"
proof -
  note mem = set_agent_last_seen [OF agents_wf [OF assms(1)] assms(2)]
  have violated: "ev_violated (offline_rule c now (a, t)) \<longleftrightarrow> n * second < now - t" for a t
    using silence_exceeds [OF assms(4,5)] assms(3) by (simp add: offline_rule_def rule_def)
  have "\<forall>e \<in> set (map (offline_rule c now) xs). rule_id e = (agent, ''agent_offline'', []) \<longrightarrow>
      ev_violated e = (n * second < now - parsed_or_zero seen)"
  proof
    fix e assume "e \<in> set (map (offline_rule c now) xs)"
    then obtain a t where e: "(a, t) \<in> set xs" "e = offline_rule c now (a, t)" by auto
    then show "rule_id e = (agent, ''agent_offline'', []) \<longrightarrow> ev_violated e = (n * second < now - parsed_or_zero seen)"
      using mem g violated by (auto simp: offline_rule_def rule_def rule_id_def)
  qed
  moreover have "(agent, ''agent_offline'', []) \<in> rule_id ` set (map (offline_rule c now) xs)"
    unfolding offline_rule_keys using mem g by blast
  ultimately show ?thesis using lives_after_agree by blast
qed

lemma resolve_online_idle:
  assumes "alerts_ok d" and "resolve_online c io agent now d = (None, d')"
  shows "active_at d' agent ''agent_offline'' [] = None"
proof -
  have "db_life d' (agent, ''agent_offline'', []) = Idle"
    using rules.apply_each_life [OF assms(1) assms(2) [unfolded resolve_online_def], of "(agent, ''agent_offline'', [])"]
    by (simp add: lives_after_def rule_id_def rule_def)
  then show ?thesis by (simp add: db_life_Idle)
qed

text \<open>C31. An agent that has reported is shown as offline exactly while it is silent for too long: after
  the periodic check the alert is open if and only if more than the configured time (a whole number of
  seconds, up to twelve days) has passed since its last report; agents that never reported and all other
  alerts are left alone; and a report, however old its measurement, closes the alert.\<close>

theorem offline_watch:
  assumes "db_reachable p d" and "evaluate_offline c io now d = (None, d')"
    and "sc_agent_offline_after c = n * second" and "0 \<le> n" and "n \<le> 1048576"
  shows "(case map_option gr_last_seen (amap_get (db_agents d) agent) of
      Some (Some seen) \<Rightarrow>
        (active_at d' agent ''agent_offline'' [] \<noteq> None \<longleftrightarrow> n * second < now - parsed_or_zero seen)
    | _ \<Rightarrow> db_life d' (agent, ''agent_offline'', []) = db_life d (agent, ''agent_offline'', [])) \<and>
    ((k, s) \<noteq> (''agent_offline'', []) \<longrightarrow> db_life d' (agent, k, s) = db_life d (agent, k, s)) \<and>
    (resolve_online c io2 agent now2 d' = (None, d2) \<longrightarrow> active_at d2 agent ''agent_offline'' [] = None)"
proof -
  have ok: "alerts_ok d" using db_reachable_ok [OF assms(1)] by (simp add: db_ok_def)
  obtain xs where xs: "agent_last_seen (fst (io 0)) d = Inr xs"
      and each: "apply_each apply_rule io 1 (map (offline_rule c now) xs) now d = (None, d')"
    using assms(2) by (auto simp: evaluate_offline_def split: sum.splits)
  note mem = set_agent_last_seen [OF agents_wf [OF assms(1)] xs]
  have life: "db_life d' i = lives_after (map (offline_rule c now) xs) now i (db_life d i)" for i
    by (rule rules.apply_each_life [OF ok each])
  have keep: "i \<notin> rule_id ` set (map (offline_rule c now) xs) \<Longrightarrow> db_life d' i = db_life d i" for i
    using life lives_after_none by metis
  have alert: "active_at d' agent ''agent_offline'' [] \<noteq> None \<longleftrightarrow> n * second < now - parsed_or_zero seen"
    if g: "amap_get (db_agents d) agent = Some g" "gr_last_seen g = Some seen" for g seen
    using offline_lives [OF assms(1) xs assms(3-5) g] life db_life_Idle by metis
  have same: "db_life d' (agent, ''agent_offline'', []) = db_life d (agent, ''agent_offline'', [])"
    if "\<nexists>g seen. amap_get (db_agents d) agent = Some g \<and> gr_last_seen g = Some seen"
    by (rule keep) (use that mem in \<open>unfold offline_rule_keys, auto\<close>)
  have frame: "(k, s) \<noteq> (''agent_offline'', []) \<longrightarrow> db_life d' (agent, k, s) = db_life d (agent, k, s)"
    by (intro impI keep) (unfold offline_rule_keys, blast)
  have "alerts_ok d'" using rules.apply_each_ok [OF ok, of io 1 "map (offline_rule c now) xs" now] each by simp
  then have online: "resolve_online c io2 agent now2 d' = (None, d2) \<longrightarrow> active_at d2 agent ''agent_offline'' [] = None"
    using resolve_online_idle by blast
  show ?thesis
  proof (cases "map_option gr_last_seen (amap_get (db_agents d) agent)")
    case None
    then show ?thesis using same frame online by auto
  next
    case (Some o')
    then show ?thesis using same frame online alert by (cases o') (force split: option.splits)+
  qed
qed


theorem offline_watch_witness:
  "\<exists>d'. evaluate_offline server_defaults (calm_io 0) (121 * second) demo_saved = (None, d') \<and>
     active_at d' ''web'' ''agent_offline'' [] \<noteq> None"
proof -
  obtain d' where d': "evaluate_offline server_defaults (calm_io 0) (121 * second) demo_saved = (None, d')"
    using evaluate_offline_succeeds [of "calm_io 0" demo_saved server_defaults "121 * second"]
      agents_wf [OF demo_saved_reachable] by auto
  show ?thesis
    using d' offline_watch [OF demo_saved_reachable d', of 120 "''web''" "''agent_offline''" "[]"] demo_saved_ok(2)
    by (simp add: server_defaults_def parsed_or_zero_def parse_stamp_def parse_fraction_def second_def)
qed

end
