(* ===== verification/Report_Queue.thy ===== *)
theory Report_Queue
  imports Report
begin

text \<open>
  What the agent's sender relies on when it drains a queue of reports, as an interface: looking
  at the oldest report, and acknowledging a report by its sequence.  Either call may fail; the
  environment \<open>'e\<close> of a call decides how.
\<close>

locale report_queue =
  fixes items :: "'s \<Rightarrow> report list"
    and ok :: "'s \<Rightarrow> bool"
    and look :: "'e \<Rightarrow> 's \<Rightarrow> 'x + report option"
    and ack :: "'e \<Rightarrow> u64 \<Rightarrow> 's \<Rightarrow> 'x option \<times> 's"
  assumes look_head: "ok s \<Longrightarrow> look e s = Inr (Some r) \<Longrightarrow> \<exists>rs. items s = r # rs"
    and look_empty: "ok s \<Longrightarrow> look e s = Inr None \<Longrightarrow> items s = []"
    and ack_keeps: "ok s \<Longrightarrow> ok (snd (ack e n s))"
    and ack_items: "ok s \<Longrightarrow> items (snd (ack e n s)) = items s \<or>
      items (snd (ack e n s)) = filter (\<lambda>r. rep_sequence r \<noteq> n) (items s)"
    and ack_done: "ok s \<Longrightarrow> fst (ack e n s) = None \<Longrightarrow>
      items (snd (ack e n s)) = filter (\<lambda>r. rep_sequence r \<noteq> n) (items s)"
    and ordered: "ok s \<Longrightarrow> sorted_wrt (\<lambda>a b. rep_sequence a < rep_sequence b) (items s)"
begin

lemma ack_head:
  assumes "ok s" "items s = r # rs" "fst (ack e (rep_sequence r) s) = None"
  shows "items (snd (ack e (rep_sequence r) s)) = rs"
proof -
  have "\<forall>q \<in> set rs. rep_sequence q \<noteq> rep_sequence r" using ordered [OF assms(1)] assms(2) by auto
  then show ?thesis using ack_done [OF assms(1,3)] assms(2) by (simp add: filter_id_conv)
qed

text \<open>A report an acknowledgement removes is the acknowledged one.\<close>

lemma ack_removes_only:
  assumes "ok s" "r \<in> set (items s)" "r \<notin> set (items (snd (ack e n s)))"
  shows "rep_sequence r = n"
  using ack_items [OF assms(1), of e n] assms(2,3) by auto

lemma ack_no_new: "ok s \<Longrightarrow> set (items (snd (ack e n s))) \<subseteq> set (items s)"
  using ack_items [of s e n] by auto

text \<open>Draining: look, then acknowledge what was seen, as long as every call succeeds.\<close>

primrec drain :: "'e \<Rightarrow> nat \<Rightarrow> 's \<Rightarrow> report list \<times> 's" where
  "drain e 0 s = ([], s)"
| "drain e (Suc n) s =
     (case look e s of
        Inr (Some r) \<Rightarrow> (let (rs, s') = drain e n (snd (ack e (rep_sequence r) s)) in (r # rs, s'))
      | _ \<Rightarrow> ([], s))"

lemma drain_fifo:
  assumes "ok s" and "\<And>s. ok s \<Longrightarrow> \<exists>o'. look e s = Inr o'" and "\<And>s k. fst (ack e k s) = None"
  shows "ok (snd (drain e n s)) \<and> fst (drain e n s) = take n (items s) \<and>
    items (snd (drain e n s)) = drop n (items s)"
  using assms(1)
proof (induction n arbitrary: s)
  case 0
  then show ?case by simp
next
  case (Suc n)
  obtain o' where l: "look e s = Inr o'" using assms(2) Suc.prems by blast
  show ?case
  proof (cases o')
    case None
    then show ?thesis using l look_empty [OF Suc.prems] Suc.prems by simp
  next
    case (Some r)
    then obtain rs where rs: "items s = r # rs" using look_head [OF Suc.prems] l by blast
    note a = ack_head [OF Suc.prems rs assms(3)]
    show ?thesis using Suc.IH [OF ack_keeps [OF Suc.prems, of e "rep_sequence r"]] l Some rs a
      by (simp add: case_prod_beta)
  qed
qed

end

end
