(* ===== verification/Spool.thy ===== *)
theory Spool
  imports Report_Queue
begin

unbundle bit_operations_syntax

text \<open>
  The agent's on-disk queue (\<open>internal/agent/spool.go\<close>).  A spool directory is a finite map from
  file names to entries; every system call may fail (\<open>io_fails\<close>), the name a temporary file gets
  and the number of bytes a failing write leaves behind are part of the environment too.  The
  operations run under the spool's mutex, so each of them is one step.  \<open>json.Marshal\<close> and
  \<open>json.Unmarshal\<close> of a report are arguments (\<open>encode\<close>, \<open>decode\<close>).  The platform is not
  Windows; permission bits are octal in the source, \<open>0o600 = 384\<close> and \<open>0o077 = 63\<close>.
\<close>

definition maxSpoolReportBytes :: nat where
  "maxSpoolReportBytes = 262144"

datatype file_kind = RegularFile | DirectoryEntry | OtherEntry

record dentry =
  de_kind :: file_kind
  de_perm :: "32 word"
  de_content :: string

type_synonym dir = "(string, dentry) amap"

datatype fs_call =
    FsMkdirAll | FsChmodDir | FsReadDirClean | FsSyncClean | FsReadDir | FsInfo string
  | FsStat | FsCreateTemp | FsChmod | FsWrite | FsSync | FsClose | FsRename | FsSyncDir
  | FsSyncEvict | FsRemove string | FsOpen | FsRead | FsCloseRead

record fs_env =
  io_fails :: "fs_call \<Rightarrow> bool"
  io_temp :: string
  io_written :: nat

datatype spool_error =
    SpoolArguments | CreateSpoolDirectory | ProtectSpoolDirectory | ListTemporary
  | RemoveIncomplete | SpoolRequiresIdentity | EncodeReport | ReportTooLarge | AlreadyExists
  | InspectReport | CreateReport | ProtectReport | WriteReport | SyncReport | CloseReport
  | CommitReport | SyncSpoolDirectory | ReadReport | DecodeReport | MetadataMismatch
  | RemoveReport | EvictReport | SyncEviction | ListSpool | UnexpectedFile | InvalidFilename
  | InspectFile | NotRegular | UnsafePermissions

record spool_file =
  sf_name :: string
  sf_sequence :: u64
  sf_size :: nat

record spool =
  sp_dir :: dir
  sp_maximum :: int
  sp_wake :: bool

definition report_filename :: "u64 \<Rightarrow> string" where
  "report_filename sequence = pad_dec 20 sequence @ ''.json''"

definition is_temporary :: "string \<Rightarrow> bool" where
  "is_temporary name \<longleftrightarrow> has_prefix name ''.tmp-''"

subsection \<open>Listing\<close>

text \<open>The loop of \<open>listLocked\<close> over the directory's entries.\<close>

fun list_entries :: "fs_env \<Rightarrow> (string \<times> dentry) list \<Rightarrow> spool_error + spool_file list" where
  "list_entries env [] = Inr []"
| "list_entries env ((name, e) # rest) =
     (if de_kind e = DirectoryEntry \<or> is_temporary name then list_entries env rest
      else if \<not> has_suffix name ''.json'' then Inl UnexpectedFile
      else case parse_uint (trim_suffix name ''.json'') of
          None \<Rightarrow> Inl InvalidFilename
        | Some sequence \<Rightarrow>
            if sequence = 0 \<or> name \<noteq> report_filename sequence then Inl InvalidFilename
            else if io_fails env (FsInfo name) then Inl InspectFile
            else if de_kind e \<noteq> RegularFile then Inl NotRegular
            else if de_perm e AND 63 \<noteq> 0 then Inl UnsafePermissions
            else (case list_entries env rest of
                Inl err \<Rightarrow> Inl err
              | Inr files \<Rightarrow>
                  Inr (\<lparr>sf_name = name, sf_sequence = sequence, sf_size = length (de_content e)\<rparr> # files)))"

text \<open>\<open>os.ReadDir\<close> returns the entries sorted by name.\<close>

definition read_dir :: "dir \<Rightarrow> (string \<times> dentry) list" where
  "read_dir d = sort_key fst d"

definition list_locked :: "fs_env \<Rightarrow> dir \<Rightarrow> spool_error + spool_file list" where
  "list_locked env d =
     (if io_fails env FsReadDir then Inl ListSpool
      else case list_entries env (read_dir d) of
          Inl err \<Rightarrow> Inl err
        | Inr files \<Rightarrow> Inr (sort_key sf_sequence files))"

definition spool_len :: "fs_env \<Rightarrow> spool \<Rightarrow> spool_error + nat" where
  "spool_len env s = (case list_locked env (sp_dir s) of Inl e \<Rightarrow> Inl e | Inr files \<Rightarrow> Inr (length files))"

subsection \<open>Eviction\<close>

text \<open>The loop of \<open>trimLocked\<close>: the number of evicted reports so far, the error, the directory.\<close>

fun trim_loop :: "fs_env \<Rightarrow> int \<Rightarrow> spool_file list \<Rightarrow> nat \<Rightarrow> dir \<Rightarrow> nat \<times> spool_error option \<times> dir" where
  "trim_loop env maximum [] dropped d = (dropped, None, d)"
| "trim_loop env maximum (f # files) dropped d =
     (if maximum < int (length (f # files)) then
        (if io_fails env (FsRemove (sf_name f)) then (dropped, Some EvictReport, d)
         else trim_loop env maximum files (Suc dropped) (amap_del (sf_name f) d))
      else (dropped, None, d))"

definition trim_locked :: "fs_env \<Rightarrow> int \<Rightarrow> dir \<Rightarrow> nat \<times> spool_error option \<times> dir" where
  "trim_locked env maximum d =
     (case list_locked env d of
        Inl e \<Rightarrow> (0, Some e, d)
      | Inr files \<Rightarrow>
          (case trim_loop env maximum files 0 d of
             (dropped, Some e, d') \<Rightarrow> (dropped, Some e, d')
           | (dropped, None, d') \<Rightarrow>
               if 0 < dropped \<and> io_fails env FsSyncEvict then (dropped, Some SyncEviction, d')
               else (dropped, None, d')))"

subsection \<open>Creating the spool\<close>

fun clean_loop :: "fs_env \<Rightarrow> (string \<times> dentry) list \<Rightarrow> dir \<Rightarrow> spool_error option \<times> dir" where
  "clean_loop env [] d = (None, d)"
| "clean_loop env ((name, e) # rest) d =
     (if de_kind e = DirectoryEntry \<or> \<not> is_temporary name then clean_loop env rest d
      else if io_fails env (FsRemove name) then (Some RemoveIncomplete, d)
      else clean_loop env rest (amap_del name d))"

definition clean_temporary_files :: "fs_env \<Rightarrow> dir \<Rightarrow> spool_error option \<times> dir" where
  "clean_temporary_files env d =
     (if io_fails env FsReadDirClean then (Some ListTemporary, d)
      else case clean_loop env (read_dir d) d of
          (Some e, d') \<Rightarrow> (Some e, d')
        | (None, d') \<Rightarrow> (if io_fails env FsSyncClean then Some SyncSpoolDirectory else None, d'))"

text \<open>\<open>NewSpool\<close> on a directory with the given content (empty when it is created).\<close>

definition new_spool :: "fs_env \<Rightarrow> string \<Rightarrow> int \<Rightarrow> dir \<Rightarrow> (spool_error + spool) \<times> dir" where
  "new_spool env directory maximum d =
     (if directory = [] \<or> maximum < 1 then (Inl SpoolArguments, d)
      else if io_fails env FsMkdirAll then (Inl CreateSpoolDirectory, d)
      else if io_fails env FsChmodDir then (Inl ProtectSpoolDirectory, d)
      else case clean_temporary_files env d of
          (Some e, d1) \<Rightarrow> (Inl e, d1)
        | (None, d1) \<Rightarrow>
            (case trim_locked env maximum d1 of
               (_, Some e, d2) \<Rightarrow> (Inl e, d2)
             | (_, None, d2) \<Rightarrow> (Inr \<lparr>sp_dir = d2, sp_maximum = maximum, sp_wake = False\<rparr>, d2)))"

subsection \<open>Enqueue\<close>

text \<open>The deferred removal of a temporary file that was not committed; its error is dropped.\<close>

definition discard_temp :: "fs_env \<Rightarrow> dir \<Rightarrow> dir" where
  "discard_temp env d = (if io_fails env (FsRemove (io_temp env)) then d else amap_del (io_temp env) d)"

definition temp_entry :: "string \<Rightarrow> dentry" where
  "temp_entry content = \<lparr>de_kind = RegularFile, de_perm = 384, de_content = content\<rparr>"

definition enqueue ::
  "fs_env \<Rightarrow> (report \<Rightarrow> string option) \<Rightarrow> report \<Rightarrow> spool \<Rightarrow> (nat \<times> spool_error option) \<times> spool" where
  "enqueue env encode report s =
     (let d = sp_dir s; target = report_filename (rep_sequence report); temp = io_temp env;
          abort = (\<lambda>err content.
            ((0, Some err), s\<lparr>sp_dir := discard_temp env (amap_put temp (temp_entry content) d)\<rparr>)) in
      if rep_sequence report = 0 \<or> rep_agent_id report = [] then ((0, Some SpoolRequiresIdentity), s)
      else case encode report of
          None \<Rightarrow> ((0, Some EncodeReport), s)
        | Some payload \<Rightarrow>
            if maxSpoolReportBytes < length payload then ((0, Some ReportTooLarge), s)
            else if io_fails env FsStat then ((0, Some InspectReport), s)
            else if amap_get d target \<noteq> None then ((0, Some AlreadyExists), s)
            else if io_fails env FsCreateTemp then ((0, Some CreateReport), s)
            else if io_fails env FsChmod then abort ProtectReport []
            else if io_fails env FsWrite then abort WriteReport (take (io_written env) payload)
            else if io_fails env FsSync then abort SyncReport payload
            else if io_fails env FsClose then abort CloseReport payload
            else if io_fails env FsRename then abort CommitReport payload
            else
              (let d1 = amap_put target (temp_entry payload)
                          (amap_del temp (amap_put temp (temp_entry payload) d));
                   s1 = s\<lparr>sp_dir := d1, sp_wake := True\<rparr> in
               if io_fails env FsSyncDir then ((0, Some SyncSpoolDirectory), s1)
               else case trim_locked env (sp_maximum s) d1 of
                   (dropped, err, d2) \<Rightarrow> ((dropped, err), s1\<lparr>sp_dir := d2\<rparr>)))"

subsection \<open>Peek and Acknowledge\<close>

definition peek :: "fs_env \<Rightarrow> (string \<Rightarrow> report option) \<Rightarrow> spool \<Rightarrow> spool_error + report option" where
  "peek env decode s =
     (case list_locked env (sp_dir s) of
        Inl e \<Rightarrow> Inl e
      | Inr [] \<Rightarrow> Inr None
      | Inr (f # _) \<Rightarrow>
          if maxSpoolReportBytes < sf_size f then Inl ReportTooLarge
          else if io_fails env FsOpen then Inl ReadReport
          else case amap_get (sp_dir s) (sf_name f) of
              None \<Rightarrow> Inl ReadReport
            | Some e \<Rightarrow>
                let payload = take (Suc maxSpoolReportBytes) (de_content e) in
                if io_fails env FsRead then Inl ReadReport
                else if io_fails env FsCloseRead then Inl CloseReport
                else if maxSpoolReportBytes < length payload then Inl ReportTooLarge
                else case decode payload of
                    None \<Rightarrow> Inl DecodeReport
                  | Some report \<Rightarrow>
                      if rep_sequence report \<noteq> sf_sequence f \<or> rep_sequence report = 0 \<or>
                         rep_agent_id report = []
                      then Inl MetadataMismatch
                      else Inr (Some report))"

definition acknowledge :: "fs_env \<Rightarrow> u64 \<Rightarrow> spool \<Rightarrow> spool_error option \<times> spool" where
  "acknowledge env sequence s =
     (let name = report_filename sequence in
      if io_fails env (FsRemove name) then (Some RemoveReport, s)
      else
        (let s1 = s\<lparr>sp_dir := amap_del name (sp_dir s)\<rparr> in
         if io_fails env FsSyncDir then (Some SyncSpoolDirectory, s1) else (None, s1)))"


subsection \<open>Well-formed spools and their queue\<close>

text \<open>The entries the listing looks at, and the report an entry holds.\<close>

definition live :: "string \<times> dentry \<Rightarrow> bool" where
  "live x \<longleftrightarrow> \<not> (de_kind (snd x) = DirectoryEntry \<or> is_temporary (fst x))"

definition report_of :: "(string \<Rightarrow> report option) \<Rightarrow> string \<times> dentry \<Rightarrow> report" where
  "report_of decode x = the (decode (de_content (snd x)))"

definition holds_report :: "(string \<Rightarrow> report option) \<Rightarrow> string \<times> dentry \<Rightarrow> bool" where
  "holds_report decode x \<longleftrightarrow> (case decode (de_content (snd x)) of None \<Rightarrow> False
     | Some r \<Rightarrow> fst x = report_filename (rep_sequence r) \<and> rep_sequence r \<noteq> 0 \<and> rep_agent_id r \<noteq> []) \<and>
     de_kind (snd x) = RegularFile \<and> de_perm (snd x) AND 63 = 0 \<and>
     length (de_content (snd x)) \<le> maxSpoolReportBytes"

text \<open>A spool is well formed when every entry that is not a temporary file or a directory is a
  private regular file that holds the report its name announces.\<close>

definition spool_wf :: "(string \<Rightarrow> report option) \<Rightarrow> dir \<Rightarrow> bool" where
  "spool_wf decode d \<longleftrightarrow> amap_wf d \<and> (\<forall>x \<in> set d. live x \<longrightarrow> holds_report decode x)"

text \<open>The abstract state of a spool: the reports it holds, in the order of their sequence.\<close>

definition queue :: "(string \<Rightarrow> report option) \<Rightarrow> dir \<Rightarrow> report list" where
  "queue decode d = sort_key rep_sequence (map (report_of decode) (filter live d))"

subsection \<open>File names\<close>

lemma length_report_filename: "length (report_filename w) = 25"
  by (simp add: report_filename_def length_pad_dec)

lemma trim_report_filename: "trim_suffix (report_filename w) ''.json'' = pad_dec 20 w"
  by (simp add: report_filename_def)

lemma parse_report_filename: "parse_uint (trim_suffix (report_filename w) ''.json'') = Some w"
  by (simp add: trim_report_filename parse_pad)

lemma report_filename_inject [simp]: "report_filename a = report_filename b \<longleftrightarrow> a = b"
  by (simp add: report_filename_def pad_dec_inject)

lemma report_filename_order: "report_filename a < report_filename b \<longleftrightarrow> a < b"
  by (simp add: report_filename_def append_less_same_length length_pad_dec pad_dec_less)

lemma report_filename_suffix: "has_suffix (report_filename w) ''.json''"
  by (simp add: report_filename_def)

lemma pad_dec_first_digit: "is_digit (hd (pad_dec 20 w))" "pad_dec 20 w \<noteq> []"
proof -
  have "c \<in> set (pad_dec 20 w) \<Longrightarrow> is_digit c" for c
    by (auto simp: pad_dec_def format_uint_def is_digit_def code_def dest: dec_digits)
  moreover show "pad_dec 20 w \<noteq> []" using length_pad_dec [of w] by auto
  ultimately show "is_digit (hd (pad_dec 20 w))" by auto
qed

lemma report_not_temporary [simp]: "\<not> is_temporary (report_filename w)"
proof -
  obtain c cs where "pad_dec 20 w = c # cs" "is_digit c"
    using pad_dec_first_digit [of w] by (cases "pad_dec 20 w") auto
  then show ?thesis
    by (auto simp: is_temporary_def has_prefix_def report_filename_def is_digit_def code_def)
qed


subsection \<open>The queue of a well-formed spool\<close>

lemma holds_reportD:
  assumes "holds_report decode x"
  shows "decode (de_content (snd x)) = Some (report_of decode x)"
    "fst x = report_filename (rep_sequence (report_of decode x))"
    "rep_sequence (report_of decode x) \<noteq> 0" "rep_agent_id (report_of decode x) \<noteq> []"
    "de_kind (snd x) = RegularFile" "de_perm (snd x) AND 63 = 0"
    "length (de_content (snd x)) \<le> maxSpoolReportBytes"
  using assms by (auto simp: holds_report_def report_of_def split: option.splits)

lemma spool_wfD: "spool_wf decode d \<Longrightarrow> x \<in> set d \<Longrightarrow> live x \<Longrightarrow> holds_report decode x"
  by (simp add: spool_wf_def)

lemma set_queue: "set (queue decode d) = report_of decode ` {x \<in> set d. live x}"
  by (auto simp: queue_def)

lemma sorted_queue: "sorted (map rep_sequence (queue decode d))"
  by (simp add: queue_def)

lemma distinct_live_sequences:
  assumes "spool_wf decode d"
  shows "distinct (map rep_sequence (map (report_of decode) (filter live d)))"
proof -
  have "distinct (map fst (filter live d))"
    using assms by (simp add: spool_wf_def amap_wf_def distinct_map_filter_fst)
  moreover have "map fst (filter live d) =
      map (report_filename \<circ> rep_sequence \<circ> report_of decode) (filter live d)"
    using spool_wfD [OF assms] by (auto simp: holds_reportD)
  ultimately have "distinct (map report_filename
      (map rep_sequence (map (report_of decode) (filter live d))))"
    by (simp add: comp_assoc)
  then show ?thesis using distinct_map by blast
qed

lemma distinct_queue: "spool_wf decode d \<Longrightarrow> distinct (map rep_sequence (queue decode d))"
  using distinct_live_sequences [of decode d]
  by (simp add: queue_def distinct_map inj_on_def) blast

lemma distinct_sort_key_map: "distinct (map f xs) \<Longrightarrow> distinct (map f (sort_key f xs))"
  by (simp add: distinct_map distinct_sort)

lemma strict_sorted_queue:
  "spool_wf decode d \<Longrightarrow> sorted_wrt (\<lambda>a b. rep_sequence a < rep_sequence b) (queue decode d)"
  using sorted_queue [of decode d] distinct_queue [of decode d]
  by (metis sorted_wrt_map strict_sorted_iff)

text \<open>Two lists sorted by a key, without repeated keys, with the same elements are equal.\<close>

lemma sorted_by_key_unique:
  assumes "sorted (map f xs)" "sorted (map f ys)" "distinct (map f xs)" "distinct (map f ys)"
    and "set xs = set ys"
  shows "xs = ys"
proof (rule map_sorted_distinct_set_unique)
  show "inj_on f (set xs \<union> set ys)" using assms(3,5) by (simp add: distinct_map)
qed (use assms in auto)

lemma mem_queue_file:
  assumes "spool_wf decode d" "r \<in> set (queue decode d)"
  obtains e where "(report_filename (rep_sequence r), e) \<in> set d"
    "amap_get d (report_filename (rep_sequence r)) = Some e" "decode (de_content e) = Some r"
    "length (de_content e) \<le> maxSpoolReportBytes" "rep_sequence r \<noteq> 0" "rep_agent_id r \<noteq> []"
proof -
  obtain n e where x: "(n, e) \<in> set d" "live (n, e)" "r = report_of decode (n, e)"
    using assms(2) by (auto simp: set_queue)
  note h = holds_reportD [OF spool_wfD [OF assms(1) x(1,2)]]
  have "map_of d n = Some e" using assms(1) x(1) by (simp add: spool_wf_def amap_wf_def)
  then show ?thesis using that [of e] h x by (simp add: amap_get_def)
qed

lemma queue_mem_file:
  assumes "spool_wf decode d" "amap_get d (report_filename w) = Some e" "de_kind e \<noteq> DirectoryEntry"
  obtains r where "r \<in> set (queue decode d)" "rep_sequence r = w" "decode (de_content e) = Some r"
proof -
  let ?x = "(report_filename w, e)"
  have x: "?x \<in> set d" using assms(2) by (simp add: amap_get_def map_of_SomeD)
  have l: "live ?x" using assms(3) by (simp add: live_def)
  note h = holds_reportD [OF spool_wfD [OF assms(1) x l]]
  show ?thesis
  proof (rule that [of "report_of decode ?x"])
    show "report_of decode ?x \<in> set (queue decode d)" using x l by (auto simp: set_queue)
  qed (use h in simp_all)
qed

subsection \<open>Deleting and adding entries\<close>

lemma amap_del_filter: "amap_del k d = filter (\<lambda>x. fst x \<noteq> k) d"
  by (auto simp: amap_del_def AList.delete_eq intro!: filter_cong)

lemma set_amap_del: "set (amap_del k d) = {x \<in> set d. fst x \<noteq> k}"
  by (auto simp: amap_del_filter)

lemma spool_wf_del: "spool_wf decode d \<Longrightarrow> spool_wf decode (amap_del k d)"
  by (auto simp: spool_wf_def amap.wf_del set_amap_del)

lemma queue_del_report:
  assumes "spool_wf decode d"
  shows "queue decode (amap_del (report_filename w) d) =
    filter (\<lambda>r. rep_sequence r \<noteq> w) (queue decode d)"
proof -
  have "fst x \<noteq> report_filename w \<longleftrightarrow> rep_sequence (report_of decode x) \<noteq> w"
    if "x \<in> set d" "live x" for x
    using holds_reportD(2) [OF spool_wfD [OF assms that]] by simp
  then have "filter live (amap_del (report_filename w) d) =
      filter (\<lambda>x. rep_sequence (report_of decode x) \<noteq> w) (filter live d)"
    by (auto simp: amap_del_filter intro!: filter_cong)
  then show ?thesis
    by (simp add: queue_def filter_sort filter_map comp_def)
qed

lemma queue_del_temporary:
  "is_temporary k \<Longrightarrow> queue decode (amap_del k d) = queue decode d"
proof -
  assume "is_temporary k"
  then have "filter live (amap_del k d) = filter live d"
    by (auto simp: amap_del_filter live_def intro!: filter_cong)
  then show ?thesis by (simp add: queue_def)
qed

lemma amap_put_missing: "amap_get d k = None \<Longrightarrow> amap_put k v d = d @ [(k, v)]"
  unfolding amap_defs by (induction d) (auto split: if_splits)

lemma amap_del_missing: "amap_get d k = None \<Longrightarrow> amap_del k d = d"
  unfolding amap_get_def amap_del_filter by (induction d) (auto split: if_splits)

lemma amap_del_put_missing: "amap_get d k = None \<Longrightarrow> amap_del k (amap_put k v d) = d"
  using amap_del_missing [of d k] by (simp add: amap_put_missing) (simp add: amap_del_filter)

lemma amap_wf_snoc: "amap_wf d \<Longrightarrow> amap_get d k = None \<Longrightarrow> amap_wf (d @ [(k, v)])"
  using amap.wf_put [of d k v] by (simp add: amap_put_missing)

lemma spool_wf_put_temporary:
  "spool_wf decode d \<Longrightarrow> amap_get d k = None \<Longrightarrow> is_temporary k \<Longrightarrow>
    spool_wf decode (amap_put k (temp_entry c) d)"
  by (auto simp: spool_wf_def amap_put_missing live_def amap_wf_snoc)

lemma queue_put_temporary:
  "amap_get d k = None \<Longrightarrow> is_temporary k \<Longrightarrow> queue decode (amap_put k (temp_entry c) d) = queue decode d"
  by (simp add: amap_put_missing queue_def live_def)

lemma spool_wf_put_report:
  assumes "spool_wf decode d" "amap_get d (report_filename (rep_sequence r)) = None"
    and "decode c = Some r" "length c \<le> maxSpoolReportBytes"
    and "rep_sequence r \<noteq> 0" "rep_agent_id r \<noteq> []"
  shows "spool_wf decode (amap_put (report_filename (rep_sequence r)) (temp_entry c) d)"
proof -
  have "holds_report decode (report_filename (rep_sequence r), temp_entry c)"
    using assms by (simp add: holds_report_def temp_entry_def)
  then show ?thesis
    using assms(1,2) by (auto simp: spool_wf_def amap_put_missing amap_wf_snoc)
qed

lemma queue_put_report:
  assumes "spool_wf decode d" "amap_get d (report_filename (rep_sequence r)) = None"
    and "decode c = Some r" "length c \<le> maxSpoolReportBytes"
    and "rep_sequence r \<noteq> 0" "rep_agent_id r \<noteq> []"
  shows "queue decode (amap_put (report_filename (rep_sequence r)) (temp_entry c) d) =
    insort_key rep_sequence r (queue decode d)" (is "?l = _")
proof (rule sorted_by_key_unique [where f = rep_sequence])
  note wf' = spool_wf_put_report [OF assms]
  let ?x = "(report_filename (rep_sequence r), temp_entry c)"
  have "live ?x" "report_of decode ?x = r"
    using assms(3) by (simp_all add: live_def temp_entry_def report_of_def)
  then have "{x \<in> set (d @ [?x]). live x} = insert ?x {x \<in> set d. live x}" by auto
  then have s: "set ?l = insert r (set (queue decode d))"
    using assms(2) by (simp add: set_queue amap_put_missing \<open>report_of decode ?x = r\<close>)
  then show "set ?l = set (insort_key rep_sequence r (queue decode d))" by (simp add: set_insort_key)
  show "sorted (map rep_sequence ?l)" by (rule sorted_queue)
  show "sorted (map rep_sequence (insort_key rep_sequence r (queue decode d)))"
    by (simp add: sorted_insort_key sorted_queue)
  show "distinct (map rep_sequence ?l)" by (rule distinct_queue [OF wf'])
  have "rep_sequence r \<notin> rep_sequence ` set (queue decode d)"
  proof
    assume "rep_sequence r \<in> rep_sequence ` set (queue decode d)"
    then obtain q where q: "q \<in> set (queue decode d)" "rep_sequence q = rep_sequence r" by auto
    then show False using mem_queue_file [OF assms(1) q(1)] assms(2) by auto
  qed
  then show "distinct (map rep_sequence (insort_key rep_sequence r (queue decode d)))"
    using distinct_queue [OF assms(1)]
    by (simp add: distinct_map distinct_insort set_insort_key) (auto simp: inj_on_def)
qed


subsection \<open>The operations on a well-formed spool\<close>

definition file_of :: "dir \<Rightarrow> report \<Rightarrow> spool_file" where
  "file_of d r = \<lparr>sf_name = report_filename (rep_sequence r), sf_sequence = rep_sequence r,
     sf_size = (case amap_get d (report_filename (rep_sequence r)) of None \<Rightarrow> 0
                | Some e \<Rightarrow> length (de_content e))\<rparr>"

lemma file_of_simps [simp]:
  "sf_name (file_of d r) = report_filename (rep_sequence r)" "sf_sequence (file_of d r) = rep_sequence r"
  by (simp_all add: file_of_def)

lemma list_entries_wf:
  assumes "\<And>x. x \<in> set es \<Longrightarrow> live x \<Longrightarrow> holds_report decode x"
    and "\<And>x. x \<in> set es \<Longrightarrow> live x \<Longrightarrow> amap_get d (fst x) = Some (snd x)"
  shows "list_entries env es = Inr (map (file_of d \<circ> report_of decode) (filter live es)) \<or>
    (\<exists>err n. list_entries env es = Inl err \<and> io_fails env (FsInfo n))"
  using assms
proof (induction es)
  case Nil
  then show ?case by simp
next
  case (Cons x es)
  have ih: "list_entries env es = Inr (map (file_of d \<circ> report_of decode) (filter live es)) \<or>
      (\<exists>err n. list_entries env es = Inl err \<and> io_fails env (FsInfo n))"
    by (rule Cons.IH) (use Cons.prems in auto)
  obtain n e where x: "x = (n, e)" by force
  show ?case
  proof (cases "live x")
    case False
    then have "list_entries env (x # es) = list_entries env es" by (auto simp: x live_def)
    then show ?thesis using ih False by (simp only: filter.simps if_False)
  next
    case True
    note h = holds_reportD [OF Cons.prems(1) [OF _ True], simplified]
    have g: "amap_get d n = Some e" using Cons.prems(2) [OF _ True] x by simp
    obtain w where w: "rep_sequence (report_of decode x) = w" by blast
    have e: "w \<noteq> 0" "de_kind e = RegularFile" "de_perm e AND 63 = 0" "fst x = report_filename w"
      using h w x by simp_all
    then have n: "n = report_filename w" using x by simp
    have f: "file_of d (report_of decode x) =
        \<lparr>sf_name = report_filename w, sf_sequence = w, sf_size = length (de_content e)\<rparr>"
      using g by (simp add: file_of_def w n)
    have "list_entries env ((report_filename w, e) # es) = (if io_fails env (FsInfo n) then Inl InspectFile else
        (case list_entries env es of Inl err \<Rightarrow> Inl err
         | Inr files \<Rightarrow> Inr (file_of d (report_of decode x) # files)))"
      unfolding f using e(1-3) by (simp add: n report_filename_suffix parse_report_filename)
    then have "list_entries env (x # es) = (if io_fails env (FsInfo n) then Inl InspectFile else
        (case list_entries env es of Inl err \<Rightarrow> Inl err
         | Inr files \<Rightarrow> Inr (file_of d (report_of decode x) # files)))"
      by (simp only: x n)
    then show ?thesis using True ih by auto
  qed
qed

lemma list_locked_wf:
  assumes "spool_wf decode d"
  shows "list_locked env d = Inr (map (file_of d) (queue decode d)) \<or>
    (\<exists>err c. list_locked env d = Inl err \<and> io_fails env c)"
proof -
  have "amap_get d (fst x) = Some (snd x)" if "x \<in> set d" for x
    using assms(1) that by (simp add: spool_wf_def amap_defs)
  then have l: "list_entries env (read_dir d) =
        Inr (map (file_of d \<circ> report_of decode) (filter live (read_dir d))) \<or>
      (\<exists>err n. list_entries env (read_dir d) = Inl err \<and> io_fails env (FsInfo n))"
    using assms by (intro list_entries_wf) (auto simp: read_dir_def spool_wf_def)
  let ?ys = "map (report_of decode) (filter live (read_dir d))"
  let ?xs = "sort_key sf_sequence (map (file_of d) ?ys)"
  have dist: "distinct (map rep_sequence ?ys)"
    using distinct_live_sequences [OF assms(1)]
    by (simp add: read_dir_def distinct_map filter_sort inj_on_def distinct_sort)
  have "?xs = map (file_of d) (queue decode d)"
  proof (rule sorted_by_key_unique [where f = sf_sequence])
    show "set ?xs = set (map (file_of d) (queue decode d))"
      by (auto simp: read_dir_def set_queue)
    have "distinct (map sf_sequence (map (file_of d) ?ys))" using dist by (simp add: comp_def)
    then show "distinct (map sf_sequence ?xs)" by (rule distinct_sort_key_map)
  qed (use sorted_queue [of decode d] distinct_queue [OF assms(1)] in \<open>simp_all add: comp_def\<close>)
  then show ?thesis using l by (auto simp: list_locked_def comp_def)
qed

text \<open>Evicting keeps the spool well formed and drops reports from the front of the queue only,
  whatever fails on the way.\<close>

lemma trim_loop_queue:
  assumes "spool_wf decode d"
    and "map sf_name files = map (report_filename \<circ> rep_sequence) (queue decode d)"
    and "trim_loop env maximum files n d = (n', err, d')"
  shows "spool_wf decode d' \<and> queue decode d' = drop (n' - n) (queue decode d) \<and> n \<le> n' \<and>
    (err = None \<longrightarrow> int (length (queue decode d')) \<le> max 0 maximum) \<and>
    (n < n' \<longrightarrow> maximum \<le> int (length (queue decode d')))"
  using assms
proof (induction files arbitrary: n d)
  case Nil
  then show ?case by auto
next
  case (Cons f files)
  let ?q = "queue decode d"
  have len: "length ?q = Suc (length files)" using Cons.prems(2) by (metis length_Cons length_map)
  then obtain r rs where q: "?q = r # rs" by (cases ?q) auto
  have f: "sf_name f = report_filename (rep_sequence r)"
      "map sf_name files = map (report_filename \<circ> rep_sequence) rs"
    using Cons.prems(2) q by auto
  show ?case
  proof (cases "maximum < int (length (f # files)) \<and> \<not> io_fails env (FsRemove (sf_name f))")
    case True
    let ?d = "amap_del (sf_name f) d"
    have "\<And>s. s \<in> set rs \<Longrightarrow> rep_sequence s \<noteq> rep_sequence r"
      using strict_sorted_queue [OF Cons.prems(1)] q by auto
    then have q': "queue decode ?d = rs"
      using queue_del_report [OF Cons.prems(1)] q f by (simp add: filter_id_conv)
    have "trim_loop env maximum files (Suc n) ?d = (n', err, d')"
      using Cons.prems(3) True by simp
    then have ih: "spool_wf decode d' \<and> queue decode d' = drop (n' - Suc n) rs \<and> Suc n \<le> n' \<and>
        (err = None \<longrightarrow> int (length (queue decode d')) \<le> max 0 maximum) \<and>
        (Suc n < n' \<longrightarrow> maximum \<le> int (length (queue decode d')))"
      using Cons.IH [of ?d "Suc n"] spool_wf_del [OF Cons.prems(1)] q' f(2) by metis
    from ih have "n' - n = Suc (n' - Suc n)" by linarith
    moreover have "n' = Suc n \<longrightarrow> maximum \<le> int (length rs)"
      using True q len by auto
    ultimately show ?thesis using ih q by (cases "n' = Suc n") auto
  next
    case False
    then show ?thesis using Cons.prems q len by (auto split: if_splits)
  qed
qed

lemma trim_loop_ok:
  "(\<And>f. f \<in> set files \<Longrightarrow> \<not> io_fails env (FsRemove (sf_name f))) \<Longrightarrow>
    fst (snd (trim_loop env maximum files n d)) = None"
  by (induction files arbitrary: n d) auto

text \<open>No file-system call fails.\<close>

definition io_ok :: "fs_env \<Rightarrow> bool" where
  "io_ok env \<longleftrightarrow> (\<forall>c. \<not> io_fails env c)"

lemma trim_locked_queue:
  assumes "spool_wf decode d" and "trim_locked env maximum d = (n, err, d')"
  shows "spool_wf decode d'" "queue decode d' = drop n (queue decode d)"
    "n \<noteq> 0 \<Longrightarrow> maximum \<le> int (length (queue decode d'))"
    "err = None \<Longrightarrow> int (length (queue decode d')) \<le> max 0 maximum"
    "io_ok env \<Longrightarrow> err = None"
proof -
  have "spool_wf decode d' \<and> queue decode d' = drop n (queue decode d) \<and>
      (n \<noteq> 0 \<longrightarrow> maximum \<le> int (length (queue decode d'))) \<and>
      (err = None \<longrightarrow> int (length (queue decode d')) \<le> max 0 maximum) \<and>
      (io_ok env \<longrightarrow> err = None)"
  proof (cases "list_locked env d")
    case (Inl e)
    then have "\<not> io_ok env" using list_locked_wf [OF assms(1), of env] by (auto simp: io_ok_def)
    then show ?thesis using Inl assms by (auto simp: trim_locked_def)
  next
    case (Inr files)
    then have files: "map sf_name files = map (report_filename \<circ> rep_sequence) (queue decode d)"
      using list_locked_wf [OF assms(1), of env] by (auto simp: comp_def)
    obtain n1 e1 d1 where t: "trim_loop env maximum files 0 d = (n1, e1, d1)"
      by (metis prod_cases3)
    have "io_ok env \<longrightarrow> e1 = None" using trim_loop_ok [of files env maximum 0 d] t
      by (auto simp: io_ok_def)
    then show ?thesis using trim_loop_queue [OF assms(1) files t] assms(2) Inr t
      by (auto simp: trim_locked_def io_ok_def split: option.splits if_splits)
  qed
  then show "spool_wf decode d'" "queue decode d' = drop n (queue decode d)"
    "n \<noteq> 0 \<Longrightarrow> maximum \<le> int (length (queue decode d'))"
    "err = None \<Longrightarrow> int (length (queue decode d')) \<le> max 0 maximum"
    "io_ok env \<Longrightarrow> err = None" by auto
qed


text \<open>\<open>os.CreateTemp(dir, ".tmp-*")\<close> picks a fresh name with that prefix.\<close>

definition temp_fresh :: "fs_env \<Rightarrow> dir \<Rightarrow> bool" where
  "temp_fresh env d \<longleftrightarrow> is_temporary (io_temp env) \<and> amap_get d (io_temp env) = None"

lemma discard_temp_queue:
  assumes "spool_wf decode d" "temp_fresh env d"
  shows "spool_wf decode (discard_temp env (amap_put (io_temp env) (temp_entry c) d))"
    "queue decode (discard_temp env (amap_put (io_temp env) (temp_entry c) d)) = queue decode d"
  using assms spool_wf_put_temporary [of decode d "io_temp env" c]
    queue_put_temporary [of d "io_temp env" decode c]
  by (auto simp: discard_temp_def temp_fresh_def amap_del_put_missing)

text \<open>What \<open>Enqueue\<close> can do to a well-formed spool, whatever fails: nothing, with an error; or
  insert the report and evict from the front.\<close>

lemma enqueue_effect:
  assumes wf: "spool_wf decode (sp_dir s)" and fresh: "temp_fresh env (sp_dir s)"
    and codec: "\<forall>p. encode r = Some p \<longrightarrow> decode p = Some r"
    and step: "enqueue env encode r s = ((n, err), s')"
  obtains (refused) "err \<noteq> None" "n = 0" "sp_wake s' = sp_wake s" "sp_maximum s' = sp_maximum s"
      "spool_wf decode (sp_dir s')" "queue decode (sp_dir s') = queue decode (sp_dir s)"
    | (committed) "sp_wake s'" "sp_maximum s' = sp_maximum s" "spool_wf decode (sp_dir s')"
      "queue decode (sp_dir s') = drop n (insort_key rep_sequence r (queue decode (sp_dir s)))"
      "n \<noteq> 0 \<Longrightarrow> sp_maximum s \<le> int (length (queue decode (sp_dir s')))"
      "err = None \<Longrightarrow> int (length (queue decode (sp_dir s'))) \<le> max 0 (sp_maximum s)"
      "io_ok env \<Longrightarrow> err = None"
      "rep_sequence r \<noteq> 0" "amap_get (sp_dir s) (report_filename (rep_sequence r)) = None"
proof (cases "rep_sequence r = 0 \<or> rep_agent_id r = [] \<or> encode r = None \<or>
    maxSpoolReportBytes < length (the (encode r)) \<or> io_fails env FsStat \<or>
    amap_get (sp_dir s) (report_filename (rep_sequence r)) \<noteq> None \<or> io_fails env FsCreateTemp \<or>
    io_fails env FsChmod \<or> io_fails env FsWrite \<or> io_fails env FsSync \<or> io_fails env FsClose \<or>
    io_fails env FsRename")
  case True
  then have "err \<noteq> None \<and> n = 0 \<and> sp_wake s' = sp_wake s \<and> sp_maximum s' = sp_maximum s \<and>
      (sp_dir s' = sp_dir s \<or>
       (\<exists>c. sp_dir s' = discard_temp env (amap_put (io_temp env) (temp_entry c) (sp_dir s))))"
    using step by (auto simp: enqueue_def Let_def split: if_splits option.splits)
  then show ?thesis using refused wf discard_temp_queue [OF wf fresh] by metis
next
  case False
  then obtain p where p: "encode r = Some p" "length p \<le> maxSpoolReportBytes" by auto
  let ?t = "report_filename (rep_sequence r)" and ?d = "sp_dir s"
  let ?d1 = "amap_put ?t (temp_entry p) ?d"
  have d1: "amap_put ?t (temp_entry p) (amap_del (io_temp env) (amap_put (io_temp env) (temp_entry p) ?d)) = ?d1"
    using fresh by (simp add: temp_fresh_def amap_del_put_missing)
  have new: "amap_get ?d ?t = None" "rep_sequence r \<noteq> 0" "rep_agent_id r \<noteq> []" using False by auto
  note q1 = spool_wf_put_report [OF wf new(1) codec [rule_format, OF p(1)] p(2) new(2,3)]
    queue_put_report [OF wf new(1) codec [rule_format, OF p(1)] p(2) new(2,3)]
  obtain n1 e1 d2 where t: "trim_locked env (sp_maximum s) ?d1 = (n1, e1, d2)" by (metis prod_cases3)
  have s': "((n, err), s') = (if io_fails env FsSyncDir
      then ((0, Some SyncSpoolDirectory), s\<lparr>sp_dir := ?d1, sp_wake := True\<rparr>)
      else ((n1, e1), s\<lparr>sp_dir := d2, sp_wake := True\<rparr>))"
    using step False p by (auto simp: enqueue_def Let_def d1 t split: if_splits)
  show ?thesis
  proof (rule committed)
    show "rep_sequence r \<noteq> 0" "amap_get ?d ?t = None" using new by auto
  qed (use s' q1 trim_locked_queue [OF q1(1) t] in \<open>auto simp: io_ok_def split: if_splits\<close>)
qed

text \<open>\<open>Enqueue\<close> when nothing fails.\<close>

lemma enqueue_ok:
  assumes "io_ok env" "rep_sequence r \<noteq> 0" "rep_agent_id r \<noteq> []" "encode r = Some p"
    "length p \<le> maxSpoolReportBytes" "amap_get (sp_dir s) (report_filename (rep_sequence r)) = None"
    and wf: "spool_wf decode (sp_dir s)" and fresh: "temp_fresh env (sp_dir s)"
    and codec: "\<forall>p. encode r = Some p \<longrightarrow> decode p = Some r"
    and step: "enqueue env encode r s = ((n, err), s')" and max: "0 < sp_maximum s"
  shows "err = None" "sp_wake s'" "spool_wf decode (sp_dir s')"
    "n = Suc (length (queue decode (sp_dir s))) - nat (sp_maximum s)"
    "queue decode (sp_dir s') = drop n (insort_key rep_sequence r (queue decode (sp_dir s)))"
proof -
  have not_refused: "err = None"
  proof -
    let ?d1 = "amap_put (report_filename (rep_sequence r)) (temp_entry p)
        (amap_del (io_temp env) (amap_put (io_temp env) (temp_entry p) (sp_dir s)))"
    have d1: "?d1 = amap_put (report_filename (rep_sequence r)) (temp_entry p) (sp_dir s)"
      using fresh by (simp add: temp_fresh_def amap_del_put_missing)
    obtain n1 e1 d2 where t: "trim_locked env (sp_maximum s) ?d1 = (n1, e1, d2)" by (metis prod_cases3)
    have "err = e1" using step assms(1-6) t by (simp add: enqueue_def Let_def io_ok_def)
    then show ?thesis
      using trim_locked_queue(5) [OF spool_wf_put_report [OF wf assms(6) codec [rule_format, OF assms(4)] assms(5,2,3)]
          t [unfolded d1] assms(1)] by simp
  qed
  have out: "sp_wake s'" "spool_wf decode (sp_dir s')"
      "queue decode (sp_dir s') = drop n (insort_key rep_sequence r (queue decode (sp_dir s)))"
      "n \<noteq> 0 \<Longrightarrow> sp_maximum s \<le> int (length (queue decode (sp_dir s')))"
      "int (length (queue decode (sp_dir s'))) \<le> max 0 (sp_maximum s)"
    using not_refused by (cases rule: enqueue_effect [OF wf fresh codec step], simp_all)+
  have "length (queue decode (sp_dir s')) = Suc (length (queue decode (sp_dir s))) - n"
    by (simp add: out(3))
  then show "n = Suc (length (queue decode (sp_dir s))) - nat (sp_maximum s)"
    using out(4,5) max by (cases "n = 0") auto
  show "err = None" "sp_wake s'" "spool_wf decode (sp_dir s')"
    "queue decode (sp_dir s') = drop n (insort_key rep_sequence r (queue decode (sp_dir s)))"
    by (fact not_refused out)+
qed


text \<open>\<open>Peek\<close> returns the oldest report, or nothing exactly when the spool is empty.\<close>

lemma peek_wf:
  assumes "spool_wf decode (sp_dir s)"
  shows "peek env decode s = (case queue decode (sp_dir s) of [] \<Rightarrow> Inr None | r # _ \<Rightarrow> Inr (Some r)) \<or>
    (\<exists>err c. peek env decode s = Inl err \<and> io_fails env c)"
proof (cases "queue decode (sp_dir s)")
  case Nil
  then show ?thesis using list_locked_wf [OF assms, of env] by (auto simp: peek_def)
next
  case (Cons r rs)
  then have "r \<in> set (queue decode (sp_dir s))" by simp
  then obtain e where e: "amap_get (sp_dir s) (report_filename (rep_sequence r)) = Some e"
      "decode (de_content e) = Some r" "length (de_content e) \<le> maxSpoolReportBytes"
      "rep_sequence r \<noteq> 0" "rep_agent_id r \<noteq> []"
    by (rule mem_queue_file [OF assms]) blast
  have "sf_size (file_of (sp_dir s) r) = length (de_content e)" using e(1) by (simp add: file_of_def)
  then have "peek env decode s = Inr (Some r) \<or> (\<exists>err c. peek env decode s = Inl err \<and> io_fails env c)"
    if "list_locked env (sp_dir s) = Inr (file_of (sp_dir s) r # map (file_of (sp_dir s)) rs)"
    using that e
    by (cases "io_fails env FsOpen"; cases "io_fails env FsRead"; cases "io_fails env FsCloseRead")
      (auto simp: peek_def Let_def)
  then show ?thesis using list_locked_wf [OF assms, of env] Cons by (auto simp: peek_def)
qed

lemma peek_Some:
  "spool_wf decode (sp_dir s) \<Longrightarrow> peek env decode s = Inr (Some r) \<Longrightarrow>
    \<exists>rs. queue decode (sp_dir s) = r # rs"
  using peek_wf [of decode s env] by (auto split: list.splits)

lemma peek_None:
  "spool_wf decode (sp_dir s) \<Longrightarrow> peek env decode s = Inr None \<Longrightarrow> queue decode (sp_dir s) = []"
  using peek_wf [of decode s env] by (auto split: list.splits)

lemma peek_io_ok:
  "spool_wf decode (sp_dir s) \<Longrightarrow> io_ok env \<Longrightarrow> \<exists>o'. peek env decode s = Inr o'"
  using peek_wf [of decode s env] by (auto simp: io_ok_def split: list.splits)

lemma acknowledge_cases:
  "acknowledge env n s = (err, s') \<Longrightarrow>
    (s' = s \<and> err \<noteq> None) \<or> s' = s\<lparr>sp_dir := amap_del (report_filename n) (sp_dir s)\<rparr>"
  by (auto simp: acknowledge_def Let_def split: if_splits)

lemma acknowledge_unchanged [simp]:
  "sp_wake (snd (acknowledge env n s)) = sp_wake s"
  "sp_maximum (snd (acknowledge env n s)) = sp_maximum s"
  by (simp_all add: acknowledge_def Let_def)

lemma acknowledge_io_ok: "io_ok env \<Longrightarrow> fst (acknowledge env n s) = None"
  by (simp add: acknowledge_def Let_def io_ok_def)

text \<open>The spool provides the sender's interface, for every decoder of reports.\<close>

interpretation spool: report_queue
  "\<lambda>s. queue decode (sp_dir s)" "\<lambda>s. spool_wf decode (sp_dir s)"
  "\<lambda>env. peek env decode" acknowledge
  for decode :: "string \<Rightarrow> report option"
proof unfold_locales
  fix s :: spool and env n
  assume wf: "spool_wf decode (sp_dir s)"
  obtain err s' where a: "acknowledge env n s = (err, s')" by force
  note c = acknowledge_cases [OF a]
  show "spool_wf decode (sp_dir (snd (acknowledge env n s)))"
    using c a wf spool_wf_del [OF wf] by auto
  show "queue decode (sp_dir (snd (acknowledge env n s))) = queue decode (sp_dir s) \<or>
      queue decode (sp_dir (snd (acknowledge env n s))) =
      filter (\<lambda>r. rep_sequence r \<noteq> n) (queue decode (sp_dir s))"
    using c a queue_del_report [OF wf] by auto
  show "queue decode (sp_dir (snd (acknowledge env n s))) =
      filter (\<lambda>r. rep_sequence r \<noteq> n) (queue decode (sp_dir s))"
    if "fst (acknowledge env n s) = None"
    using that c a queue_del_report [OF wf] by auto
  show "sorted_wrt (\<lambda>a b. rep_sequence a < rep_sequence b) (queue decode (sp_dir s))"
    by (rule strict_sorted_queue [OF wf])
qed (auto dest: peek_Some peek_None)

subsection \<open>Creating a spool\<close>

lemma clean_loop_queue:
  assumes "clean_loop env es d = (err, d')" "spool_wf decode d"
  shows "spool_wf decode d' \<and> queue decode d' = queue decode d"
  using assms
proof (induction env es d rule: clean_loop.induct)
  case (2 env name e rest d)
  then show ?case
    using spool_wf_del [OF "2.prems"(2), of name] queue_del_temporary [of name decode d]
    by (auto split: if_splits)
qed simp

text \<open>\<open>NewSpool\<close> keeps the newest reports of the directory it opens, up to its capacity.\<close>

lemma new_spool_queue:
  assumes "spool_wf decode d" "new_spool env directory maximum d = (Inr s, d')"
  shows "sp_dir s = d'" "spool_wf decode d'" "sp_maximum s = maximum" "0 < maximum" "\<not> sp_wake s"
    "\<exists>n. queue decode d' = drop n (queue decode d) \<and>
      (n \<noteq> 0 \<longrightarrow> int (length (queue decode d')) = maximum)"
    "int (length (queue decode d')) \<le> maximum"
proof -
  obtain e1 d1 where c: "clean_temporary_files env d = (e1, d1)" by force
  obtain n e2 d2 where t: "trim_locked env maximum d1 = (n, e2, d2)" by (metis prod_cases3)
  have e: "e1 = None" "e2 = None" "d' = d2" "0 < maximum"
      "s = \<lparr>sp_dir = d2, sp_maximum = maximum, sp_wake = False\<rparr>"
    using assms(2) c t by (auto simp: new_spool_def split: if_splits option.splits)
  obtain e0 where "clean_loop env (read_dir d) d = (e0, d1)"
    using c by (auto simp: clean_temporary_files_def e(1) split: if_splits prod.splits option.splits)
  then have w: "spool_wf decode d1" "queue decode d1 = queue decode d"
    using clean_loop_queue assms(1) by blast+
  note q = trim_locked_queue [OF w(1) t]
  show "sp_dir s = d'" "sp_maximum s = maximum" "0 < maximum" "\<not> sp_wake s" using e by simp_all
  show "spool_wf decode d'" using q(1) e by simp
  show le: "int (length (queue decode d')) \<le> maximum" using q(4) e by simp
  show "\<exists>n. queue decode d' = drop n (queue decode d) \<and>
      (n \<noteq> 0 \<longrightarrow> int (length (queue decode d')) = maximum)"
    using q(2,3) w(2) e le by (intro exI [of _ n]) auto
qed


text \<open>Even a failing \<open>NewSpool\<close> only drops reports from the front.\<close>

lemma new_spool_error_queue:
  assumes "spool_wf decode d" "new_spool env directory maximum d = (r, d')"
  shows "spool_wf decode d' \<and> (\<exists>n. queue decode d' = drop n (queue decode d) \<and>
    (n \<noteq> 0 \<longrightarrow> maximum \<le> int (length (queue decode d'))))"
proof -
  obtain e1 d1 where c: "clean_temporary_files env d = (e1, d1)" by force
  obtain n e2 d2 where t: "trim_locked env maximum d1 = (n, e2, d2)" by (metis prod_cases3)
  have w: "spool_wf decode d1" "queue decode d1 = queue decode d"
    using clean_loop_queue [of env "read_dir d" d _ _ decode] c assms(1)
    by (cases "clean_loop env (read_dir d) d";
        auto simp: clean_temporary_files_def split: if_splits option.splits)+
  have "d' = d \<or> d' = d1 \<or> d' = d2"
    using assms(2) by (auto simp: new_spool_def c t split: if_splits option.splits)
  then show ?thesis
  proof (elim disjE)
    assume "d' = d2"
    then show ?thesis using trim_locked_queue(1-3) [OF w(1) t] w by auto
  qed (use w assms(1) in \<open>simp_all add: exI [of _ 0]\<close>)
qed

subsection \<open>Regular files only\<close>

text \<open>The program never makes a directory inside its spool.\<close>

definition regular :: "dir \<Rightarrow> bool" where
  "regular d \<longleftrightarrow> (\<forall>x \<in> set d. de_kind (snd x) = RegularFile)"

lemma regular_del [inv_intros]: "regular d \<Longrightarrow> regular (amap_del k d)"
  by (auto simp: regular_def set_amap_del)

lemma regular_put [inv_intros]: "regular d \<Longrightarrow> regular (amap_put k (temp_entry c) d)"
  unfolding regular_def amap_put_def temp_entry_def by (induction d) auto

lemma regular_trim_loop [inv_intros]:
  "regular d \<Longrightarrow> regular (snd (snd (trim_loop env maximum files n d)))"
  by (induction files arbitrary: n d) (auto intro: regular_del)

lemma regular_trim_locked [inv_intros]: "regular d \<Longrightarrow> regular (snd (snd (trim_locked env maximum d)))"
  using regular_trim_loop [of d env maximum]
  by (auto simp: trim_locked_def split: sum.splits prod.splits option.splits)
    (metis snd_conv)+

lemma regular_clean_loop: "regular d \<Longrightarrow> regular (snd (clean_loop env es d))"
  by (induction env es d rule: clean_loop.induct) (auto intro: regular_del)

lemma regular_new_spool [inv_intros]:
  assumes "regular d"
  shows "regular (snd (new_spool env directory maximum d))"
proof -
  obtain e1 d1 where c: "clean_temporary_files env d = (e1, d1)" by force
  obtain n e2 d2 where t: "trim_locked env maximum d1 = (n, e2, d2)" by (metis prod_cases3)
  have "regular d1"
    using regular_clean_loop [OF assms, of env "read_dir d"] c assms
    by (cases "clean_loop env (read_dir d) d")
      (auto simp: clean_temporary_files_def split: if_splits option.splits)
  moreover from this have "regular d2" using regular_trim_locked [of d1 env maximum] t by simp
  ultimately show ?thesis using assms by (simp add: new_spool_def c t split: option.splits)
qed

lemma regular_discard: "regular d \<Longrightarrow> regular (discard_temp env d)"
  by (simp add: discard_temp_def regular_del)

lemma regular_enqueue [inv_intros]:
  assumes "regular (sp_dir s)"
  shows "regular (sp_dir (snd (enqueue env encode r s)))"
proof -
  have "regular (snd (snd (trim_locked env m (amap_put k (temp_entry q)
      (amap_del k' (amap_put k' (temp_entry q) (sp_dir s)))))))" for m k q k'
    by (intro inv_intros assms)
  then show ?thesis using assms
    by (auto simp: enqueue_def Let_def intro!: inv_intros regular_discard
        split: option.splits prod.splits) (metis snd_conv)
qed

lemma regular_acknowledge [inv_intros]:
  "regular (sp_dir s) \<Longrightarrow> regular (sp_dir (snd (acknowledge env n s)))"
  by (simp add: acknowledge_def Let_def regular_del)


subsection \<open>Properties\<close>

text \<open>An environment in which every call succeeds.\<close>

definition calm :: fs_env where
  "calm = \<lparr>io_fails = (\<lambda>_. False), io_temp = ''.tmp-1'', io_written = 0\<rparr>"

lemma calm_temporary: "is_temporary ''.tmp-1''" "report_filename w \<noteq> ''.tmp-1''" "''.tmp-1'' \<noteq> report_filename w"
proof -
  show t: "is_temporary ''.tmp-1''" by (simp add: is_temporary_def has_prefix_def)
  then show "report_filename w \<noteq> ''.tmp-1''" using report_not_temporary [of w] by metis
  then show "''.tmp-1'' \<noteq> report_filename w" by simp
qed


text \<open>C29. Enqueueing is a bounded FIFO insertion: on a well-formed spool where nothing fails, a new
  report is put into the queue by its sequence, exactly as many of the oldest reports as exceed
  the capacity are dropped and counted, and the sender is woken.\<close>

theorem enqueue_bounded_fifo:
  assumes "spool_wf decode (sp_dir s)" and "0 < sp_maximum s" and "io_ok env"
    and "temp_fresh env (sp_dir s)" and "rep_sequence r \<noteq> 0" and "rep_agent_id r \<noteq> []"
    and "encode r = Some p" and "decode p = Some r" and "length p \<le> maxSpoolReportBytes"
    and "amap_get (sp_dir s) (report_filename (rep_sequence r)) = None"
  shows "fst (enqueue env encode r s) =
      (Suc (length (queue decode (sp_dir s))) - nat (sp_maximum s), None) \<and>
    queue decode (sp_dir (snd (enqueue env encode r s))) =
      drop (Suc (length (queue decode (sp_dir s))) - nat (sp_maximum s))
        (insort_key rep_sequence r (queue decode (sp_dir s))) \<and>
    spool_wf decode (sp_dir (snd (enqueue env encode r s))) \<and>
    sp_wake (snd (enqueue env encode r s))"
proof -
  obtain n err s' where e: "enqueue env encode r s = ((n, err), s')" by (metis prod.collapse)
  note q = enqueue_ok [OF assms(3,5-7,9,10,1,4) _ e assms(2)]
  have "\<forall>p. encode r = Some p \<longrightarrow> decode p = Some r" using assms(7,8) by simp
  then show ?thesis using q e by simp
qed

definition full_spool :: spool where
  "full_spool = \<lparr>sp_dir = [(report_filename 1, temp_entry ''a'')], sp_maximum = 1, sp_wake = False\<rparr>"

fun two_decode :: "string \<Rightarrow> report option" where
  "two_decode (c # _) = Some (if c = CHR ''a'' then zero_report ''web'' 1 5 else zero_report ''web'' 2 6)"
| "two_decode [] = None"

lemma full_spool_wf: "spool_wf two_decode (sp_dir full_spool)"
  "queue two_decode (sp_dir full_spool) = [zero_report ''web'' 1 5]"
  by (simp_all add: full_spool_def spool_wf_def amap_wf_def holds_report_def temp_entry_def
      zero_report_def queue_def live_def report_of_def maxSpoolReportBytes_def)

theorem enqueue_bounded_fifo_witness:
  "fst (enqueue calm (\<lambda>_. Some ''b'')
      (zero_report ''web'' 2 6) full_spool) = (1, None) \<and>
   queue two_decode (sp_dir (snd (enqueue calm
      (\<lambda>_. Some ''b'') (zero_report ''web'' 2 6) full_spool))) = [zero_report ''web'' 2 6]"
proof -
  have "io_ok calm" by (simp add: io_ok_def calm_def)
  moreover have "temp_fresh calm (sp_dir full_spool)"
    by (simp add: temp_fresh_def calm_def full_spool_def calm_temporary amap_get_def)
  moreover have "amap_get (sp_dir full_spool) (report_filename (rep_sequence (zero_report ''web'' 2 6))) = None"
    by (simp add: full_spool_def amap_get_def)
  moreover have "insort_key rep_sequence (zero_report ''web'' 2 6) [zero_report ''web'' 1 5] =
      [zero_report ''web'' 1 5, zero_report ''web'' 2 6]" "sp_maximum full_spool = 1"
    by (simp_all add: full_spool_def word_le_nat_alt)
  ultimately show ?thesis
    using enqueue_bounded_fifo [OF full_spool_wf(1), of calm "zero_report ''web'' 2 6"
        "\<lambda>_. Some ''b''" "''b''"] full_spool_wf(2)
    by (simp add: maxSpoolReportBytes_def)
qed

definition foreign :: "string \<times> dentry \<Rightarrow> bool" where
  "foreign x \<longleftrightarrow> live x \<and> \<not> has_suffix (fst x) ''.json''"

lemma list_entries_foreign:
  "\<exists>x \<in> set es. foreign x \<Longrightarrow> \<exists>err. list_entries env es = Inl err"
proof (induction env es rule: list_entries.induct)
  case (2 env name e rest)
  show ?case
  proof (cases "foreign (name, e)")
    case True
    then show ?thesis by (auto simp: foreign_def live_def)
  next
    case False
    then have "\<exists>x \<in> set rest. foreign x" using "2.prems" by auto
    then show ?thesis using "2.IH" by (auto simp: Let_def split: option.splits sum.splits)
  qed
qed simp

text \<open>Listing, and so eviction, gives up at the first entry with a foreign name: with such a
  file in the directory \<open>Enqueue\<close> still commits every report, reports the error, evicts nothing, and
  the directory grows by one file each time, past any capacity.\<close>

theorem foreign_file_defeats_capacity:
  assumes "amap_get (sp_dir s) name = Some e" and "foreign (name, e)"
    and "io_ok env" and "temp_fresh env (sp_dir s)" and "rep_sequence r \<noteq> 0"
    and "rep_agent_id r \<noteq> []" and "encode r = Some p" and "length p \<le> maxSpoolReportBytes"
    and "amap_get (sp_dir s) (report_filename (rep_sequence r)) = None"
  shows "\<exists>err s'. enqueue env encode r s = ((0, Some err), s') \<and>
    length (sp_dir s') = Suc (length (sp_dir s)) \<and> amap_get (sp_dir s') name = Some e"
proof -
  let ?t = "report_filename (rep_sequence r)"
  let ?d = "amap_put ?t (temp_entry p) (amap_del (io_temp env) (amap_put (io_temp env) (temp_entry p) (sp_dir s)))"
  have d: "?d = sp_dir s @ [(?t, temp_entry p)]"
    using assms(4,9) amap_put_missing [OF assms(9)]
    by (simp only: temp_fresh_def amap_del_put_missing)
  have "\<exists>x \<in> set (read_dir ?d). foreign x"
    using assms(1,2) by (auto simp: d read_dir_def amap_get_def dest!: map_of_SomeD)
  then obtain err where "list_locked env ?d = Inl err"
    using list_entries_foreign [of "read_dir ?d" env] assms(3) by (auto simp: list_locked_def io_ok_def)
  then have "enqueue env encode r s = ((0, Some err), s\<lparr>sp_dir := ?d, sp_wake := True\<rparr>)"
    using assms(3,5-9) by (simp add: enqueue_def Let_def io_ok_def trim_locked_def)
  then show ?thesis using assms(1) by (simp add: d amap_get_def map_add_Some_iff)
qed

theorem foreign_file_defeats_capacity_witness:
  "\<exists>err s'. enqueue calm (\<lambda>_. Some ''b'')
     (zero_report ''web'' 2 6) \<lparr>sp_dir = [(''notes'', temp_entry [])], sp_maximum = 1, sp_wake = False\<rparr> =
     ((0, Some err), s') \<and> length (sp_dir s') = 2"
proof -
  have "has_suffix (report_filename w) ''.json''" "\<not> has_suffix ''notes'' ''.json''" for w
    by (rule report_filename_suffix) (simp add: has_suffix_def)
  then have n: "report_filename w \<noteq> ''notes''" for w by metis
  show ?thesis
    using foreign_file_defeats_capacity [of
        "\<lparr>sp_dir = [(''notes'', temp_entry [])], sp_maximum = 1, sp_wake = False\<rparr>" "''notes''" "temp_entry []"
        calm "zero_report ''web'' 2 6" "\<lambda>_. Some ''b''" "''b''"] n
    by (auto simp: io_ok_def calm_def temp_fresh_def amap_get_def temp_entry_def foreign_def live_def
        has_suffix_def is_temporary_def has_prefix_def zero_report_def maxSpoolReportBytes_def)
qed

end
