(* ===== verification/Sequence.thy ===== *)
theory Sequence
  imports GoText
begin

text \<open>
  The agent's persistent sequence number (\<open>internal/agent/sequence.go\<close>).  The state is the
  text of the sequence file and the value in memory.  Besides the content a reader sees, the
  model keeps the content that survives a loss of power: a rename is durable only once the
  directory has been synced.  Every system call may fail: \<open>io c\<close> says whether call \<open>c\<close> does.
\<close>

datatype seq_call =
    SqReadFile | SqMkdir | SqCreateTemp | SqChmod | SqWrite | SqSync | SqClose
  | SqReplace | SqSyncDir

datatype seq_error =
    ReadSequence | ParseSequence | SequenceExhausted | CreateStateDirectory
  | CreateSequenceState | ProtectSequenceState | WriteSequence | SyncSequence | CloseSequence
  | CommitSequence | SyncSequenceDirectory

record seq_state =
  sq_file :: "string option"
  sq_durable :: "string option"
  sq_value :: u64

text \<open>\<open>NewSequence\<close>: the value to start from; a missing file is the value 0.\<close>

definition new_sequence :: "(seq_call \<Rightarrow> bool) \<Rightarrow> string option \<Rightarrow> seq_error + u64" where
  "new_sequence io file =
     (if io SqReadFile then Inl ReadSequence
      else case file of
          None \<Rightarrow> Inr 0
        | Some data \<Rightarrow>
            (case parse_uint (trim_space data) of
               None \<Rightarrow> Inl ParseSequence
             | Some v \<Rightarrow> Inr v))"

text \<open>\<open>Next\<close>: the temporary file is written, synced and moved over the sequence file, the
  directory is synced, and only then the number is handed out.\<close>

definition seq_next :: "(seq_call \<Rightarrow> bool) \<Rightarrow> seq_state \<Rightarrow> (seq_error + u64) \<times> seq_state" where
  "seq_next io s =
     (let next = sq_value s + 1 in
      case first_some
          [fail_if (next = 0) SequenceExhausted,
           fail_if (io SqMkdir) CreateStateDirectory,
           fail_if (io SqCreateTemp) CreateSequenceState,
           fail_if (io SqChmod) ProtectSequenceState,
           fail_if (io SqWrite) WriteSequence,
           fail_if (io SqSync) SyncSequence,
           fail_if (io SqClose) CloseSequence,
           fail_if (io SqReplace) CommitSequence] of
        Some e \<Rightarrow> (Inl e, s)
      | None \<Rightarrow>
          (let content = Some (format_uint next @ [CHR 0x0A]);
               replaced = s\<lparr>sq_file := content\<rparr> in
           if io SqSyncDir then (Inl SyncSequenceDirectory, replaced)
           else (Inr next, replaced\<lparr>sq_durable := content, sq_value := next\<rparr>)))"

subsection \<open>Reading back what was written\<close>

text \<open>The number a content stands for.\<close>

definition seq_content :: "string option \<Rightarrow> u64 option" where
  "seq_content file = (case file of None \<Rightarrow> Some 0 | Some data \<Rightarrow> parse_uint (trim_space data))"

lemma seq_content_None [simp]: "seq_content None = Some 0"
  by (simp add: seq_content_def)

lemma seq_content_written [simp]: "seq_content (Some (format_uint w @ [CHR 0x0A])) = Some w"
  by (simp add: seq_content_def trim_space_format parse_format)

lemma new_sequence_content:
  "new_sequence io file = Inr v \<Longrightarrow> seq_content file = Some v"
  by (auto simp: new_sequence_def seq_content_def split: if_splits option.splits)

lemma new_sequence_reads:
  "\<not> io SqReadFile \<Longrightarrow> seq_content file = Some v \<Longrightarrow> new_sequence io file = Inr v"
  by (auto simp: new_sequence_def seq_content_def split: option.splits)

text \<open>What one call of \<open>Next\<close> can do: hand out the next number, made durable; fail and leave
  everything as it was; or fail after the move, with the next number in the file.\<close>

lemma seq_next_cases:
  assumes "seq_next io s = (r, s')"
  obtains (issued) "sq_value s + 1 \<noteq> 0" "r = Inr (sq_value s + 1)"
      "sq_value s' = sq_value s + 1"
      "seq_content (sq_file s') = Some (sq_value s + 1)"
      "seq_content (sq_durable s') = Some (sq_value s + 1)"
    | (unchanged) e where "r = Inl e" "s' = s"
    | (moved) "sq_value s + 1 \<noteq> 0" "r = Inl SyncSequenceDirectory"
      "sq_value s' = sq_value s" "sq_durable s' = sq_durable s"
      "seq_content (sq_file s') = Some (sq_value s + 1)"
proof -
  let ?pre = "first_some
      [fail_if (sq_value s + 1 = 0) SequenceExhausted,
       fail_if (io SqMkdir) CreateStateDirectory, fail_if (io SqCreateTemp) CreateSequenceState,
       fail_if (io SqChmod) ProtectSequenceState, fail_if (io SqWrite) WriteSequence,
       fail_if (io SqSync) SyncSequence, fail_if (io SqClose) CloseSequence,
       fail_if (io SqReplace) CommitSequence]"
  show ?thesis
  proof (cases ?pre)
    case (Some e)
    then show ?thesis using assms unchanged [of e] by (simp add: seq_next_def Let_def)
  next
    case None
    then have nz: "sq_value s + 1 \<noteq> 0" by (simp add: first_some_None)
    show ?thesis
    proof (cases "io SqSyncDir")
      case True
      then have "r = Inl SyncSequenceDirectory"
          "s' = s\<lparr>sq_file := Some (format_uint (sq_value s + 1) @ [CHR 0x0A])\<rparr>"
        using assms None by (simp_all add: seq_next_def Let_def)
      then show ?thesis using nz moved by simp
    next
      case False
      then have "r = Inr (sq_value s + 1)"
          "s' = s\<lparr>sq_file := Some (format_uint (sq_value s + 1) @ [CHR 0x0A]),
             sq_durable := Some (format_uint (sq_value s + 1) @ [CHR 0x0A]),
             sq_value := sq_value s + 1\<rparr>"
        using assms None by (simp_all add: seq_next_def Let_def)
      then show ?thesis using nz issued by simp
    qed
  qed
qed

lemma seq_next_ok:
  assumes "\<And>c. \<not> io c" "sq_value s + 1 \<noteq> 0"
  shows "fst (seq_next io s) = Inr (sq_value s + 1)"
  using assms by (simp add: seq_next_def Let_def first_some_Cons fail_if_def)

subsection \<open>The life of the sequence: calls, restarts, losses of power\<close>

record seq_sys =
  ss_state :: seq_state
  ss_issued :: "u64 list"

definition seq_init :: seq_sys where
  "seq_init = \<lparr>ss_state = \<lparr>sq_file = None, sq_durable = None, sq_value = 0\<rparr>, ss_issued = []\<rparr>"

inductive seq_step :: "seq_sys \<Rightarrow> seq_sys \<Rightarrow> bool" where
  call: "seq_next io (ss_state s) = (r, st) \<Longrightarrow>
     seq_step s \<lparr>ss_state = st, ss_issued = ss_issued s @ (case r of Inl _ \<Rightarrow> [] | Inr n \<Rightarrow> [n])\<rparr>"
| restart: "new_sequence io (sq_file (ss_state s)) = Inr v \<Longrightarrow>
     seq_step s (s\<lparr>ss_state := (ss_state s)\<lparr>sq_value := v\<rparr>\<rparr>)"
| power_loss: "content = sq_file (ss_state s) \<or> content = sq_durable (ss_state s) \<Longrightarrow>
     new_sequence io content = Inr v \<Longrightarrow>
     seq_step s (s\<lparr>ss_state := \<lparr>sq_file = content, sq_durable = content, sq_value = v\<rparr>\<rparr>)"

inductive seq_reachable :: "seq_sys \<Rightarrow> bool" where
  start: "seq_reachable seq_init"
| step: "seq_reachable s \<Longrightarrow> seq_step s t \<Longrightarrow> seq_reachable t"

text \<open>Every number handed out is at most the durable one, which is at most the value in memory,
  which is at most the one in the file.\<close>

definition seq_inv :: "seq_sys \<Rightarrow> bool" where
  "seq_inv s \<longleftrightarrow> (\<exists>d f. seq_content (sq_durable (ss_state s)) = Some d \<and>
      seq_content (sq_file (ss_state s)) = Some f \<and>
      (\<forall>n \<in> set (ss_issued s). n \<le> d) \<and> d \<le> sq_value (ss_state s) \<and> sq_value (ss_state s) \<le> f \<and>
      sorted_wrt (<) (ss_issued s)) \<and> 0 \<notin> set (ss_issued s)"

lemma word_less_add_one: "(w :: u64) + 1 \<noteq> 0 \<Longrightarrow> v \<le> w \<Longrightarrow> v < w + 1"
  by unat_arith

lemma seq_step_inv [inv_intros]: "seq_step s t \<Longrightarrow> seq_inv s \<Longrightarrow> seq_inv t"
proof (induction rule: seq_step.induct)
  case (call io s r st)
  then obtain d f where inv: "seq_content (sq_durable (ss_state s)) = Some d"
      "seq_content (sq_file (ss_state s)) = Some f" "\<forall>n \<in> set (ss_issued s). n \<le> d"
      "d \<le> sq_value (ss_state s)" "sq_value (ss_state s) \<le> f" "sorted_wrt (<) (ss_issued s)"
    by (auto simp: seq_inv_def)
  have pos: "0 \<notin> set (ss_issued s)" using call(2) by (simp add: seq_inv_def)
  from call(1) show ?case
  proof (cases rule: seq_next_cases)
    case issued
    then have "\<And>v. v \<le> d \<Longrightarrow> v < sq_value (ss_state s) + 1"
      using inv(4) issued(1) by (blast intro: word_less_add_one order_trans)
    then show ?thesis using issued inv(3,6) pos
      by (auto simp: seq_inv_def sorted_wrt_append less_imp_le)
  next
    case moved
    then have "sq_value (ss_state s) \<le> sq_value (ss_state s) + 1"
      using word_less_add_one less_imp_le by blast
    then show ?thesis using moved inv pos by (auto simp: seq_inv_def)
  qed (use inv pos in \<open>auto simp: seq_inv_def\<close>)
next
  case (restart io s v)
  then show ?case by (auto simp: seq_inv_def dest!: new_sequence_content intro: order_trans)
next
  case (power_loss content s io v)
  then show ?case
    by (auto simp: seq_inv_def dest!: new_sequence_content intro: order_trans)
       (meson order_trans)+
qed

lemma seq_reachable_inv: "seq_reachable s \<Longrightarrow> seq_inv s"
proof (induction rule: seq_reachable.induct)
  case start
  show ?case by (simp add: seq_inv_def seq_init_def)
next
  case (step s t)
  then show ?case by (blast intro: inv_intros)
qed


subsection \<open>Property\<close>

text \<open>C10. Sequence numbers are never reused: whatever system calls fail, and however calls of
  \<open>Next\<close>, restarts of the process and losses of power interleave, the numbers handed out are
  strictly increasing and none of them is 0.\<close>

theorem sequence_numbers_increase:
  assumes "seq_reachable s"
  shows "sorted_wrt (<) (ss_issued s) \<and> distinct (ss_issued s) \<and> 0 \<notin> set (ss_issued s)"
  using seq_reachable_inv [OF assms] by (auto simp: seq_inv_def strict_sorted_iff)


text \<open>A run with a failed update and a restart in the middle.\<close>

definition demo_sequence :: seq_sys where
  "demo_sequence = (let s1 = snd (seq_next (\<lambda>_. False) (ss_state seq_init));
     s2 = snd (seq_next (\<lambda>c. c = SqSyncDir) s1); s3 = s2\<lparr>sq_value := 2\<rparr> in
     \<lparr>ss_state = snd (seq_next (\<lambda>_. False) s3), ss_issued = [1, 3]\<rparr>)"

theorem sequence_numbers_increase_witness:
  "sorted_wrt (<) (ss_issued demo_sequence) \<and> distinct (ss_issued demo_sequence) \<and>
    0 \<notin> set (ss_issued demo_sequence)"
proof -
  let ?s0 = "ss_state seq_init"
  let ?s1 = "snd (seq_next (\<lambda>_. False) ?s0)"
  let ?s2 = "snd (seq_next (\<lambda>c. c = SqSyncDir) ?s1)"
  note ev = seq_next_def first_some_Cons fail_if_def Let_def seq_init_def
  have v: "sq_value ?s1 = 1" "sq_value ?s2 = 1" "seq_content (sq_file ?s2) = Some 2"
    by (simp_all add: ev)
  have a: "seq_reachable \<lparr>ss_state = ?s1, ss_issued = [1]\<rparr>"
    using seq_step.call [of "\<lambda>_. False" seq_init "Inr 1" ?s1] seq_reachable.intros
    by (simp add: ev)
  have "seq_step \<lparr>ss_state = ?s1, ss_issued = [1]\<rparr> \<lparr>ss_state = ?s2, ss_issued = [1]\<rparr>"
    using seq_step.call [of "\<lambda>c. c = SqSyncDir" "\<lparr>ss_state = ?s1, ss_issued = [1]\<rparr>"
        "Inl SyncSequenceDirectory" ?s2] by (simp add: ev)
  then have b: "seq_reachable \<lparr>ss_state = ?s2, ss_issued = [1]\<rparr>" using a seq_reachable.step by blast
  have "seq_step \<lparr>ss_state = ?s2, ss_issued = [1]\<rparr> \<lparr>ss_state = ?s2\<lparr>sq_value := 2\<rparr>, ss_issued = [1]\<rparr>"
    using seq_step.restart [of "\<lambda>_. False" "\<lparr>ss_state = ?s2, ss_issued = [1]\<rparr>" 2]
      new_sequence_reads [of "\<lambda>_. False", OF _ v(3)] by simp
  then have c: "seq_reachable \<lparr>ss_state = ?s2\<lparr>sq_value := 2\<rparr>, ss_issued = [1]\<rparr>"
    using b seq_reachable.step by blast
  have "seq_step \<lparr>ss_state = ?s2\<lparr>sq_value := 2\<rparr>, ss_issued = [1]\<rparr> demo_sequence"
    using seq_step.call [of "\<lambda>_. False" "\<lparr>ss_state = ?s2\<lparr>sq_value := 2\<rparr>, ss_issued = [1]\<rparr>"
        "Inr 3" "ss_state demo_sequence"]
    by (simp add: ev demo_sequence_def)
  then have "seq_reachable demo_sequence" using c seq_reachable.step by blast
  then show ?thesis by (rule sequence_numbers_increase)
qed

end
