(* ===== verification/Agent.thy ===== *)
theory Agent
  imports Spool Sequence
begin

text \<open>
  The agent process (\<open>cmd/agent/main.go\<close>, \<open>internal/agent/sender.go\<close>): a collector that numbers
  reports and puts them into the spool, and a sender goroutine that drains it.  The two run
  concurrently and share the spool (whose operations are atomic, they hold its mutex) and the
  wake-up channel of capacity one.  The sender is a state machine: each \<open>phase\<close> is a point of its
  loops where it waits for something, each \<open>event\<close> what happens next.
\<close>

subsection \<open>One delivery attempt\<close>

text \<open>What can happen to a request: the report cannot be encoded, the request cannot be built,
  the exchange fails, or the server answers with a status code.\<close>

datatype attempt = MarshalFails | BadRequest | TransportFails | Response int

datatype send_error = SendEncode | SendCreate | SendTransport | SendStatus int

definition retry_status :: "int \<Rightarrow> bool" where
  "retry_status status \<longleftrightarrow> status = 401 \<or> status = 403 \<or> status = 404 \<or> status = 408 \<or> status = 425 \<or>
     status = 429 \<or> 500 \<le> status"

fun send :: "attempt \<Rightarrow> bool \<times> send_error option" where
  "send MarshalFails = (False, Some SendEncode)"
| "send BadRequest = (False, Some SendCreate)"
| "send TransportFails = (True, Some SendTransport)"
| "send (Response status) =
     (if 200 \<le> status \<and> status < 300 then (False, None)
      else (retry_status status, Some (SendStatus status)))"

text \<open>The delay after a failed attempt, and the wait it gives with a jitter in milliseconds.\<close>

definition next_delay :: "duration \<Rightarrow> duration" where
  "next_delay delay =
     (let doubled = (if delay < 30 * second then delay * 2 else delay) in
      if 30 * second < doubled then 30 * second else doubled)"

definition retry_wait :: "duration \<Rightarrow> nat \<Rightarrow> duration" where
  "retry_wait delay jitter = delay + int jitter * millisecond"

subsection \<open>The process\<close>

text \<open>\<open>Sending r d\<close> and \<open>Backoff r d\<close> are the two points of \<open>sendWithRetry\<close>, with the delay \<open>d\<close>.\<close>

datatype phase =
    Peeking | PollWait | WakeWait | Sending report duration | Backoff report duration
  | Acking report | Stopped

record agent =
  ag_running :: bool
  ag_cancelled :: bool
  ag_sequence :: seq_state
  ag_spool :: spool
  ag_phase :: phase
  ag_delivered :: "report list"
  ag_rejected :: "report list"

text \<open>The checks' part of a report (\<open>checks.Collector.Collect\<close>).\<close>

record check_results =
  cr_services :: "service_status list"
  cr_docker :: docker_status
  cr_http :: "http_status list"
  cr_tcp :: "tcp_status list"

text \<open>The \<open>collect\<close> closure of \<open>main\<close>; \<open>metrics\<close> is the outcome of the metrics collector.\<close>

definition filled_report :: "string \<Rightarrow> report \<Rightarrow> check_results \<Rightarrow> u64 \<Rightarrow> report" where
  "filled_report agent_id metrics results sequence = metrics\<lparr>rep_agent_id := agent_id,
     rep_services := cr_services results, rep_docker := cr_docker results,
     rep_http_checks := cr_http results, rep_tcp_checks := cr_tcp results,
     rep_sequence := sequence\<rparr>"

definition collect :: "(report \<Rightarrow> string option) \<Rightarrow> string \<Rightarrow> fs_env \<Rightarrow> (seq_call \<Rightarrow> bool) \<Rightarrow>
    report option \<Rightarrow> check_results \<Rightarrow> agent \<Rightarrow> agent" where
  "collect encode agent_id env io metrics results a =
     (case metrics of
        None \<Rightarrow> a
      | Some m \<Rightarrow>
          (case seq_next io (ag_sequence a) of
             (Inl _, sq) \<Rightarrow> a\<lparr>ag_sequence := sq\<rparr>
           | (Inr n, sq) \<Rightarrow>
               (case enqueue env encode (filled_report agent_id m results n) (ag_spool a) of
                  (_, sp) \<Rightarrow> a\<lparr>ag_sequence := sq, ag_spool := sp\<rparr>)))"

text \<open>The start of \<open>main\<close>: the sequence, then the spool; any error ends the process.\<close>

definition start_agent :: "string \<Rightarrow> int \<Rightarrow> fs_env \<Rightarrow> (seq_call \<Rightarrow> bool) \<Rightarrow> agent \<Rightarrow> agent" where
  "start_agent directory queue_size env io a =
     (let dead = a\<lparr>ag_running := False, ag_phase := Stopped\<rparr> in
      case new_sequence io (sq_file (ag_sequence a)) of
        Inl _ \<Rightarrow> dead
      | Inr v \<Rightarrow>
          (case new_spool env directory queue_size (sp_dir (ag_spool a)) of
             (Inl _, d) \<Rightarrow> dead\<lparr>ag_spool := (ag_spool a)\<lparr>sp_dir := d\<rparr>\<rparr>
           | (Inr sp, _) \<Rightarrow>
               a\<lparr>ag_running := True, ag_cancelled := False,
                 ag_sequence := (ag_sequence a)\<lparr>sq_value := v\<rparr>, ag_spool := sp,
                 ag_phase := Peeking\<rparr>))"

text \<open>What happens next.  \<open>Done\<close> is a \<open>select\<close> that takes its \<open>ctx.Done()\<close> branch; \<open>Restart\<close> ends the
  process at any point, orderly or not, and starts it again.\<close>

datatype event =
    Collect fs_env "seq_call \<Rightarrow> bool" "report option" check_results
  | Signal | Done
  | PeekSpool fs_env | PollTimer | WakeReceived
  | Attempt attempt | RetryTimer nat
  | AckSpool fs_env
  | Restart fs_env "seq_call \<Rightarrow> bool"

text \<open>The parameters of a process: its configuration and the JSON codec of reports.\<close>

record agent_env =
  ae_agent_id :: string
  ae_directory :: string
  ae_queue_size :: int
  ae_encode :: "report \<Rightarrow> string option"
  ae_decode :: "string \<Rightarrow> report option"

fun agent_do :: "agent_env \<Rightarrow> event \<Rightarrow> agent \<Rightarrow> agent option" where
  "agent_do p (Collect env io metrics results) a =
     (if ag_running a then Some (collect (ae_encode p) (ae_agent_id p) env io metrics results a) else None)"
| "agent_do p Signal a = (if ag_running a then Some (a\<lparr>ag_cancelled := True\<rparr>) else None)"
| "agent_do p Done a =
     (if ag_cancelled a \<and> (case ag_phase a of PollWait \<Rightarrow> True | WakeWait \<Rightarrow> True | Backoff _ _ \<Rightarrow> True | _ \<Rightarrow> False)
      then Some (a\<lparr>ag_phase := Stopped\<rparr>) else None)"
| "agent_do p (PeekSpool env) a =
     (case ag_phase a of
        Peeking \<Rightarrow>
          (case peek env (ae_decode p) (ag_spool a) of
             Inl _ \<Rightarrow> Some (a\<lparr>ag_phase := PollWait\<rparr>)
           | Inr None \<Rightarrow> Some (a\<lparr>ag_phase := WakeWait\<rparr>)
           | Inr (Some r) \<Rightarrow> Some (a\<lparr>ag_phase := Sending r second\<rparr>))
      | _ \<Rightarrow> None)"
| "agent_do p PollTimer a =
     (case ag_phase a of PollWait \<Rightarrow> Some (a\<lparr>ag_phase := Peeking\<rparr>) | _ \<Rightarrow> None)"
| "agent_do p WakeReceived a =
     (case ag_phase a of
        WakeWait \<Rightarrow>
          (if sp_wake (ag_spool a)
           then Some (a\<lparr>ag_phase := Peeking, ag_spool := (ag_spool a)\<lparr>sp_wake := False\<rparr>\<rparr>)
           else None)
      | _ \<Rightarrow> None)"
| "agent_do p (Attempt x) a =
     (case ag_phase a of
        Sending r d \<Rightarrow>
          (case send x of
             (_, None) \<Rightarrow> Some (a\<lparr>ag_phase := Acking r, ag_delivered := ag_delivered a @ [r]\<rparr>)
           | (False, Some _) \<Rightarrow>
               if ag_cancelled a then Some (a\<lparr>ag_phase := Stopped\<rparr>)
               else Some (a\<lparr>ag_phase := Acking r, ag_rejected := ag_rejected a @ [r]\<rparr>)
           | (True, Some _) \<Rightarrow> Some (a\<lparr>ag_phase := Backoff r d\<rparr>))
      | _ \<Rightarrow> None)"
| "agent_do p (RetryTimer jitter) a =
     (case ag_phase a of
        Backoff r d \<Rightarrow> if jitter < 500 then Some (a\<lparr>ag_phase := Sending r (next_delay d)\<rparr>) else None
      | _ \<Rightarrow> None)"
| "agent_do p (AckSpool env) a =
     (case ag_phase a of
        Acking r \<Rightarrow>
          (case acknowledge env (rep_sequence r) (ag_spool a) of
             (_, sp) \<Rightarrow> Some (a\<lparr>ag_phase := Peeking, ag_spool := sp\<rparr>))
      | _ \<Rightarrow> None)"
| "agent_do p (Restart env io) a = Some (start_agent (ae_directory p) (ae_queue_size p) env io a)"

fun agent_run :: "agent_env \<Rightarrow> event list \<Rightarrow> agent \<Rightarrow> agent option" where
  "agent_run p [] a = Some a"
| "agent_run p (e # es) a = (case agent_do p e a of None \<Rightarrow> None | Some a' \<Rightarrow> agent_run p es a')"


subsection \<open>Reachable states\<close>

text \<open>A host on which the agent has never run; the environment a collection meets: a fresh
  temporary name, and a report whose JSON text decodes to it again (its strings are UTF-8).\<close>

definition agent_off :: "agent_env \<Rightarrow> agent" where
  "agent_off p = \<lparr>ag_running = False, ag_cancelled = False,
     ag_sequence = \<lparr>sq_file = None, sq_durable = None, sq_value = 0\<rparr>,
     ag_spool = \<lparr>sp_dir = [], sp_maximum = ae_queue_size p, sp_wake = False\<rparr>,
     ag_phase = Stopped, ag_delivered = [], ag_rejected = []\<rparr>"

definition json_faithful :: "agent_env \<Rightarrow> report \<Rightarrow> bool" where
  "json_faithful p r \<longleftrightarrow> (case ae_encode p r of None \<Rightarrow> True | Some q \<Rightarrow> ae_decode p q = Some r)"

fun event_ok :: "agent_env \<Rightarrow> event \<Rightarrow> agent \<Rightarrow> bool" where
  "event_ok p (Collect env io (Some m) results) a =
     (temp_fresh env (sp_dir (ag_spool a)) \<and>
      json_faithful p (filled_report (ae_agent_id p) m results (sq_value (ag_sequence a) + 1)))"
| "event_ok p _ a = True"

inductive agent_step :: "agent_env \<Rightarrow> agent \<Rightarrow> agent \<Rightarrow> bool" for p where
  "event_ok p e a \<Longrightarrow> agent_do p e a = Some b \<Longrightarrow> agent_step p a b"

inductive_cases agent_stepE: "agent_step p a b"

inductive agent_reachable :: "agent_env \<Rightarrow> agent \<Rightarrow> bool" for p where
  off: "agent_reachable p (agent_off p)"
| step: "agent_reachable p a \<Longrightarrow> agent_step p a b \<Longrightarrow> agent_reachable p b"

abbreviation spooled :: "agent_env \<Rightarrow> agent \<Rightarrow> report list" where
  "spooled p a \<equiv> queue (ae_decode p) (sp_dir (ag_spool a))"

fun in_flight :: "phase \<Rightarrow> report option" where
  "in_flight (Sending r _) = Some r"
| "in_flight (Backoff r _) = Some r"
| "in_flight (Acking r) = Some r"
| "in_flight _ = None"

subsection \<open>The invariant\<close>

definition sequence_ok :: "seq_state \<Rightarrow> bool" where
  "sequence_ok sq \<longleftrightarrow> (\<exists>f. seq_content (sq_file sq) = Some f \<and> sq_value sq \<le> f)"

definition flight_ok :: "report list \<Rightarrow> agent \<Rightarrow> bool" where
  "flight_ok rs a \<longleftrightarrow> (case in_flight (ag_phase a) of None \<Rightarrow> True
     | Some r \<Rightarrow> rep_sequence r \<le> sq_value (ag_sequence a) \<and>
         (\<forall>q \<in> set rs. rep_sequence q = rep_sequence r \<longrightarrow> q = r)) \<and>
   (\<forall>r. ag_phase a = Acking r \<longrightarrow> r \<in> set (ag_delivered a) \<union> set (ag_rejected a))"

definition agent_inv :: "agent_env \<Rightarrow> agent \<Rightarrow> bool" where
  "agent_inv p a \<longleftrightarrow>
     spool_wf (ae_decode p) (sp_dir (ag_spool a)) \<and> regular (sp_dir (ag_spool a)) \<and>
     sp_maximum (ag_spool a) = ae_queue_size p \<and>
     (ag_phase a \<noteq> Stopped \<or> ag_running a \<longrightarrow> 0 < ae_queue_size p) \<and>
     sequence_ok (ag_sequence a) \<and>
     (\<forall>r \<in> set (spooled p a). rep_sequence r \<le> sq_value (ag_sequence a)) \<and>
     (ag_phase a = WakeWait \<and> spooled p a \<noteq> [] \<longrightarrow> sp_wake (ag_spool a)) \<and>
     flight_ok (spooled p a) a"

lemma seq_next_ok_inv:
  assumes "sequence_ok sq" "seq_next io sq = (r, sq')"
  shows "sequence_ok sq' \<and> sq_value sq \<le> sq_value sq' \<and>
    (\<forall>n. r = Inr n \<longrightarrow> n = sq_value sq + 1 \<and> sq_value sq' = n \<and> sq_value sq < n)"
  using assms(2)
proof (cases rule: seq_next_cases)
  case issued
  then have "sq_value sq < sq_value sq + 1" using word_less_add_one by blast
  then show ?thesis using issued by (auto simp: sequence_ok_def)
next
  case (unchanged e)
  then show ?thesis using assms(1) by simp
next
  case moved
  then have "sq_value sq \<le> sq_value sq + 1" using word_less_add_one less_imp_le by blast
  then show ?thesis using moved by (auto simp: sequence_ok_def)
qed

text \<open>What a collection does to the queue: nothing, or it appends the new report and evicts the
  oldest ones when the spool is full.\<close>

lemma insort_append_last:
  "(\<And>x. x \<in> set xs \<Longrightarrow> f x < f y) \<Longrightarrow> insort_key f y xs = xs @ [y]"
  by (induction xs) force+

lemma collect_effect:
  assumes inv: "agent_inv p a" and fresh: "event_ok p (Collect env io metrics results) a"
    and b: "b = collect (ae_encode p) (ae_agent_id p) env io metrics results a"
  obtains sq sp where "b = a\<lparr>ag_sequence := sq, ag_spool := sp\<rparr>" "sequence_ok sq"
    "sq_value (ag_sequence a) \<le> sq_value sq" "spool_wf (ae_decode p) (sp_dir sp)"
    "regular (sp_dir sp)" "sp_maximum sp = ae_queue_size p"
    "(spooled p b = spooled p a \<and> sp_wake sp = sp_wake (ag_spool a)) \<or>
     (\<exists>r n. spooled p b = drop n (spooled p a @ [r]) \<and> sp_wake sp \<and>
        sq_value (ag_sequence a) < rep_sequence r \<and> rep_sequence r = sq_value sq \<and>
        (n \<noteq> 0 \<longrightarrow> ae_queue_size p \<le> int (length (spooled p b))) \<and>
        rep_agent_id r = ae_agent_id p)"
proof -
  note i = inv [unfolded agent_inv_def]
  show ?thesis
  proof (cases metrics)
    case None
    then show ?thesis using that [of "ag_spool a" "ag_sequence a"] i b by (simp add: collect_def)
  next
    case (Some m)
    obtain r1 sq where sq: "seq_next io (ag_sequence a) = (r1, sq)" by force
    note s = seq_next_ok_inv [OF _ sq]
    show ?thesis
    proof (cases r1)
      case (Inl e)
      then show ?thesis using that [of "ag_spool a" sq] i b s sq Some by (simp add: collect_def)
    next
      case (Inr n)
      let ?r = "filled_report (ae_agent_id p) m results n"
      have n: "n = sq_value (ag_sequence a) + 1" "sq_value sq = n" "sq_value (ag_sequence a) < n"
        using s i Inr by auto
      have codec: "\<forall>q. ae_encode p ?r = Some q \<longrightarrow> ae_decode p q = Some ?r"
        using fresh Some n(1) by (auto simp: json_faithful_def)
      obtain k err sp where e: "enqueue env (ae_encode p) ?r (ag_spool a) = ((k, err), sp)"
        by (metis prod_cases3 prod.collapse)
      have b': "b = a\<lparr>ag_sequence := sq, ag_spool := sp\<rparr>"
        using b Some sq Inr e by (simp add: collect_def)
      have seq: "rep_sequence ?r = n" by (simp add: filled_report_def)
      have q: "insort_key rep_sequence ?r (spooled p a) = spooled p a @ [?r]"
        by (rule insort_append_last) (use i n seq in auto)
      have tf: "temp_fresh env (sp_dir (ag_spool a))" using fresh Some by simp
      have wf: "spool_wf (ae_decode p) (sp_dir (ag_spool a))" using i by simp
      have reg: "regular (sp_dir sp)" using regular_enqueue [of "ag_spool a"] i e by (metis snd_conv)
      show ?thesis
      proof (cases rule: enqueue_effect [OF wf tf codec e])
        case 1
        then show ?thesis using that [of sp sq] b' i s reg by simp
      next
        case 2
        then have "spooled p b = drop k (spooled p a @ [?r]) \<and> sp_wake sp \<and>
            sq_value (ag_sequence a) < rep_sequence ?r \<and> rep_sequence ?r = sq_value sq \<and>
            (k \<noteq> 0 \<longrightarrow> ae_queue_size p \<le> int (length (spooled p b))) \<and> rep_agent_id ?r = ae_agent_id p"
          using b' q n(2,3) seq i by (auto simp: filled_report_def)
        then have ex: "\<exists>r n. spooled p b = drop n (spooled p a @ [r]) \<and> sp_wake sp \<and>
            sq_value (ag_sequence a) < rep_sequence r \<and> rep_sequence r = sq_value sq \<and>
            (n \<noteq> 0 \<longrightarrow> ae_queue_size p \<le> int (length (spooled p b))) \<and> rep_agent_id r = ae_agent_id p" by blast
        show ?thesis
          by (rule that [OF b' _ _ 2(3) reg _ disjI2 [OF ex]]) (use i s 2(2) in simp_all)
      qed
    qed
  qed
qed


text \<open>Every event keeps the invariant.\<close>

lemma flight_ok_shrink:
  "flight_ok rs a \<Longrightarrow> set qs \<subseteq> set rs \<Longrightarrow> flight_ok qs a"
  by (auto simp: flight_ok_def split: option.splits)

lemma agent_inv_collect:
  assumes "agent_inv p a" "event_ok p (Collect env io metrics results) a" "ag_running a"
  shows "agent_inv p (collect (ae_encode p) (ae_agent_id p) env io metrics results a)"
proof -
  note i = assms(1) [unfolded agent_inv_def]
  show ?thesis
  proof (cases rule: collect_effect [OF assms(1,2) refl])
    case (1 sq sp)
    let ?b = "collect (ae_encode p) (ae_agent_id p) env io metrics results a"
    have b: "ag_phase ?b = ag_phase a" "ag_delivered ?b = ag_delivered a"
        "ag_rejected ?b = ag_rejected a" "ag_running ?b = ag_running a" "ag_spool ?b = sp"
        "ag_sequence ?b = sq"
      using 1(1) by simp_all
    have old: "\<And>r. rep_sequence r \<le> sq_value (ag_sequence a) \<Longrightarrow> rep_sequence r \<le> sq_value sq"
      using 1(3) by (rule order_trans [rotated])
    have q: "r \<in> set (spooled p ?b) \<Longrightarrow> r \<in> set (spooled p a) \<or>
        (sq_value (ag_sequence a) < rep_sequence r \<and> rep_sequence r = sq_value sq \<and> sp_wake sp)" for r
      using 1(7) by (auto dest!: in_set_dropD)
    have le: "\<forall>r \<in> set (spooled p ?b). rep_sequence r \<le> sq_value sq"
      using q old i by fastforce
    have fl: "flight_ok (spooled p ?b) ?b"
      using i q old by (fastforce simp: flight_ok_def b split: option.splits)
    have wk: "ag_phase a = WakeWait \<and> spooled p ?b \<noteq> [] \<longrightarrow> sp_wake sp"
      using 1(7) i by auto
    show ?thesis unfolding agent_inv_def
      using 1(2-6) le fl wk i assms(3) by (simp add: b)
  qed
qed

lemma agent_inv_start:
  assumes "agent_inv p a"
  shows "agent_inv p (start_agent (ae_directory p) (ae_queue_size p) env io a)"
proof -
  note i = assms [unfolded agent_inv_def]
  let ?d = "sp_dir (ag_spool a)"
  obtain r d' where n: "new_spool env (ae_directory p) (ae_queue_size p) ?d = (r, d')" by force
  have reg: "regular d'" using regular_new_spool [of ?d env] i n by (metis snd_conv)
  show ?thesis
  proof (cases "new_sequence io (sq_file (ag_sequence a))")
    case (Inl e)
    then show ?thesis using i
      by (simp add: start_agent_def agent_inv_def flight_ok_def)
  next
    case (Inr v)
    then have v: "seq_content (sq_file (ag_sequence a)) = Some v" by (rule new_sequence_content)
    then have le: "sq_value (ag_sequence a) \<le> v" using i by (auto simp: sequence_ok_def)
    show ?thesis
    proof (cases r)
      case (Inl e)
      have wf: "spool_wf (ae_decode p) ?d" using i by simp
      have "set (queue (ae_decode p) d') \<subseteq> set (spooled p a)" "spool_wf (ae_decode p) d'"
        using new_spool_error_queue [OF wf n] by (auto dest: in_set_dropD)
      then show ?thesis using n Inl \<open>new_sequence _ _ = Inr v\<close> reg i
        by (auto simp: start_agent_def agent_inv_def flight_ok_def)
    next
      case (Inr sp)
      note q = new_spool_queue [OF _ n [unfolded Inr]]
      have wf: "spool_wf (ae_decode p) ?d" using i by simp
      have "\<forall>r \<in> set (queue (ae_decode p) d'). rep_sequence r \<le> v"
        using q(6) [OF wf] i le by (fastforce dest: in_set_dropD intro: order_trans)
      then show ?thesis using \<open>new_sequence _ _ = Inr v\<close> n Inr reg q(1-5) [OF wf] v
        by (simp add: start_agent_def agent_inv_def flight_ok_def sequence_ok_def)
    qed
  qed
qed

lemma agent_inv_ack:
  assumes "agent_inv p a" "ag_phase a = Acking r"
  shows "agent_inv p (a\<lparr>ag_phase := Peeking, ag_spool := snd (acknowledge env n (ag_spool a))\<rparr>)"
  using assms(1) spool.ack_no_new [of "ae_decode p" "ag_spool a" env n]
    spool.ack_keeps [of "ae_decode p" "ag_spool a" env n] regular_acknowledge [of "ag_spool a" env n]
    assms(2)
  by (auto simp: agent_inv_def flight_ok_def)

lemma agent_inv_peek:
  assumes "agent_inv p a" "ag_phase a = Peeking" "agent_do p (PeekSpool env) a = Some b"
  shows "agent_inv p b"
proof (cases "peek env (ae_decode p) (ag_spool a)")
  case (Inl e)
  then show ?thesis using assms by (auto simp: agent_inv_def flight_ok_def)
next
  case (Inr o')
  note i = assms(1) [unfolded agent_inv_def]
  show ?thesis
  proof (cases o')
    case None
    then show ?thesis using peek_None [of "ae_decode p" "ag_spool a" env] Inr assms
      by (auto simp: agent_inv_def flight_ok_def)
  next
    case (Some r)
    then obtain rs where q: "spooled p a = r # rs"
      using peek_Some [of "ae_decode p" "ag_spool a" env r] Inr i by auto
    have "\<forall>x \<in> set rs. rep_sequence x \<noteq> rep_sequence r"
      using spool.ordered [of "ae_decode p" "ag_spool a"] i q by auto
    then show ?thesis using Inr Some assms q
      by (auto simp: agent_inv_def flight_ok_def)
  qed
qed

text \<open>A step that moves only the sender.\<close>

lemma agent_inv_moves:
  assumes "agent_inv p a" and "ag_spool b = ag_spool a" "ag_sequence b = ag_sequence a" "ag_running b = ag_running a"
    and "ag_phase b = Stopped \<or> ag_phase a \<noteq> Stopped" and "ag_phase b \<noteq> WakeWait \<or> ag_phase a = WakeWait"
    and "in_flight (ag_phase b) = None \<or> in_flight (ag_phase b) = in_flight (ag_phase a)"
    and "\<forall>r. ag_phase b = Acking r \<longrightarrow> r \<in> set (ag_delivered b) \<union> set (ag_rejected b)"
  shows "agent_inv p b"
  using assms unfolding agent_inv_def flight_ok_def by (auto split: option.splits)

lemma agent_inv_attempt:
  assumes "agent_inv p a" "agent_do p (Attempt x) a = Some b"
  shows "agent_inv p b"
proof -
  obtain r d where ph: "ag_phase a = Sending r d" using assms(2) by (auto split: phase.splits)
  have "ag_spool b = ag_spool a \<and> ag_sequence b = ag_sequence a \<and> ag_running b = ag_running a \<and>
      (ag_phase b = Stopped \<or> ag_phase b = Backoff r d \<or>
       ag_phase b = Acking r \<and> r \<in> set (ag_delivered b) \<union> set (ag_rejected b))"
    using assms(2) ph by (cases "fst (send x)"; cases "snd (send x)") (auto simp: case_prod_beta split: if_splits)
  then show ?thesis using ph by (intro agent_inv_moves [OF assms(1)]) auto
qed

lemma agent_inv_wake:
  "agent_inv p a \<Longrightarrow> ag_phase a = WakeWait \<Longrightarrow>
    agent_inv p (a\<lparr>ag_phase := Peeking, ag_spool := (ag_spool a)\<lparr>sp_wake := False\<rparr>\<rparr>)"
  by (simp add: agent_inv_def flight_ok_def)

lemma agent_inv_do:
  assumes "agent_inv p a" "event_ok p e a" "agent_do p e a = Some b"
  shows "agent_inv p b"
proof (cases e)
  case (Collect env io metrics results)
  then show ?thesis using assms agent_inv_collect [of p a env io metrics results]
    by (auto split: if_splits)
next
  case (PeekSpool env)
  then show ?thesis using assms agent_inv_peek [of p a env b] by (auto split: phase.splits)
next
  case (AckSpool env)
  then show ?thesis using assms agent_inv_ack [of p a _ env]
    by (auto simp: case_prod_beta split: phase.splits)
next
  case (Restart env io)
  then show ?thesis using assms agent_inv_start by auto
next
  case (Attempt x)
  then show ?thesis using agent_inv_attempt assms(1,3) by blast
next
  case WakeReceived
  then show ?thesis using agent_inv_wake assms(1,3) by (auto split: phase.splits if_splits)
next
  case Signal
  then have "b = a\<lparr>ag_cancelled := True\<rparr>" using assms(3) by (auto split: if_splits)
  moreover have "\<forall>r. ag_phase a = Acking r \<longrightarrow> r \<in> set (ag_delivered a) \<union> set (ag_rejected a)"
    using assms(1) by (simp add: agent_inv_def flight_ok_def)
  ultimately show ?thesis by (intro agent_inv_moves [OF assms(1)]) simp_all
next
  case Done
  then have "b = a\<lparr>ag_phase := Stopped\<rparr>" using assms(3) by (auto split: if_splits)
  then show ?thesis by (intro agent_inv_moves [OF assms(1)]) simp_all
next
  case PollTimer
  then have "b = a\<lparr>ag_phase := Peeking\<rparr>" "ag_phase a = PollWait" using assms(3) by (auto split: phase.splits)
  then show ?thesis by (intro agent_inv_moves [OF assms(1)]) simp_all
next
  case (RetryTimer jitter)
  then obtain r d where "b = a\<lparr>ag_phase := Sending r (next_delay d)\<rparr>" "ag_phase a = Backoff r d"
    using assms(3) by (auto split: phase.splits if_splits)
  then show ?thesis by (intro agent_inv_moves [OF assms(1)]) simp_all
qed

lemma agent_inv_off: "agent_inv p (agent_off p)"
  by (simp add: agent_inv_def agent_off_def flight_ok_def sequence_ok_def spool_wf_def amap_wf_def
      regular_def queue_def)

lemma agent_reachable_inv: "agent_reachable p a \<Longrightarrow> agent_inv p a"
  by (induction rule: agent_reachable.induct)
    (auto intro: agent_inv_off agent_inv_do elim!: agent_stepE)


subsection \<open>What one event does to the queue\<close>

lemma mem_append_drop: "x \<in> set xs \<Longrightarrow> x \<in> set (drop n (xs @ ys)) \<or> x \<in> set (take n xs)"
proof -
  assume "x \<in> set xs"
  then have "x \<in> set (take n xs @ drop n xs)" by simp
  then show ?thesis by (auto simp del: append_take_drop_id)
qed

lemma sorted_drop_newer:
  assumes "sorted_wrt R xs" "x \<in> set (take n xs)" "y \<in> set (drop n xs)"
  shows "R x y"
  using assms(1) sorted_wrt_append [of R "take n xs" "drop n xs"] assms(2,3) by simp

text \<open>A report that left the queue was evicted by newer ones that fill the spool, or it was
  acknowledged.\<close>

definition evicted_by_newer :: "agent_env \<Rightarrow> report \<Rightarrow> agent \<Rightarrow> bool" where
  "evicted_by_newer p r b \<longleftrightarrow> ae_queue_size p \<le> int (length (spooled p b)) \<and>
     (\<forall>q \<in> set (spooled p b). rep_sequence r < rep_sequence q)"

lemma drop_evicts:
  assumes "r \<in> set xs" "r \<notin> set (drop n (xs @ ys))"
    and "sorted_wrt (\<lambda>a b. rep_sequence a < rep_sequence b) (xs @ ys)"
    and "spooled p b = drop n (xs @ ys)" "n \<noteq> 0 \<longrightarrow> ae_queue_size p \<le> int (length (spooled p b))"
  shows "evicted_by_newer p r b"
proof -
  have "r \<in> set (take n (xs @ ys))"
    using assms(1,2) mem_append_drop [of r xs n ys] by auto
  then have "n \<noteq> 0" "\<forall>q \<in> set (drop n (xs @ ys)). rep_sequence r < rep_sequence q"
    using sorted_drop_newer [OF assms(3)] by (auto intro: gr0I)
  then show ?thesis using assms(4,5) by (simp add: evicted_by_newer_def)
qed

lemma collect_keeps:
  assumes "agent_inv p a" "event_ok p (Collect env io metrics results) a" "r \<in> set (spooled p a)"
    and b_def: "b = collect (ae_encode p) (ae_agent_id p) env io metrics results a"
  shows "r \<in> set (spooled p b) \<or> evicted_by_newer p r b"
proof (cases rule: collect_effect [OF assms(1,2), of b])
  case (2 sq sp)
  have sorted: "sorted_wrt (\<lambda>a b. rep_sequence a < rep_sequence b) (spooled p a)"
    using assms(1) by (simp add: agent_inv_def strict_sorted_queue)
  from 2(7) show ?thesis
  proof (elim disjE exE conjE)
    fix x n
    assume x: "spooled p b = drop n (spooled p a @ [x])" "sq_value (ag_sequence a) < rep_sequence x"
      "n \<noteq> 0 \<longrightarrow> ae_queue_size p \<le> int (length (spooled p b))"
    have "\<forall>q \<in> set (spooled p a). rep_sequence q < rep_sequence x"
      using assms(1) x(2) by (auto simp: agent_inv_def)
    then have "sorted_wrt (\<lambda>a b. rep_sequence a < rep_sequence b) (spooled p a @ [x])"
      using sorted by (simp add: sorted_wrt_append)
    then show ?thesis using drop_evicts [OF assms(3) _ _ x(1,3)] x(1) by auto
  qed (use assms(3) in simp)
qed (simp add: b_def)

lemma start_keeps:
  assumes "agent_inv p a" "r \<in> set (spooled p a)"
    and b_def: "b = start_agent (ae_directory p) (ae_queue_size p) env io a"
  shows "r \<in> set (spooled p b) \<or> evicted_by_newer p r b"
proof -
  have wf: "spool_wf (ae_decode p) (sp_dir (ag_spool a))" using assms(1) by (simp add: agent_inv_def)
  obtain x d where n: "new_spool env (ae_directory p) (ae_queue_size p) (sp_dir (ag_spool a)) = (x, d)"
    by force
  note q = new_spool_error_queue [OF wf n]
  have "sp_dir (ag_spool b) = sp_dir (ag_spool a) \<or> sp_dir (ag_spool b) = d"
    using n new_spool_queue(1) [OF wf, of env "ae_directory p" "ae_queue_size p"]
    by (auto simp: b_def start_agent_def Let_def split: sum.splits)
  then show ?thesis
  proof
    assume "sp_dir (ag_spool b) = d"
    moreover from q obtain k where "queue (ae_decode p) d = drop k (spooled p a)"
        "k \<noteq> 0 \<longrightarrow> ae_queue_size p \<le> int (length (queue (ae_decode p) d))" by blast
    ultimately show ?thesis
      using drop_evicts [of r "spooled p a" k "[]" p b] strict_sorted_queue [OF wf] assms(2) by auto
  qed (use assms(2) in simp)
qed

lemma ack_keeps_others:
  assumes "agent_inv p a" "ag_phase a = Acking r'" "r \<in> set (spooled p a)"
    and "r \<notin> set (queue (ae_decode p) (sp_dir (snd (acknowledge env (rep_sequence r') (ag_spool a)))))"
  shows "r \<in> set (ag_delivered a) \<union> set (ag_rejected a)"
proof -
  have "rep_sequence r = rep_sequence r'"
    using spool.ack_removes_only [of "ae_decode p" "ag_spool a" r] assms by (auto simp: agent_inv_def)
  then have "r = r'" using assms(1-3) by (simp add: agent_inv_def flight_ok_def)
  then show ?thesis using assms(1,2) by (simp add: agent_inv_def flight_ok_def)
qed

lemma event_keeps_report:
  assumes "agent_inv p a" "event_ok p e a" "agent_do p e a = Some b" "r \<in> set (spooled p a)"
  shows "r \<in> set (spooled p b) \<or> r \<in> set (ag_delivered b) \<union> set (ag_rejected b) \<or>
    evicted_by_newer p r b"
proof (cases e)
  case (Collect env io metrics results)
  then have "event_ok p (Collect env io metrics results) a"
      "b = collect (ae_encode p) (ae_agent_id p) env io metrics results a"
    using assms(2,3) by (auto split: if_splits)
  then show ?thesis using collect_keeps [OF assms(1) _ assms(4)] by blast
next
  case (Restart env io)
  then show ?thesis using assms start_keeps [OF assms(1,4)] by auto
next
  case (AckSpool env)
  then obtain r' where r': "ag_phase a = Acking r'"
    using assms(3) by (auto split: phase.splits)
  then show ?thesis using assms AckSpool ack_keeps_others [OF assms(1) r' assms(4), of env]
    by (auto simp: case_prod_beta)
qed (use assms in \<open>auto split: phase.splits if_splits sum.splits option.splits prod.splits bool.splits\<close>)

subsection \<open>Names are never taken\<close>

lemma collect_name_free:
  assumes "agent_inv p a" "seq_next io (ag_sequence a) = (Inr n, sq)"
  shows "amap_get (sp_dir (ag_spool a)) (report_filename n) = None"
proof (rule ccontr)
  assume "amap_get (sp_dir (ag_spool a)) (report_filename n) \<noteq> None"
  then obtain e where e: "amap_get (sp_dir (ag_spool a)) (report_filename n) = Some e" by auto
  then have "(report_filename n, e) \<in> set (sp_dir (ag_spool a))"
    by (simp add: amap_get_def map_of_SomeD)
  then have "de_kind e \<noteq> DirectoryEntry" using assms(1) by (force simp: agent_inv_def regular_def)
  then obtain r where "r \<in> set (spooled p a)" "rep_sequence r = n"
    using queue_mem_file [OF _ e, of "ae_decode p"] assms(1) by (auto simp: agent_inv_def)
  then show False
    using seq_next_ok_inv [OF _ assms(2)] assms(1) by (auto simp: agent_inv_def)
qed

lemma list_entries_not_exists: "list_entries env es \<noteq> Inl AlreadyExists"
  by (induction env es rule: list_entries.induct) (auto split: option.splits sum.splits)

lemma trim_not_exists: "fst (snd (trim_locked env maximum d)) \<noteq> Some AlreadyExists"
proof -
  have "fst (snd (trim_loop env maximum files n d)) \<noteq> Some AlreadyExists" for files n
    by (induction files arbitrary: n d) auto
  then show ?thesis
    by (auto simp: trim_locked_def list_locked_def list_entries_not_exists
        split: sum.splits prod.splits option.splits if_splits) (metis fst_conv snd_conv)+
qed

lemma enqueue_not_exists:
  "amap_get (sp_dir s) (report_filename (rep_sequence r)) = None \<Longrightarrow>
    snd (fst (enqueue env encode r s)) \<noteq> Some AlreadyExists"
  using trim_not_exists [of env "sp_maximum s"]
  by (auto simp: enqueue_def Let_def split: option.splits prod.splits) (metis fst_conv snd_conv)


subsection \<open>Properties\<close>

text \<open>A concrete host for the witnesses: the only report ever taken is the one the codec knows.\<close>

definition demo_results :: check_results where
  "demo_results = \<lparr>cr_services = [], cr_docker = zero_docker, cr_http = [], cr_tcp = []\<rparr>"

definition demo_env :: agent_env where
  "demo_env = \<lparr>ae_agent_id = ''web'', ae_directory = ''spool'', ae_queue_size = 1,
     ae_encode = (\<lambda>_. Some ''{}''), ae_decode = (\<lambda>_. Some (zero_report ''web'' 1 5))\<rparr>"

definition demo_events :: "event list" where
  "demo_events = [Restart calm (\<lambda>_. False), PeekSpool calm,
     Collect calm (\<lambda>_. False) (Some (zero_report [] 0 5)) demo_results]"

fun events_ok :: "agent_env \<Rightarrow> event list \<Rightarrow> agent \<Rightarrow> bool" where
  "events_ok p [] a = True"
| "events_ok p (e # es) a = (event_ok p e a \<and>
     (case agent_do p e a of None \<Rightarrow> False | Some b \<Rightarrow> events_ok p es b))"

lemma agent_reachable_run:
  "agent_reachable p a \<Longrightarrow> events_ok p es a \<Longrightarrow> agent_reachable p (the (agent_run p es a))"
proof (induction es arbitrary: a)
  case (Cons e es)
  then obtain b where b: "agent_do p e a = Some b" "event_ok p e a" "events_ok p es b"
    by (auto split: option.splits)
  then have "agent_reachable p b" using Cons.prems by (blast intro: agent_reachable.step agent_step.intros)
  then show ?case using Cons.IH b by simp
qed simp

definition demo_agent :: agent where
  "demo_agent = the (agent_run demo_env demo_events (agent_off demo_env))"

lemmas demo_eval = demo_env_def demo_events_def demo_results_def agent_off_def calm_def
  start_agent_def new_sequence_def new_spool_def clean_temporary_files_def read_dir_def
  trim_locked_def list_locked_def peek_def collect_def seq_next_def first_some_Cons fail_if_def
  enqueue_def maxSpoolReportBytes_def filled_report_def zero_report_def amap_get_def amap_put_def
  amap_del_def temp_entry_def has_prefix_def report_filename_suffix
  parse_report_filename temp_fresh_def json_faithful_def

lemma demo_ok: "events_ok demo_env demo_events (agent_off demo_env)"
  by (simp add: demo_eval calm_temporary Let_def)

lemma demo_reachable: "agent_reachable demo_env demo_agent"
  unfolding demo_agent_def by (rule agent_reachable_run [OF agent_reachable.off demo_ok])

lemma demo_state: "ag_phase demo_agent = WakeWait" "spooled demo_env demo_agent = [zero_report ''web'' 1 5]"
  by (simp_all add: demo_agent_def demo_eval calm_temporary Let_def queue_def live_def report_of_def)


text \<open>C27. No lost wake-up: whenever the sender sleeps because it found the spool empty, and a
  report has arrived since, the wake-up channel holds a token, so the sender can go on.\<close>

theorem sender_never_misses_a_report:
  assumes "agent_reachable p a" and "ag_phase a = WakeWait" and "spooled p a \<noteq> []"
  shows "\<exists>b. agent_do p WakeReceived a = Some b \<and> ag_phase b = Peeking \<and> spooled p b = spooled p a"
  using agent_reachable_inv [OF assms(1)] assms(2,3) by (simp add: agent_inv_def)

theorem sender_never_misses_a_report_witness:
  "\<exists>b. agent_do demo_env WakeReceived demo_agent = Some b \<and> ag_phase b = Peeking \<and>
     spooled demo_env b = [zero_report ''web'' 1 5]"
  using sender_never_misses_a_report [OF demo_reachable demo_state(1)] by (simp add: demo_state(2))



text \<open>The spool never refuses a report because its file name is taken: the sequence of a
  reachable agent is always ahead of every report on disk, also after crashes, restarts and failed
  updates of the sequence file.\<close>

theorem sequence_is_ahead_of_spool:
  assumes "agent_reachable p a" and "seq_next io (ag_sequence a) = (Inr n, sq)"
  shows "snd (fst (enqueue env (ae_encode p) (filled_report (ae_agent_id p) m results n)
    (ag_spool a))) \<noteq> Some AlreadyExists"
  by (rule enqueue_not_exists)
    (simp add: filled_report_def collect_name_free [OF agent_reachable_inv [OF assms(1)] assms(2)])

theorem sequence_is_ahead_of_spool_witness:
  "snd (fst (enqueue calm (ae_encode demo_env)
     (filled_report ''web'' (zero_report [] 0 5) demo_results 2) (ag_spool demo_agent))) \<noteq> Some AlreadyExists"
proof -
  have "sq_value (ag_sequence demo_agent) = 1"
    by (simp add: demo_agent_def demo_eval calm_temporary Let_def)
  then have "seq_next (\<lambda>_. False) (ag_sequence demo_agent) = (Inr 2, snd (seq_next (\<lambda>_. False) (ag_sequence demo_agent)))"
    by (simp add: seq_next_def first_some_Cons fail_if_def Let_def)
  then show ?thesis
    using sequence_is_ahead_of_spool [OF demo_reachable, of "\<lambda>_. False" 2 _ calm "zero_report [] 0 5" demo_results]
    by (simp add: demo_env_def)
qed

text \<open>Draining, by the interface of the queue.\<close>

lemma drain_round:
  assumes "agent_inv p a" "ag_phase a = Peeking" "io_ok env" "spooled p a = r # rs" "200 \<le> k" "k < 300"
  obtains b where "agent_run p [PeekSpool env, Attempt (Response k), AckSpool env] a = Some b"
    "agent_inv p b" "ag_phase b = Peeking" "spooled p b = rs" "ag_delivered b = ag_delivered a @ [r]"
proof -
  let ?sp = "snd (acknowledge env (rep_sequence r) (ag_spool a))"
  let ?c = "a\<lparr>ag_phase := Acking r, ag_delivered := ag_delivered a @ [r]\<rparr>"
  let ?b = "?c\<lparr>ag_phase := Peeking, ag_spool := ?sp\<rparr>"
  have wf: "spool_wf (ae_decode p) (sp_dir (ag_spool a))" using assms(1) by (simp add: agent_inv_def)
  have pk: "peek env (ae_decode p) (ag_spool a) = Inr (Some r)"
    using peek_wf [OF wf, of env] assms(3,4) by (auto simp: io_ok_def)
  have run: "agent_run p [PeekSpool env, Attempt (Response k), AckSpool env] a = Some ?b"
    using assms(2,5,6) pk by (simp add: case_prod_beta)
  have i1: "agent_inv p (a\<lparr>ag_phase := Sending r second\<rparr>)"
    using agent_inv_do [OF assms(1), of "PeekSpool env"] assms(2) pk by simp
  have i2: "agent_inv p ?c"
    using agent_inv_do [OF i1, of "Attempt (Response k)" ?c] assms(5,6) by simp
  have "agent_inv p ?b" using agent_inv_ack [OF i2, of r env "rep_sequence r"] by simp
  moreover have "spooled p ?b = rs"
    using spool.ack_head [OF wf assms(4)] acknowledge_io_ok [OF assms(3)] by simp
  ultimately show ?thesis using that [OF run] by simp
qed

lemma agent_run_append:
  "agent_run p (xs @ ys) s = (case agent_run p xs s of None \<Rightarrow> None | Some t \<Rightarrow> agent_run p ys t)"
  by (induction xs arbitrary: s) (auto split: option.splits)

lemma drain_run:
  assumes "agent_inv p a" "ag_phase a = Peeking" "io_ok env" "200 \<le> k" "k < 300" "spooled p a = rs"
  shows "\<exists>b. agent_run p (concat (replicate (length rs)
      [PeekSpool env, Attempt (Response k), AckSpool env])) a = Some b \<and> agent_inv p b \<and>
    ag_phase b = Peeking \<and> spooled p b = [] \<and> ag_delivered b = ag_delivered a @ rs"
  using assms
proof (induction rs arbitrary: a)
  case Nil
  then show ?case by simp
next
  case (Cons r rs)
  let ?round = "[PeekSpool env, Attempt (Response k), AckSpool env]"
  obtain b where b: "agent_run p ?round a = Some b" "agent_inv p b" "ag_phase b = Peeking"
      "spooled p b = rs" "ag_delivered b = ag_delivered a @ [r]"
    using drain_round [OF Cons.prems(1-3,6,4,5)] by metis
  have "agent_run p (concat (replicate (length (r # rs)) ?round)) a =
      agent_run p (concat (replicate (length rs) ?round)) b"
    using b(1) by (simp only: length_Cons replicate_Suc concat.simps agent_run_append option.case)
  then show ?case
    using Cons.IH [OF b(2,3) Cons.prems(3-5) b(4)] b(5) by simp
qed

text \<open>C13. The queue drains in order: with a working file system and a server that answers with a
  success status, the sender delivers all spooled reports, oldest first and each once, empties the
  spool and goes to sleep.\<close>

theorem sender_drains_in_order:
  assumes "agent_reachable p a" and "ag_phase a = Peeking" and "io_ok env"
    and "200 \<le> k" and "k < 300"
  shows "\<exists>b. agent_run p (concat (replicate (length (spooled p a))
        [PeekSpool env, Attempt (Response k), AckSpool env]) @ [PeekSpool env]) a = Some b \<and>
    ag_phase b = WakeWait \<and> spooled p b = [] \<and>
    ag_delivered b = ag_delivered a @ spooled p a \<and>
    sorted_wrt (\<lambda>x y. rep_sequence x < rep_sequence y) (spooled p a)"
proof -
  note i = agent_reachable_inv [OF assms(1)]
  obtain b where b: "agent_run p (concat (replicate (length (spooled p a))
        [PeekSpool env, Attempt (Response k), AckSpool env])) a = Some b" "agent_inv p b"
      "ag_phase b = Peeking" "spooled p b = []" "ag_delivered b = ag_delivered a @ spooled p a"
    using drain_run [OF i assms(2-5) refl] by blast
  have wf: "spool_wf (ae_decode p) (sp_dir (ag_spool b))" "spool_wf (ae_decode p) (sp_dir (ag_spool a))"
    using b(2) i by (simp_all add: agent_inv_def)
  have "peek env (ae_decode p) (ag_spool b) = Inr None"
    using peek_wf [OF wf(1), of env] assms(3) b(4) by (auto simp: io_ok_def)
  then show ?thesis using b strict_sorted_queue [OF wf(2)] by (simp add: agent_run_append)
qed

theorem sender_drains_in_order_witness:
  "\<exists>b. agent_run demo_env [PeekSpool calm, Attempt (Response 204), AckSpool calm, PeekSpool calm]
       (the (agent_do demo_env WakeReceived demo_agent)) = Some b \<and>
     ag_phase b = WakeWait \<and> spooled demo_env b = [] \<and>
     ag_delivered b = [zero_report ''web'' 1 5]"
proof -
  have w: "sp_wake (ag_spool demo_agent)" "ag_delivered demo_agent = []"
    using agent_reachable_inv [OF demo_reachable] demo_state
    by (simp add: agent_inv_def) (simp add: demo_agent_def demo_eval calm_temporary Let_def)
  let ?a = "demo_agent\<lparr>ag_phase := Peeking, ag_spool := (ag_spool demo_agent)\<lparr>sp_wake := False\<rparr>\<rparr>"
  have a: "agent_do demo_env WakeReceived demo_agent = Some ?a" using w demo_state by simp
  have "agent_step demo_env demo_agent ?a" by (rule agent_step.intros [OF _ a]) simp
  then have "agent_reachable demo_env ?a" by (rule agent_reachable.step [OF demo_reachable])
  then show ?thesis
    using sender_drains_in_order [of demo_env ?a calm 204] a w demo_state
    by (simp add: io_ok_def calm_def)
qed

lemma next_delay_power:
  "next_delay (min (30 * second) (2 ^ n * second)) = min (30 * second) (2 ^ Suc n * second)"
  by (auto simp: next_delay_def Let_def min_def duration_defs)

lemma send_retry: "fst (send x) \<Longrightarrow> snd (send x) \<noteq> None"
  by (cases x) auto

text \<open>Backing off: after \<open>n\<close> attempts that may be retried the next wait is based on
  \<open>min 30 (2\<^sup>n)\<close> seconds, the report stays the one being sent, and the jitter adds less than half a
  second.\<close>

theorem retries_back_off:
  assumes "ag_phase a = Sending r second"
    and "list_all (\<lambda>(x, jitter). fst (send x) \<and> jitter < 500) tries"
  shows "agent_run p (concat (map (\<lambda>(x, jitter). [Attempt x, RetryTimer jitter]) tries)) a =
      Some (a\<lparr>ag_phase := Sending r (min (30 * second) (2 ^ length tries * second))\<rparr>) \<and>
    list_all (\<lambda>(x, jitter). 0 \<le> retry_wait 0 jitter \<and> retry_wait 0 jitter < second div 2) tries"
proof -
  have run: "agent_run p (concat (map (\<lambda>(x, jitter). [Attempt x, RetryTimer jitter]) tries))
        (a\<lparr>ag_phase := Sending r (min (30 * second) (2 ^ n * second))\<rparr>) =
      Some (a\<lparr>ag_phase := Sending r (min (30 * second) (2 ^ (n + length tries) * second))\<rparr>)" for n
    using assms(2)
  proof (induction tries arbitrary: n)
    case Nil
    then show ?case by simp
  next
    case (Cons t tries)
    obtain x j where t: "t = (x, j)" by force
    then obtain e where e: "send x = (True, Some e)"
      using Cons.prems send_retry [of x] by (cases "send x") auto
    have ih: "agent_run p (concat (map (\<lambda>(x, jitter). [Attempt x, RetryTimer jitter]) tries))
        (a\<lparr>ag_phase := Sending r (min (30 * second) (2 ^ Suc n * second))\<rparr>) =
      Some (a\<lparr>ag_phase := Sending r (min (30 * second) (2 ^ (Suc n + length tries) * second))\<rparr>)"
      by (rule Cons.IH) (use Cons.prems in simp)
    then show ?case using t e Cons.prems by (simp add: next_delay_power [of n, simplified])
  qed
  have "a\<lparr>ag_phase := Sending r (min (30 * second) (2 ^ 0 * second))\<rparr> = a"
    using assms(1) by (simp add: duration_defs)
  then show ?thesis using run [of 0] assms(2)
    by (auto simp: list_all_iff retry_wait_def duration_defs)
qed

theorem retries_back_off_witness:
  "agent_run demo_env [Attempt (Response 503), RetryTimer 499, Attempt TransportFails, RetryTimer 0]
     ((agent_off demo_env)\<lparr>ag_phase := Sending (zero_report ''web'' 1 5) second\<rparr>) =
   Some ((agent_off demo_env)\<lparr>ag_phase := Sending (zero_report ''web'' 1 5) (4 * second)\<rparr>)"
  using retries_back_off [of "(agent_off demo_env)\<lparr>ag_phase := Sending (zero_report ''web'' 1 5) second\<rparr>"
      "zero_report ''web'' 1 5" "[(Response 503, 499), (TransportFails, 0)]" demo_env]
  by (simp add: retry_status_def duration_defs)

end
