(* ===== verification/Config_Sound.thy ===== *)
theory Config_Sound
  imports Config Store Spool
begin

text \<open>
  What a configuration that loads guarantees to the components it configures.
\<close>

lemma first_some_None_Cons [simp]: "first_some (x # xs) = None \<longleftrightarrow> x = None \<and> first_some xs = None"
  by (cases x) auto

lemma not_fle: "\<not> is_nan a \<Longrightarrow> \<not> is_nan b \<Longrightarrow> \<not> fle a b \<longleftrightarrow> flt b a"
  by (cases a; cases b) auto

lemma token_entries_ok:
  "token_entries ts seen = None \<Longrightarrow> distinct ts \<and> set ts \<inter> set seen = {} \<and>
    (\<forall>t \<in> set ts. valid_agent_id (fst t) \<and> valid_token_hash (snd t))"
proof (induction ts arbitrary: seen)
  case (Cons t ts)
  have h: "valid_agent_id (fst t) \<and> valid_token_hash (snd t)" "t \<notin> set seen" "token_entries ts (t # seen) = None"
    using Cons.prems by (auto simp del: append.simps split: if_splits)
  show ?case using Cons.IH [OF h(3)] h(1,2) by auto
qed simp

lemma valid_token_hash_nonempty: "\<not> valid_token_hash []"
  by code_simp

lemma check_each_ok:
  "check_each key before after xs seen = Inr seen' \<Longrightarrow>
    set seen' = key ` set xs \<union> set seen \<and> distinct (map key xs) \<and> key ` set xs \<inter> set seen = {} \<and>
    (\<forall>x \<in> set xs. before x = None \<and> after x = None)"
proof (induction xs arbitrary: seen)
  case (Cons x xs)
  have h: "before x = None" "key x \<notin> set seen" "after x = None" "check_each key before after xs (key x # seen) = Inr seen'"
    using Cons.prems by (auto split: option.splits if_splits)
  show ?case using Cons.IH [OF h(4)] h(1-3) by auto
qed simp

lemma server_checked_cases:
  assumes "server_checked lib from_first c2 = Inr c"
  shows "validate_server_endpoints lib c2 = Inr c \<and>
    token_entries (sc_agent_tokens c) [] = None \<and> server_settings_error lib from_first c = None \<and>
    sc_admin_password_hash c2 \<noteq> [] \<and> 32 \<le> length (sc_session_secret c2) \<and> sc_agent_tokens c2 \<noteq> [] \<and>
    gl_bcrypt_ok lib (sc_admin_password_hash c2)"
proof (cases "validate_server_endpoints lib c2")
  case (Inl e)
  then show ?thesis using assms by (simp add: server_checked_def split: option.splits)
next
  case (Inr c1)
  then show ?thesis using assms by (auto simp: server_checked_def not_less split: option.splits)
qed

lemma load_server_cases:
  assumes "load_server lib yaml getenv from_first = Inr c"
  obtains c2 where "server_checked lib from_first c2 = Inr c"
  using assms that
  by (auto simp: load_server_def Let_def split: option.splits if_splits)

lemma endpoints_ok:
  assumes "validate_server_endpoints lib c2 = Inr c"
  shows "c = c2\<lparr>sc_public_url := trim_suffix (sc_public_url c2) ''/'' @ ''/''\<rparr> \<and>
    is_abs (sc_database_path c2) \<and>
    (\<exists>u. gl_request_uri lib (sc_public_url c2) = Some u \<and> origin_url u \<and>
       (url_scheme u = ''http'' \<or> url_scheme u = ''https'') \<and> (sc_secure_cookies c2 \<longrightarrow> url_scheme u = ''https'')) \<and>
    (sc_trusted_proxy c2 \<noteq> [] \<longrightarrow> gl_parse_cidr lib (sc_trusted_proxy c2) \<noteq> None) \<and>
    listen_error lib (sc_listen c2) = None"
  using assms by (auto simp: validate_server_endpoints_def split: option.splits)


lemma settings_ok:
  assumes "server_settings_error lib from_first c = None"
  shows "minute \<le> sc_session_idle_timeout c \<and> sc_session_idle_timeout c \<le> sc_session_max_lifetime c \<and>
      sc_session_max_lifetime c \<le> 30 * 24 * hour"
    and "0 < sc_max_clock_skew c \<and> sc_max_clock_skew c \<le> hour \<and>
      sc_max_clock_skew c \<le> sc_max_report_age c \<and> sc_max_report_age c \<le> 7 * 24 * hour"
    and "24 * hour \<le> sc_raw_retention c \<and> sc_raw_retention c \<le> sc_aggregate_retention c"
    and "1 \<le> sc_http_failure_count c \<and> sc_http_failure_count c \<le> 100"
    and "0 \<le> sc_high_usage_duration c \<and> 30 * second \<le> sc_agent_offline_after c \<and> 0 \<le> sc_alert_cooldown c \<and>
      5 * minute \<le> sc_maintenance_interval c"
    and "\<not> is_nan (sc_cpu_alert_threshold c) \<Longrightarrow>
      flt (Fin 0) (sc_cpu_alert_threshold c) \<and> fle (sc_cpu_alert_threshold c) (Fin 100)"
    and "\<not> is_nan (sc_memory_alert_threshold c) \<Longrightarrow>
      flt (Fin 0) (sc_memory_alert_threshold c) \<and> fle (sc_memory_alert_threshold c) (Fin 100)"
    and "\<not> is_nan (sc_disk_warning_threshold c) \<Longrightarrow> \<not> is_nan (sc_disk_critical_threshold c) \<Longrightarrow>
      flt (Fin 0) (sc_disk_warning_threshold c) \<and> flt (sc_disk_warning_threshold c) (sc_disk_critical_threshold c) \<and>
      fle (sc_disk_critical_threshold c) (Fin 100)"
    and "\<not> is_nan (sc_tls_critical_days c) \<Longrightarrow> \<not> is_nan (sc_tls_warning_days c) \<Longrightarrow>
      flt (Fin 0) (sc_tls_critical_days c) \<and> flt (sc_tls_critical_days c) (sc_tls_warning_days c)"
    and "validate_smtp lib from_first (sc_smtp c) = None"
proof -
  have le: "\<not> flt (Fin b) a \<Longrightarrow> \<not> is_nan a \<Longrightarrow> fle a (Fin b)" for a b by (cases a) auto
  note s = assms [unfolded server_settings_error_def, simplified]
  show "minute \<le> sc_session_idle_timeout c \<and> sc_session_idle_timeout c \<le> sc_session_max_lifetime c \<and>
      sc_session_max_lifetime c \<le> 30 * 24 * hour" using s by linarith
  show "0 < sc_max_clock_skew c \<and> sc_max_clock_skew c \<le> hour \<and>
      sc_max_clock_skew c \<le> sc_max_report_age c \<and> sc_max_report_age c \<le> 7 * 24 * hour" using s by linarith
  show "24 * hour \<le> sc_raw_retention c \<and> sc_raw_retention c \<le> sc_aggregate_retention c" using s by linarith
  show "1 \<le> sc_http_failure_count c \<and> sc_http_failure_count c \<le> 100" using s by linarith
  show "0 \<le> sc_high_usage_duration c \<and> 30 * second \<le> sc_agent_offline_after c \<and> 0 \<le> sc_alert_cooldown c \<and>
      5 * minute \<le> sc_maintenance_interval c" using s by linarith
  show "\<not> is_nan (sc_cpu_alert_threshold c) \<Longrightarrow>
      flt (Fin 0) (sc_cpu_alert_threshold c) \<and> fle (sc_cpu_alert_threshold c) (Fin 100)"
    using s le not_fle by simp
  show "\<not> is_nan (sc_memory_alert_threshold c) \<Longrightarrow>
      flt (Fin 0) (sc_memory_alert_threshold c) \<and> fle (sc_memory_alert_threshold c) (Fin 100)"
    using s le not_fle by simp
  show "\<not> is_nan (sc_disk_warning_threshold c) \<Longrightarrow> \<not> is_nan (sc_disk_critical_threshold c) \<Longrightarrow>
      flt (Fin 0) (sc_disk_warning_threshold c) \<and> flt (sc_disk_warning_threshold c) (sc_disk_critical_threshold c) \<and>
      fle (sc_disk_critical_threshold c) (Fin 100)"
    using s le not_fle by simp
  show "\<not> is_nan (sc_tls_critical_days c) \<Longrightarrow> \<not> is_nan (sc_tls_warning_days c) \<Longrightarrow>
      flt (Fin 0) (sc_tls_critical_days c) \<and> flt (sc_tls_critical_days c) (sc_tls_warning_days c)"
    using s not_fle by simp
  show "validate_smtp lib from_first (sc_smtp c) = None" using s by simp
qed

lemma smtp_ok:
  "validate_smtp lib from_first m = None \<Longrightarrow> sm_enabled m \<Longrightarrow> a = sm_from m \<or> a = sm_to m \<Longrightarrow>
    gl_mail_address lib a = Some a \<and> CHR 0x0D \<notin> set a \<and> CHR 0x0A \<notin> set a"
  by (auto simp: validate_smtp_def smtp_address_error_def contains_any_def list_ex_iff split: if_splits)

lemma loaded_tokens_sync:
  assumes "load_server lib yaml getenv from_first = Inr c"
  shows "fst (sync_agents (\<lambda>_. False) (sc_agent_tokens c) d) = None"
proof -
  obtain c2 where "server_checked lib from_first c2 = Inr c" by (rule load_server_cases [OF assms])
  then have t: "token_entries (sc_agent_tokens c) [] = None" using server_checked_cases by simp
  have "\<forall>t \<in> set (sc_agent_tokens c). fst t \<noteq> [] \<and> snd t \<noteq> []"
    using token_entries_ok [OF t] valid_token_hash_nonempty by (force simp: valid_agent_id_def)
  then show ?thesis
    using sync_loop_succeeds [of "\<lambda>_. False" "sc_agent_tokens c" "d\<lparr>db_tokens := []\<rparr>"] token_entries_ok [OF t]
    by (auto simp: sync_agents_def)
qed

lemma loaded_proxy:
  assumes "load_server lib yaml getenv from_first = Inr c" and "sc_trusted_proxy c \<noteq> []"
  shows "gl_parse_cidr lib (sc_trusted_proxy c) \<noteq> None"
proof -
  obtain c2 where "server_checked lib from_first c2 = Inr c" by (rule load_server_cases [OF assms(1)])
  then have "validate_server_endpoints lib c2 = Inr c" using server_checked_cases by simp
  from endpoints_ok [OF this] show ?thesis using assms(2) by simp
qed

subsection \<open>Properties\<close>


text \<open>Libraries and a configuration that loads.\<close>

definition demo_url :: "string \<Rightarrow> url option" where
  "demo_url s = (if has_prefix s ''https://mon.example'' then
     Some \<lparr>url_scheme = ''https'', url_user = False, url_host = ''mon.example'',
       url_path = drop 19 s, url_raw_query = [], url_fragment = []\<rparr> else None)"

definition demo_lib :: go_lib where
  "demo_lib = \<lparr>gl_request_uri = demo_url, gl_url = demo_url,
     gl_parse_ip = (\<lambda>s. if s = ''127.0.0.1'' then Some (replicate 10 0 @ [255, 255, 127, 0, 0, 1]) else None),
     gl_parse_cidr = (\<lambda>s. if s = ''127.0.0.0/8'' then Some ([127, 0, 0, 0], [255, 0, 0, 0]) else None),
     gl_mail_address = (\<lambda>s. if s = ''ops@example.org'' then Some s else None),
     gl_equal_fold = (=), gl_bcrypt_ok = (\<lambda>s. s = ''bcrypt''), gl_bcrypt_match = (\<lambda>h p. h = ''bcrypt'' \<and> p = ''correct horse'')\<rparr>"

definition demo_hash :: string where
  "demo_hash = ''$argon2id$v=19$'' @ argon_parameters @ ''$'' @ replicate 22 CHR ''A'' @ ''$'' @ replicate 43 CHR ''A''"

definition demo_yaml :: "float64 \<Rightarrow> server_config \<Rightarrow> server_config option" where
  "demo_yaml cpu c = Some (c\<lparr>sc_public_url := ''https://mon.example'', sc_agent_tokens := [(''web'', demo_hash)],
     sc_admin_password_hash := ''bcrypt'', sc_session_secret := replicate 32 CHR ''s'',
     sc_cpu_alert_threshold := cpu\<rparr>)"

definition demo_config :: "float64 \<Rightarrow> server_config" where
  "demo_config cpu = (the (demo_yaml cpu server_defaults))\<lparr>sc_public_url := ''https://mon.example/''\<rparr>"

lemma demo_hash_valid: "valid_token_hash demo_hash"
  by code_simp

lemma server_overrides_unset [simp]: "server_overrides (\<lambda>_. []) c = c"
  by (simp add: server_overrides_def set_string_def)

lemma demo_config_loads:
  assumes "\<not> fle cpu (Fin 0)" "\<not> flt (Fin 100) cpu"
  shows "load_server demo_lib (demo_yaml cpu) (\<lambda>_. []) True = Inr (demo_config cpu)"
proof -
  have split: "split_host_port ''127.0.0.1:8080'' = Some (''127.0.0.1'', ''8080'')" by code_simp
  have port: "atoi ''8080'' = Some 8080" by (simp add: atoi_def is_digit_def code_def Let_def)
  have id: "valid_agent_id ''web''" by code_simp
  have url: "demo_url ''https://mon.example'' = Some \<lparr>url_scheme = ''https'', url_user = False, url_host = ''mon.example'',
       url_path = [], url_raw_query = [], url_fragment = []\<rparr>"
    by (simp add: demo_url_def has_prefix_def)
  show ?thesis
    using assms demo_hash_valid id split port url
    by (simp add: load_server_def Let_def demo_yaml_def server_checked_def validate_server_endpoints_def
        listen_error_def demo_config_def server_defaults_def demo_lib_def is_abs_def has_prefix_def origin_url_def
        trim_suffix_def has_suffix_def server_settings_error_def validate_smtp_def duration_defs fail_if_def)
qed



text \<open>A threshold that is not a number passes the range checks, which only ask whether it is too small
  or too large; no usage exceeds it, so the server runs without that alert.\<close>

theorem nan_threshold_accepted:
  "load_server demo_lib (demo_yaml NaN) (\<lambda>_. []) True = Inr (demo_config NaN) \<and>
   \<not> flt (sc_cpu_alert_threshold (demo_config NaN)) usage"
  using demo_config_loads [of NaN] by (simp add: demo_config_def demo_yaml_def)

lemma load_agent_cases:
  assumes "load_agent lib yaml getenv = Inr c"
  obtains c2 seen where "agent_settings_error lib c2 = None" "c = agent_normalised c2" "agent_checks lib c = Inr seen"
  using assms that
  by (auto simp: load_agent_def Let_def split: option.splits sum.splits)

lemma agent_checks_ok:
  assumes "agent_checks lib c = Inr seen"
  shows "distinct (ac_systemd_services c) \<and> (\<forall>s \<in> set (ac_systemd_services c). valid_check_name s) \<and>
    distinct (map hc_name (ac_http_checks c)) \<and>
    (\<forall>h \<in> set (ac_http_checks c). valid_check_name (hc_name h) \<and> valid_check_timeout (hc_timeout h) \<and>
       (\<exists>u. gl_request_uri lib (hc_url h) = Some u \<and> url_host u \<noteq> [] \<and> \<not> url_user u \<and>
          (url_scheme u = ''http'' \<or> url_scheme u = ''https''))) \<and>
    distinct (map tc_name (ac_tcp_checks c)) \<and>
    (\<forall>t \<in> set (ac_tcp_checks c). valid_check_name (tc_name t) \<and> valid_check_timeout (tc_timeout t) \<and>
       split_host_port (tc_address t) \<noteq> None) \<and>
    (dc_enabled (ac_docker c) \<longrightarrow> is_abs (dc_socket (ac_docker c)) \<and> valid_check_timeout (dc_timeout (ac_docker c)))"
proof -
  obtain s1 s2 where s1: "check_services (ac_systemd_services c) [] = Inr s1"
      and d: "dc_enabled (ac_docker c) \<Longrightarrow> is_abs (dc_socket (ac_docker c)) \<and> valid_check_timeout (dc_timeout (ac_docker c))"
      and s2: "check_http_checks lib (ac_http_checks c) s1 = Inr s2" and s3: "check_tcp_checks (ac_tcp_checks c) s2 = Inr seen"
    using assms by (auto simp: agent_checks_def split: sum.splits option.splits if_splits)
  have inj: "distinct (map (\<lambda>x. p @ f x) xs) \<Longrightarrow> distinct (map f xs)" for p :: string and f :: "'a \<Rightarrow> string" and xs
    by (induction xs) auto
  have "distinct (ac_systemd_services c)" using check_each_ok [OF s1 [unfolded check_services_def]] by (simp add: distinct_map)
  moreover have "distinct (map hc_name (ac_http_checks c))"
    using check_each_ok [OF s2 [unfolded check_http_checks_def]]
    by (auto simp: distinct_map inj_on_def)
  moreover have "distinct (map tc_name (ac_tcp_checks c))"
    using check_each_ok [OF s3 [unfolded check_tcp_checks_def]] by (auto simp: distinct_map inj_on_def)
  moreover have "\<forall>s \<in> set (ac_systemd_services c). valid_check_name s"
    using check_each_ok [OF s1 [unfolded check_services_def]] by simp
  moreover have "\<forall>h \<in> set (ac_http_checks c). valid_check_name (hc_name h) \<and> valid_check_timeout (hc_timeout h) \<and>
       (\<exists>u. gl_request_uri lib (hc_url h) = Some u \<and> url_host u \<noteq> [] \<and> \<not> url_user u \<and>
          (url_scheme u = ''http'' \<or> url_scheme u = ''https''))"
    using check_each_ok [OF s2 [unfolded check_http_checks_def]] by (auto split: option.splits)
  moreover have "\<forall>t \<in> set (ac_tcp_checks c). valid_check_name (tc_name t) \<and> valid_check_timeout (tc_timeout t) \<and>
       split_host_port (tc_address t) \<noteq> None"
    using check_each_ok [OF s3 [unfolded check_tcp_checks_def]] by simp
  ultimately show ?thesis using d by blast
qed

lemma agent_id_safe: "valid_agent_id a \<Longrightarrow> safe_label a"
  by (auto simp: valid_agent_id_def safe_label_def agent_id_char_def label_char_def list_all_iff)

text \<open>The spool refuses its arguments only for an empty directory or a size below one.\<close>

lemma clean_loop_error: "clean_loop env es d = (Some e, d') \<Longrightarrow> e = RemoveIncomplete"
  by (induction env es d rule: clean_loop.induct) (auto split: if_splits)

lemma trim_loop_error: "trim_loop env m fs n d = (k, Some e, d') \<Longrightarrow> e = EvictReport"
  by (induction env m fs n d rule: trim_loop.induct) (auto split: if_splits)

lemma list_entries_error: "list_entries env es = Inl e \<Longrightarrow> e \<noteq> SpoolArguments"
  by (induction env es rule: list_entries.induct) (auto split: if_splits option.splits sum.splits)

lemma new_spool_arguments:
  assumes "dir \<noteq> []" "1 \<le> maximum"
  shows "fst (new_spool env dir maximum d) \<noteq> Inl SpoolArguments"
proof -
  have "fst (clean_temporary_files env d) \<noteq> Some SpoolArguments"
    by (auto simp: clean_temporary_files_def dest: clean_loop_error split: option.splits prod.splits)
  moreover have "fst (snd (trim_locked env maximum d')) \<noteq> Some SpoolArguments" for d'
    by (auto simp: trim_locked_def list_locked_def dest: trim_loop_error list_entries_error
        split: option.splits prod.splits sum.splits)
  ultimately show ?thesis using assms
    by (auto simp: new_spool_def split: option.splits prod.splits) (metis fst_conv snd_conv)+
qed



definition demo_agent_yaml :: "agent_config \<Rightarrow> agent_config option" where
  "demo_agent_yaml c = Some (c\<lparr>ac_agent_id := ''web'', ac_server_url := ''https://mon.example/'',
     ac_token := replicate 32 CHR ''t'', ac_systemd_services := [''nginx.service''],
     ac_http_checks := [\<lparr>hc_name = ''shop'', hc_url = ''https://mon.example/shop'', hc_timeout = 0\<rparr>],
     ac_tcp_checks := [\<lparr>tc_name = ''db'', tc_address = ''127.0.0.1:8080'', tc_timeout = second\<rparr>]\<rparr>)"

definition demo_agent_config :: agent_config where
  "demo_agent_config = agent_normalised (the (demo_agent_yaml agent_defaults))"

lemma agent_overrides_unset [simp]: "agent_overrides (\<lambda>_. []) c = c"
  by (simp add: agent_overrides_def set_string_def)

lemma demo_agent_loads: "load_agent demo_lib demo_agent_yaml (\<lambda>_. []) = Inr demo_agent_config"
proof -
  have names: "valid_agent_id ''web''" "valid_check_name ''nginx.service''" "valid_check_name ''shop''" "valid_check_name ''db''"
      "has_suffix ''nginx.service'' ''.service''" "split_host_port ''127.0.0.1:8080'' = Some (''127.0.0.1'', ''8080'')"
    by code_simp+
  have url: "demo_url ''https://mon.example/'' = Some \<lparr>url_scheme = ''https'', url_user = False, url_host = ''mon.example'',
       url_path = ''/'', url_raw_query = [], url_fragment = []\<rparr>"
    "demo_url ''https://mon.example/shop'' = Some \<lparr>url_scheme = ''https'', url_user = False, url_host = ''mon.example'',
       url_path = ''/shop'', url_raw_query = [], url_fragment = []\<rparr>"
    by (simp_all add: demo_url_def has_prefix_def)
  show ?thesis
    using names url
    by (simp add: load_agent_def Let_def demo_agent_config_def demo_agent_yaml_def agent_defaults_def set_duration_def
        agent_settings_error_def demo_lib_def origin_url_def is_abs_def has_prefix_def duration_defs
        agent_normalised_def agent_checks_def check_services_def check_http_checks_def check_tcp_checks_def
        default_timeout_def valid_check_timeout_def fail_if_def)
qed


end
