(* ===== verification/GoFloatText.thy ===== *)
theory GoFloatText
  imports GoFloat GoText
begin

text \<open>
  \<open>strconv.ParseFloat(s, 64)\<close>: decimal and hexadecimal numbers with underscores between digits, and the
  names of the special values.  \<open>None\<close> is an error, also the one for a number that is too large.
\<close>

definition lower :: "char \<Rightarrow> nat" where
  "lower c = (if 65 \<le> code c \<and> code c \<le> 90 then code c + 32 else code c)"

definition hex_letter :: "char \<Rightarrow> bool" where
  "hex_letter c \<longleftrightarrow> 97 \<le> lower c \<and> lower c \<le> 102"

definition digit_value :: "char \<Rightarrow> nat" where
  "digit_value c = (if is_digit c then code c - 48 else lower c - 87)"

text \<open>The digits of the mantissa: their value, how many follow the point, whether there was a point, a
  digit and an underscore, and the rest of the text.\<close>

record mantissa =
  ma_value :: nat
  ma_after :: nat
  ma_dot :: bool
  ma_digits :: bool
  ma_underscores :: bool

fun scan_mantissa :: "bool \<Rightarrow> mantissa \<Rightarrow> string \<Rightarrow> mantissa \<times> string" where
  "scan_mantissa hex m [] = (m, [])"
| "scan_mantissa hex m (c # cs) =
     (if c = CHR ''_'' then scan_mantissa hex (m\<lparr>ma_underscores := True\<rparr>) cs
      else if c = CHR ''.'' then
        if ma_dot m then (m, c # cs) else scan_mantissa hex (m\<lparr>ma_dot := True\<rparr>) cs
      else if is_digit c \<or> (hex \<and> hex_letter c) then
        scan_mantissa hex (m\<lparr>ma_value := (if hex then 16 else 10) * ma_value m + digit_value c,
          ma_after := ma_after m + (if ma_dot m then 1 else 0), ma_digits := True\<rparr>) cs
      else (m, c # cs))"

text \<open>The digits of the exponent, which stops growing at 10000.\<close>

fun scan_exponent :: "nat \<Rightarrow> bool \<Rightarrow> string \<Rightarrow> nat \<times> bool \<times> string" where
  "scan_exponent e u [] = (e, u, [])"
| "scan_exponent e u (c # cs) =
     (if c = CHR ''_'' then scan_exponent e True cs
      else if is_digit c then scan_exponent (if e < 10000 then 10 * e + digit_value c else e) u cs
      else (e, u, c # cs))"

text \<open>\<open>underscoreOK\<close>: an underscore follows a digit and is followed by one.  The last argument tells what came
  before.\<close>

datatype seen = Beginning | Digit | Underscore | Other

fun underscores_from :: "bool \<Rightarrow> seen \<Rightarrow> string \<Rightarrow> bool" where
  "underscores_from hex i [] \<longleftrightarrow> i \<noteq> Underscore"
| "underscores_from hex i (c # cs) \<longleftrightarrow>
     (if is_digit c \<or> (hex \<and> hex_letter c) then underscores_from hex Digit cs
      else if c = CHR ''_'' then i = Digit \<and> underscores_from hex Underscore cs
      else i \<noteq> Underscore \<and> underscores_from hex Other cs)"

definition drop_sign :: "string \<Rightarrow> string" where
  "drop_sign s = (if s \<noteq> [] \<and> (hd s = CHR ''+'' \<or> hd s = CHR ''-'') then tl s else s)"

definition underscores_ok :: "string \<Rightarrow> bool" where
  "underscores_ok s0 =
     (let s = drop_sign s0 in
      if 2 \<le> length s \<and> hd s = CHR ''0'' \<and> lower (s ! 1) \<in> {98, 111, 120} then
        underscores_from (lower (s ! 1) = 120) Digit (drop 2 s)
      else underscores_from False Beginning s)"

definition pow10 :: "int \<Rightarrow> rat" where
  "pow10 e = (if 0 \<le> e then 10 ^ nat e else 1 / 10 ^ nat (- e))"

text \<open>The number and what is left of the text after it.\<close>

definition read_float :: "string \<Rightarrow> (rat \<times> string) option" where
  "read_float s0 =
     (let neg = (s0 \<noteq> [] \<and> hd s0 = CHR ''-''); s = drop_sign s0;
          hex = (3 \<le> length s \<and> hd s = CHR ''0'' \<and> lower (s ! 1) = 120);
          (m, s1) = scan_mantissa hex \<lparr>ma_value = 0, ma_after = 0, ma_dot = False, ma_digits = False,
            ma_underscores = False\<rparr> (if hex then drop 2 s else s) in
      if s = [] \<or> \<not> ma_digits m then None
      else
        (let number = (\<lambda>e. (if neg then - 1 else 1) * rat_of_nat (ma_value m) *
               (if hex then pow2 (e - 4 * int (ma_after m)) else pow10 (e - int (ma_after m))));
             finish = (\<lambda>e u s2. if u \<and> \<not> underscores_ok (take (length s0 - length s2) s0) then None
               else Some (number e, s2)) in
         if s1 \<noteq> [] \<and> lower (hd s1) = (if hex then 112 else 101) then
           (let s2 = tl s1; s3 = drop_sign s2 in
            if s3 = [] \<or> \<not> is_digit (hd s3) then None
            else (case scan_exponent 0 (ma_underscores m) s3 of (e, u, s4) \<Rightarrow>
              finish (if hd s2 = CHR ''-'' then - int e else int e) u s4))
         else if hex then None
         else finish 0 (ma_underscores m) s1))"

definition special_float :: "string \<Rightarrow> float64 option" where
  "special_float s =
     (let body = map lower (drop_sign s); inf = map code ''inf''; infinity = map code ''infinity'' in
      if body = inf \<or> body = infinity then Some (if hd s = CHR ''-'' then NInf else PInf)
      else if map lower s = map code ''nan'' then Some NaN else None)"

definition parse_float :: "string \<Rightarrow> float64 option" where
  "parse_float s =
     (case special_float s of Some v \<Rightarrow> Some v
      | None \<Rightarrow>
          (case read_float s of
             Some (q, []) \<Rightarrow> if is_inf (fl q) then None else Some (fl q)
           | _ \<Rightarrow> None))"

subsection \<open>Plain decimal numbers\<close>

lemma digit_not_special: "is_digit c \<Longrightarrow> c \<noteq> CHR ''_'' \<and> c \<noteq> CHR ''.'' \<and> c \<noteq> CHR ''+'' \<and> c \<noteq> CHR ''-''"
  by (auto simp: is_digit_def code_def)

text \<open>Digits extend the mantissa; the value is the one \<open>dec_val\<close> finds.\<close>

lemma scan_mantissa_digits:
  "(\<And>c. c \<in> set ds \<Longrightarrow> is_digit c) \<Longrightarrow> dec_val (ma_value m) ds = Some v \<Longrightarrow>
    scan_mantissa False m (ds @ s) = scan_mantissa False
      (m\<lparr>ma_value := v, ma_after := ma_after m + (if ma_dot m then length ds else 0),
         ma_digits := (ma_digits m \<or> ds \<noteq> [])\<rparr>) s"
proof (induction ds arbitrary: m)
  case (Cons c ds)
  have c: "is_digit c" using Cons.prems(1) by simp
  let ?m = "m\<lparr>ma_value := 10 * ma_value m + digit_value c, ma_after := ma_after m + (if ma_dot m then 1 else 0), ma_digits := True\<rparr>"
  have v: "dec_val (ma_value ?m) ds = Some v" using Cons.prems(2) c by (simp add: digit_value_def)
  have "scan_mantissa False m ((c # ds) @ s) = scan_mantissa False ?m (ds @ s)"
    using c digit_not_special [OF c] by simp
  also have "\<dots> = scan_mantissa False (?m\<lparr>ma_value := v, ma_after := ma_after ?m + (if ma_dot ?m then length ds else 0),
         ma_digits := (ma_digits ?m \<or> ds \<noteq> [])\<rparr>) s"
    using Cons.IH [of ?m] Cons.prems(1) v by simp
  finally show ?case by simp
next
  case Nil
  then have "m\<lparr>ma_value := v\<rparr> = m" by (cases m) simp
  then show ?case by simp
qed

lemma digit_code: "is_digit c \<Longrightarrow> lower c = code c \<and> code c \<le> 57"
  by (auto simp: is_digit_def lower_def)

lemma not_special:
  assumes "is_digit c"
  shows "special_float (c # cs) = None"
  using assms digit_code [OF assms] digit_not_special [OF assms]
  by (simp add: special_float_def drop_sign_def code_def)

text \<open>The numbers of \<open>/proc/uptime\<close> and \<open>/proc/loadavg\<close>: digits, a point, digits.  The value is the nearest
  \<open>float64\<close> of the exact decimal.\<close>

lemma parse_float_point:
  assumes i: "is \<noteq> []" "\<forall>c \<in> set is. is_digit c" "dec_val 0 is = Some n"
    and f: "\<forall>c \<in> set fs. is_digit c" "dec_val n fs = Some v"
    and q: "q = rat_of_nat v / 10 ^ length fs" and fin: "\<not> is_inf (fl q)"
  shows "parse_float (is @ CHR ''.'' # fs) = Some (fl q)"
proof -
  obtain c cs where c: "is = c # cs" "is_digit c" using i(1,2) by (cases "is") auto
  let ?s = "is @ CHR ''.'' # fs"
  let ?m = "\<lparr>ma_value = 0, ma_after = 0, ma_dot = False, ma_digits = False, ma_underscores = False\<rparr>"
  have sign: "drop_sign ?s = ?s" "hd ?s \<noteq> CHR ''-''" using c digit_not_special [OF c(2)] by (simp_all add: drop_sign_def)
  have "lower (?s ! 1) \<noteq> 120"
  proof (cases cs)
    case Nil
    then show ?thesis using c(1) by (simp add: lower_def code_def)
  next
    case (Cons d ds)
    then have "is_digit d" using i(2) c(1) by simp
    then show ?thesis using c(1) Cons digit_code [of d] by simp
  qed
  then have hex: "(3 \<le> length ?s \<and> hd ?s = CHR ''0'' \<and> lower (?s ! 1) = 120) = False" by blast
  have "scan_mantissa False ?m ?s = scan_mantissa False (?m\<lparr>ma_value := n, ma_digits := True\<rparr>) (CHR ''.'' # fs)"
    using scan_mantissa_digits [of "is" ?m n "CHR ''.'' # fs"] i by simp
  also have "\<dots> = scan_mantissa False (?m\<lparr>ma_value := n, ma_digits := True, ma_dot := True\<rparr>) (fs @ [])" by simp
  also have "\<dots> = (?m\<lparr>ma_value := v, ma_after := length fs, ma_dot := True, ma_digits := True\<rparr>, [])"
    by (subst scan_mantissa_digits [where v = v]) (use f in simp_all)
  finally have m: "scan_mantissa False ?m ?s = (?m\<lparr>ma_value := v, ma_after := length fs, ma_dot := True, ma_digits := True\<rparr>, [])" .
  have "pow10 (- int (length fs)) = 1 / 10 ^ length fs" by (cases "fs = []") (simp_all add: pow10_def)
  then have "read_float ?s = Some (q, [])"
    using sign(2) by (simp only: read_float_def Let_def sign(1) hex if_False m prod.case) (simp add: q)
  moreover have "special_float ?s = None" using not_special [OF c(2)] c(1) by simp
  ultimately show ?thesis using fin by (simp add: parse_float_def)
qed

lemma parse_float_fixed:
  assumes "f < 10 ^ k" and "q = rat_of_nat n + rat_of_nat f / 10 ^ k" and "\<not> is_inf (fl q)"
  shows "parse_float (dec n @ CHR ''.'' # fixed_digits k f) = Some (fl q)"
proof (rule parse_float_point)
  have digits: "\<forall>c \<in> set (fixed_digits k f). is_digit c"
    by (induction k arbitrary: f) (auto simp: is_digit_digit_char)
  have "dec_val n (fixed_digits k f) = Some (n * 10 ^ k + f)" if "f < 10 ^ k" for f using that
  proof (induction k arbitrary: f)
    case (Suc k)
    then have "dec_val n (fixed_digits k (f div 10)) = Some (n * 10 ^ k + f div 10)" by (intro Suc.IH) auto
    then show ?case by (simp add: dec_val_append is_digit_digit_char code_digit_char algebra_simps)
  qed simp
  then show "dec_val n (fixed_digits k f) = Some (n * 10 ^ k + f)" using assms(1) by blast
  show "q = rat_of_nat (n * 10 ^ k + f) / 10 ^ length (fixed_digits k f)"
    by (simp add: assms(2) field_simps)
  show "\<forall>c \<in> set (fixed_digits k f). is_digit c" by (rule digits)
qed (use assms(3) dec_digits dec_val_dec in auto)

end
