(* ===== verification/Collector_Parse.thy ===== *)
theory Collector_Parse
  imports Report GoFloatText
begin

text \<open>
  Reading the kernel's files (\<open>internal/collector/parse.go\<close> and \<open>io.go\<close>): CPU times, memory, the counters
  of disks and network interfaces, and the figures computed from two readings.  All counters are
  \<open>u64\<close> and wrap.  A file is its text and whether reading it broke off; a Go map is an \<open>amap\<close>.
\<close>

record input =
  in_text :: string
  in_broken :: bool

datatype collect_error =
    OpenFailed | ScanFailed | CloseFailed | NoCpuLine | BadCpuLine | BadNumber | NoMemTotal
  | BadUptime | BadLoad | NoHostname

text \<open>The lines of a \<open>bufio.Scanner\<close> and whether its \<open>Err\<close> is set in the end.\<close>

definition scan_input :: "input \<Rightarrow> string list \<times> bool" where
  "scan_input i = (case scan_lines (in_text i) of (ls, too_long) \<Rightarrow> (ls, too_long \<or> in_broken i))"

definition value_or_zero :: "('k, u64) amap \<Rightarrow> 'k \<Rightarrow> u64" where
  "value_or_zero m k = (case amap_get m k of None \<Rightarrow> 0 | Some v \<Rightarrow> v)"

subsection \<open>Percentages\<close>

definition clamp_percent :: "float64 \<Rightarrow> float64" where
  "clamp_percent v = (if flt v (Fin 0) then Fin 0 else if flt (Fin 100) v then Fin 100 else v)"

definition percent :: "u64 \<Rightarrow> u64 \<Rightarrow> float64" where
  "percent value whole =
     (if whole = 0 then Fin 0
      else clamp_percent (fdiv (fmul (float_of_u64 value) (Fin 100)) (float_of_u64 whole)))"

definition subtract_floor :: "u64 \<Rightarrow> u64 \<Rightarrow> u64" where
  "subtract_floor whole free = (if whole < free then 0 else whole - free)"

subsection \<open>\<open>/proc/stat\<close>\<close>

record cpu_times =
  cpu_total :: u64
  cpu_idle :: u64

text \<open>The loop over the numbers of the first line; the fourth is the idle time, the fifth the time waiting
  for I/O.\<close>

fun cpu_sum :: "nat \<Rightarrow> string list \<Rightarrow> cpu_times \<Rightarrow> cpu_times option" where
  "cpu_sum i [] t = Some t"
| "cpu_sum i (v # vs) t =
     (case parse_uint v of
        None \<Rightarrow> None
      | Some n \<Rightarrow> cpu_sum (Suc i) vs
          \<lparr>cpu_total = cpu_total t + n, cpu_idle = (if i = 3 \<or> i = 4 then cpu_idle t + n else cpu_idle t)\<rparr>)"

definition parse_cpu :: "input \<Rightarrow> collect_error + cpu_times" where
  "parse_cpu r =
     (case fst (scan_input r) of
        [] \<Rightarrow> Inl NoCpuLine
      | line # _ \<Rightarrow>
          (let fs = GoText.fields line in
           if length fs < 5 \<or> hd fs \<noteq> ''cpu'' then Inl BadCpuLine
           else case cpu_sum 0 (tl fs) \<lparr>cpu_total = 0, cpu_idle = 0\<rparr> of
               None \<Rightarrow> Inl BadNumber | Some t \<Rightarrow> Inr t))"

definition cpu_percent :: "cpu_times \<Rightarrow> cpu_times \<Rightarrow> float64" where
  "cpu_percent previous current =
     (let total_delta = cpu_total current - cpu_total previous in
      if total_delta = 0 \<or> cpu_total current < cpu_total previous \<or> cpu_idle current < cpu_idle previous then Fin 0
      else
        (let idle_delta = cpu_idle current - cpu_idle previous in
         clamp_percent (fdiv (fmul (float_of_u64 (total_delta - idle_delta)) (Fin 100)) (float_of_u64 total_delta))))"

subsection \<open>\<open>/proc/meminfo\<close>\<close>

fun memory_lines :: "string list \<Rightarrow> (string, u64) amap \<Rightarrow> (string, u64) amap option" where
  "memory_lines [] m = Some m"
| "memory_lines (line # ls) m =
     (case GoText.fields line of
        name # text # _ \<Rightarrow>
          (case parse_uint text of
             None \<Rightarrow> None
           | Some v \<Rightarrow> memory_lines ls (amap_put (trim_suffix name '':'') (v * 1024) m))
      | _ \<Rightarrow> memory_lines ls m)"

definition parse_memory :: "input \<Rightarrow> collect_error + memory" where
  "parse_memory r =
     (case scan_input r of (ls, failed) \<Rightarrow>
        (case memory_lines ls [] of
           None \<Rightarrow> Inl BadNumber
         | Some m \<Rightarrow>
             if failed then Inl ScanFailed
             else
               (let whole = value_or_zero m ''MemTotal'';
                    available0 = value_or_zero m ''MemAvailable'' in
                if whole = 0 then Inl NoMemTotal
                else
                  (let available = (if available0 = 0
                         then value_or_zero m ''MemFree'' + value_or_zero m ''Buffers'' + value_or_zero m ''Cached''
                         else available0);
                       used = subtract_floor whole available;
                       swap_total = value_or_zero m ''SwapTotal'';
                       swap_used = subtract_floor swap_total (value_or_zero m ''SwapFree'') in
                   Inr \<lparr>mem_total_bytes = whole, mem_used_bytes = used, mem_available_bytes = available,
                     mem_used_percent = percent used whole, mem_swap_total_bytes = swap_total,
                     mem_swap_used_bytes = swap_used, mem_swap_percent = percent swap_used swap_total\<rparr>))))"

subsection \<open>\<open>/proc/diskstats\<close> and \<open>/proc/net/dev\<close>\<close>

record disk_counters =
  dc_read_ios :: u64
  dc_read_sectors :: u64
  dc_write_ios :: u64
  dc_write_sectors :: u64

record network_counters =
  nc_receive_bytes :: u64
  nc_receive_packets :: u64
  nc_transmit_bytes :: u64
  nc_transmit_packets :: u64

text \<open>The four numbers a line is read for, in the order of the indices; the first that is no number is an
  error.\<close>

definition four_numbers :: "string list \<Rightarrow> nat \<Rightarrow> nat \<Rightarrow> nat \<Rightarrow> nat \<Rightarrow> (u64 \<times> u64 \<times> u64 \<times> u64) option" where
  "four_numbers fs i j k l =
     (case (parse_uint (fs ! i), parse_uint (fs ! j), parse_uint (fs ! k), parse_uint (fs ! l)) of
        (Some a, Some b, Some c, Some d) \<Rightarrow> Some (a, b, c, d)
      | _ \<Rightarrow> None)"

fun disk_lines :: "string list \<Rightarrow> (string, disk_counters) amap \<Rightarrow> (string, disk_counters) amap option" where
  "disk_lines [] m = Some m"
| "disk_lines (line # ls) m =
     (let fs = GoText.fields line in
      if length fs < 14 then disk_lines ls m
      else case four_numbers fs 3 5 7 9 of
          None \<Rightarrow> None
        | Some (a, b, c, d) \<Rightarrow> disk_lines ls (amap_put (fs ! 2)
            \<lparr>dc_read_ios = a, dc_read_sectors = b, dc_write_ios = c, dc_write_sectors = d\<rparr> m))"

definition parse_disk_stats :: "input \<Rightarrow> collect_error + (string, disk_counters) amap" where
  "parse_disk_stats r =
     (case scan_input r of (ls, failed) \<Rightarrow>
        (case disk_lines ls [] of
           None \<Rightarrow> Inl BadNumber
         | Some m \<Rightarrow> if failed then Inl ScanFailed else Inr m))"

fun network_lines :: "string list \<Rightarrow> (string, network_counters) amap \<Rightarrow> (string, network_counters) amap option" where
  "network_lines [] m = Some m"
| "network_lines (line # ls) m =
     (case index_byte line CHR '':'' of
        None \<Rightarrow> network_lines ls m
      | Some separator \<Rightarrow>
          (let name = trim_space (take separator line); fs = GoText.fields (drop (Suc separator) line) in
           if name = [] \<or> length fs < 16 then network_lines ls m
           else case four_numbers fs 0 1 8 9 of
               None \<Rightarrow> None
             | Some (a, b, c, d) \<Rightarrow> network_lines ls (amap_put name
                 \<lparr>nc_receive_bytes = a, nc_receive_packets = b, nc_transmit_bytes = c, nc_transmit_packets = d\<rparr> m)))"

definition parse_network_stats :: "input \<Rightarrow> collect_error + (string, network_counters) amap" where
  "parse_network_stats r =
     (case scan_input r of (ls, failed) \<Rightarrow>
        (case network_lines ls [] of
           None \<Rightarrow> Inl BadNumber
         | Some m \<Rightarrow> if failed then Inl ScanFailed else Inr m))"

subsection \<open>Rates\<close>

definition disk_sector_bytes :: u64 where "disk_sector_bytes = 512"

definition counter_delta :: "u64 \<Rightarrow> u64 \<Rightarrow> u64" where
  "counter_delta current previous = (if current < previous then 0 else current - previous)"

definition sorted_keys :: "(string, 'v) amap \<Rightarrow> string list" where
  "sorted_keys m = sort (map fst m)"

text \<open>A key that is not in the map reads as the zero value.\<close>

definition no_disk :: disk_counters where
  "no_disk = \<lparr>dc_read_ios = 0, dc_read_sectors = 0, dc_write_ios = 0, dc_write_sectors = 0\<rparr>"

definition no_network :: network_counters where
  "no_network = \<lparr>nc_receive_bytes = 0, nc_receive_packets = 0, nc_transmit_bytes = 0, nc_transmit_packets = 0\<rparr>"

definition disk_rates :: "float64 \<Rightarrow> string \<Rightarrow> disk_counters \<Rightarrow> disk_counters \<Rightarrow> disk_io" where
  "disk_rates elapsed name before v =
     \<lparr>dio_device = name, dio_read_bytes = dc_read_sectors v * disk_sector_bytes,
      dio_write_bytes = dc_write_sectors v * disk_sector_bytes,
      dio_read_operations = dc_read_ios v, dio_write_operations = dc_write_ios v,
      dio_read_bytes_per_second =
        fdiv (float_of_u64 (counter_delta (dc_read_sectors v) (dc_read_sectors before) * disk_sector_bytes)) elapsed,
      dio_write_bytes_per_second =
        fdiv (float_of_u64 (counter_delta (dc_write_sectors v) (dc_write_sectors before) * disk_sector_bytes)) elapsed,
      dio_read_ops_per_second = fdiv (float_of_u64 (counter_delta (dc_read_ios v) (dc_read_ios before))) elapsed,
      dio_write_ops_per_second = fdiv (float_of_u64 (counter_delta (dc_write_ios v) (dc_write_ios before))) elapsed\<rparr>"

definition calculate_disk_io :: "(string, disk_counters) amap \<Rightarrow> (string, disk_counters) amap \<Rightarrow> float64 \<Rightarrow> disk_io list" where
  "calculate_disk_io previous current elapsed0 =
     (let elapsed = (if fle elapsed0 (Fin 0) then Fin 1 else elapsed0) in
      map (\<lambda>name. disk_rates elapsed name
          (case amap_get previous name of None \<Rightarrow> no_disk | Some b \<Rightarrow> b)
          (case amap_get current name of None \<Rightarrow> no_disk | Some v \<Rightarrow> v))
        (take MaxDiskDevices (sorted_keys current)))"

definition network_rates :: "float64 \<Rightarrow> string \<Rightarrow> network_counters \<Rightarrow> network_counters \<Rightarrow> network_io" where
  "network_rates elapsed name before v =
     \<lparr>nio_interface = name, nio_receive_bytes = nc_receive_bytes v, nio_transmit_bytes = nc_transmit_bytes v,
      nio_receive_packets = nc_receive_packets v, nio_transmit_packets = nc_transmit_packets v,
      nio_receive_bytes_rate =
        fdiv (float_of_u64 (counter_delta (nc_receive_bytes v) (nc_receive_bytes before))) elapsed,
      nio_transmit_bytes_rate =
        fdiv (float_of_u64 (counter_delta (nc_transmit_bytes v) (nc_transmit_bytes before))) elapsed,
      nio_receive_packet_rate =
        fdiv (float_of_u64 (counter_delta (nc_receive_packets v) (nc_receive_packets before))) elapsed,
      nio_transmit_packet_rate =
        fdiv (float_of_u64 (counter_delta (nc_transmit_packets v) (nc_transmit_packets before))) elapsed\<rparr>"

definition calculate_network_io :: "(string, network_counters) amap \<Rightarrow> (string, network_counters) amap \<Rightarrow> float64 \<Rightarrow>
    network_io list" where
  "calculate_network_io previous current elapsed0 =
     (let elapsed = (if fle elapsed0 (Fin 0) then Fin 1 else elapsed0) in
      map (\<lambda>name. network_rates elapsed name
          (case amap_get previous name of None \<Rightarrow> no_network | Some b \<Rightarrow> b)
          (case amap_get current name of None \<Rightarrow> no_network | Some v \<Rightarrow> v))
        (take MaxInterfaces (sorted_keys current)))"

subsection \<open>Mount points\<close>

text \<open>\<open>unescapeMount\<close>: the replacer turns the four octal escapes of the kernel back into bytes, from left to
  right and without looking at its own output again.\<close>

fun unescape_mount :: "string \<Rightarrow> string" where
  "unescape_mount [] = []"
| "unescape_mount (c # cs) =
     (if has_prefix (c # cs) (CHR 0x5C # ''040'') then CHR '' '' # unescape_mount (drop 3 cs)
      else if has_prefix (c # cs) (CHR 0x5C # ''011'') then CHR 0x09 # unescape_mount (drop 3 cs)
      else if has_prefix (c # cs) (CHR 0x5C # ''012'') then CHR 0x0A # unescape_mount (drop 3 cs)
      else if has_prefix (c # cs) (CHR 0x5C # ''134'') then CHR 0x5C # unescape_mount (drop 3 cs)
      else c # unescape_mount cs)"

text \<open>The kernel's side, as \<open>proc(5)\<close> describes it: space, tab, newline and backslash are written as
  octal escapes.\<close>

fun mangle :: "string \<Rightarrow> string" where
  "mangle [] = []"
| "mangle (c # cs) =
     (if c = CHR '' '' then CHR 0x5C # ''040''
      else if c = CHR 0x09 then CHR 0x5C # ''011''
      else if c = CHR 0x0A then CHR 0x5C # ''012''
      else if c = CHR 0x5C then CHR 0x5C # ''134'' else [c]) @ mangle cs"

subsection \<open>Rounded quotients\<close>

lemma rnd_pos_le:
  assumes "0 < q"
  shows "rnd_pos q \<le> 2 * q + 1"
proof -
  obtain e where e: "fexp q = max (-1074) e" "pow2 (52 + e) \<le> q" "q < pow2 (53 + e)"
    using fexp_bounds [OF assms] .
  have "pow2 e \<le> q" using pow2_mono [of e "52 + e"] e(2) by simp
  moreover have "pow2 (-1074) \<le> 1" using pow2_mono [of "-1074" 0] by (simp add: pow2_def [of 0])
  ultimately have p: "pow2 (fexp q) \<le> q + 1" using e(1) assms by (auto simp: max_def)
  have "of_int (rne (q / pow2 (fexp q))) \<le> q / pow2 (fexp q) + 1/2"
    using rne_error [of "q / pow2 (fexp q)"] by linarith
  then have "rnd_pos q \<le> (q / pow2 (fexp q) + 1/2) * pow2 (fexp q)"
    unfolding rnd_pos_def by (rule mult_right_mono) simp
  also have "\<dots> = q + pow2 (fexp q) / 2" by (simp add: field_simps)
  finally show ?thesis using p assms by linarith
qed

lemma big_pow2: "(2::rat) ^ 210 \<le> pow2 1024"
  using pow2_mono [of 210 1024] by (simp add: pow2_def [of 210])

text \<open>Everything below \<open>2 ^ 200\<close> rounds to a number, and with a small relative error in the normal range.\<close>

lemma fl_small:
  assumes "0 \<le> q" and "q \<le> 2 ^ 200"
  shows "\<exists>r. fl q = Fin r \<and> 0 \<le> r \<and> r \<le> 2 * q + 1"
proof (cases "q = 0")
  case False
  then have q: "0 < q" using assms(1) by simp
  have r: "rnd_pos q \<le> 2 * q + 1" by (rule rnd_pos_le [OF q])
  also have "\<dots> < 2 ^ 210" using assms(2) by simp
  finally have "\<not> pow2 1024 \<le> rnd_pos q" using big_pow2 by simp
  then show ?thesis using q r rnd_pos_nonneg [of q] by (simp add: fl_def)
qed (simp add: fl_def)

lemma fl_close:
  assumes "pow2 (-1022) \<le> q" and "q \<le> 2 ^ 200"
  shows "\<exists>r. fl q = Fin r \<and> \<bar>r - q\<bar> \<le> q * pow2 (-53)"
proof -
  have q: "0 < q" using assms(1) pow2_pos [of "-1022"] by linarith
  then obtain r where r: "fl q = Fin r" using fl_small [of q] assms(2) by auto
  then have "r = rnd_pos q" using q by (auto simp: fl_def Let_def split: if_splits)
  then show ?thesis using r rnd_pos_error [OF assms(1)] by simp
qed

lemma fl_not_nan [simp]: "fl q \<noteq> NaN"
  by (simp add: fl_def Let_def)

lemma uint_pos: "w \<noteq> (0 :: u64) \<Longrightarrow> 0 < uint w"
  by (metis less_le uint_ge_0 unsigned_0 word_uint_eqI)

lemma float_of_u64_range: "\<exists>r. float_of_u64 w = Fin r \<and> 0 \<le> r \<and> r \<le> 2 ^ 66"
proof -
  have w: "0 \<le> uint w" "uint w < 2 ^ 64" using uint_lt2p [of w] by simp_all
  then have "(of_int (uint w) :: rat) < of_int (2 ^ 64)" by (simp only: of_int_less_iff)
  then have q: "(0::rat) \<le> of_int (uint w)" "(of_int (uint w) :: rat) < 2 ^ 64" using w by (simp_all del: of_int_uint)
  then have "(of_int (uint w) :: rat) \<le> 2 ^ 200" by simp
  then obtain r where "fl (of_int (uint w)) = Fin r" "0 \<le> r" "r \<le> 2 * of_int (uint w) + 1"
    using fl_small q(1) by blast
  moreover have "(2 * 2 ^ 64 + 1 :: rat) \<le> 2 ^ 66" by simp
  ultimately show ?thesis using q by (auto simp: float_of_u64_def)
qed

lemma float_of_u64_close:
  assumes "w \<noteq> 0"
  shows "\<exists>r. float_of_u64 w = Fin r \<and> \<bar>r - of_int (uint w)\<bar> \<le> of_int (uint w) * pow2 (-53)"
proof -
  have "0 < uint w" by (rule uint_pos [OF assms])
  then have "1 \<le> uint w" by simp
  then have one: "(1::rat) \<le> of_int (uint w)" by (simp del: of_int_uint)
  have "uint w < 2 ^ 64" using uint_lt2p [of w] by simp
  then have "(of_int (uint w) :: rat) < of_int (2 ^ 64)" by (simp only: of_int_less_iff)
  then have "(of_int (uint w) :: rat) \<le> 2 ^ 200" by simp
  moreover have "pow2 (-1022) \<le> of_int (uint w)" using one pow2_mono [of "-1022" 0] by (simp add: pow2_def [of 0])
  ultimately show ?thesis unfolding float_of_u64_def by (intro fl_close)
qed

lemma clamp_range: "v \<noteq> NaN \<Longrightarrow> \<exists>r. clamp_percent v = Fin r \<and> 0 \<le> r \<and> r \<le> 100"
  by (cases v) (auto simp: clamp_percent_def)

text \<open>The quotient both percentages are computed from.\<close>

lemma ratio_not_nan:
  assumes "b \<noteq> 0"
  shows "fdiv (fmul (float_of_u64 a) (Fin 100)) (float_of_u64 b) \<noteq> NaN"
proof -
  obtain x where x: "float_of_u64 a = Fin x" "0 \<le> x" using float_of_u64_range by blast
  obtain t where t: "float_of_u64 b = Fin t" "\<bar>t - of_int (uint b)\<bar> \<le> of_int (uint b) * pow2 (-53)"
    using float_of_u64_close [OF assms] by blast
  have "0 < uint b" by (rule uint_pos [OF assms])
  then have "(0::rat) < of_int (uint b)" by (simp del: of_int_uint)
  moreover have "of_int (uint b) * pow2 (-53) < of_int (uint b)" using calculation by (simp add: pow2_def)
  ultimately have "0 < t" using t(2) unfolding abs_le_iff by linarith
  then show ?thesis using x t(1) by (cases "fl (x * 100)") (auto simp: inf_of_sign_def)
qed

lemma percent_range: "\<exists>r. percent a b = Fin r \<and> 0 \<le> r \<and> r \<le> 100"
  using clamp_range [OF ratio_not_nan] by (auto simp: percent_def)

lemma cpu_percent_range: "\<exists>r. cpu_percent a b = Fin r \<and> 0 \<le> r \<and> r \<le> 100"
  using clamp_range [OF ratio_not_nan] by (auto simp: cpu_percent_def Let_def)

lemma rate_valid:
  assumes "1 \<le> e"
  shows "valid_rate (fdiv (float_of_u64 w) (Fin e))"
proof -
  obtain x where x: "float_of_u64 w = Fin x" "0 \<le> x" "x \<le> 2 ^ 66" using float_of_u64_range by blast
  have "0 \<le> x / e" "x / e \<le> x" using x(2) assms by (simp_all add: divide_le_eq mult_left_le mult_le_cancel_left1)
  moreover have "x \<le> 2 ^ 200" using x(3) by simp
  ultimately obtain r where "fl (x / e) = Fin r" "0 \<le> r" using fl_small [of "x / e"] by force
  then show ?thesis using x(1) assms by (simp add: valid_rate_iff)
qed

text \<open>With four roundings the percentage is within \<open>2 ^ -50\<close> of the exact one.\<close>

lemma close_bounds: "\<bar>r - q\<bar> \<le> q * u \<Longrightarrow> q * (1 - u) \<le> (r::rat) \<and> r \<le> q * (1 + u)"
  by (simp add: abs_le_iff algebra_simps)

lemma ratio_close:
  assumes "a \<noteq> 0" and "b \<noteq> 0"
  defines "q \<equiv> 100 * of_int (uint a) / of_int (uint b)"
  shows "\<exists>r. fdiv (fmul (float_of_u64 a) (Fin 100)) (float_of_u64 b) = Fin r \<and> \<bar>r - q\<bar> \<le> q / 2 ^ 50"
proof -
  let ?u = "pow2 (-53)"
  define A B :: rat where "A = of_int (uint a)" and "B = of_int (uint b)"
  have u: "?u = 1 / 2 ^ 53" by (simp add: pow2_def)
  have pos: "1 \<le> A" "A \<le> 2 ^ 64" if "A = of_int (uint w)" "w \<noteq> 0" for A :: rat and w :: u64
  proof -
    have "1 \<le> uint w" "uint w \<le> 2 ^ 64" using uint_pos [OF that(2)] uint_lt2p [of w] by simp_all
    then have "of_int 1 \<le> (of_int (uint w) :: rat)" "(of_int (uint w) :: rat) \<le> of_int (2 ^ 64)" by (simp_all only: of_int_le_iff)
    then show "1 \<le> A" "A \<le> 2 ^ 64" using that(1) by (simp_all del: of_int_uint)
  qed
  note A = pos [OF A_def assms(1)] and B = pos [OF B_def assms(2)]
  obtain x where x: "float_of_u64 a = Fin x" "A * (1 - ?u) \<le> x" "x \<le> A * (1 + ?u)"
    using float_of_u64_close [OF assms(1)] close_bounds unfolding A_def by blast
  obtain t where t: "float_of_u64 b = Fin t" "B * (1 - ?u) \<le> t" "t \<le> B * (1 + ?u)"
    using float_of_u64_close [OF assms(2)] close_bounds unfolding B_def by blast
  have x1: "1/2 \<le> x" "x \<le> 2 ^ 65" using x A unfolding u by simp_all
  have t1: "1/2 \<le> t" "t \<le> 2 ^ 65" using t B unfolding u by simp_all
  have tiny: "pow2 (-1022) \<le> 1 / 2 ^ 70" using pow2_mono [of "-1022" "-70"] by (simp add: pow2_def [of "-70"])
  have "pow2 (-1022) \<le> x * 100" "x * 100 \<le> 2 ^ 200" using x1 tiny by (simp_all add: order_trans [OF tiny])
  then obtain y where y: "fl (x * 100) = Fin y" "x * 100 * (1 - ?u) \<le> y" "y \<le> x * 100 * (1 + ?u)"
    using fl_close [of "x * 100"] close_bounds by blast
  have y1: "1 \<le> y" "y \<le> 2 ^ 80" using y x1 unfolding u by simp_all
  have "1 / 2 ^ 70 \<le> y / t" "y / t \<le> 2 ^ 200"
    using y1 t1 by (simp_all add: le_divide_eq divide_le_eq)
  then obtain z where z: "fl (y / t) = Fin z" "y / t * (1 - ?u) \<le> z" "z \<le> y / t * (1 + ?u)"
    using fl_close [of "y / t"] close_bounds tiny by (meson order_trans)
  have yA: "100 * (1 - ?u) ^ 2 * A \<le> y" "y \<le> 100 * (1 + ?u) ^ 2 * A"
    using x y unfolding u by (simp_all add: power2_eq_square)
  have "y / t \<le> (100 * (1 + ?u) ^ 2 * A) / (B * (1 - ?u))" "(100 * (1 - ?u) ^ 2 * A) / (B * (1 + ?u)) \<le> y / t"
    using yA t t1 y1 A B unfolding u by (intro frac_le; simp)+
  then have r: "y / t \<le> q * ((1 + ?u) ^ 2 / (1 - ?u))" "q * ((1 - ?u) ^ 2 / (1 + ?u)) \<le> y / t"
    unfolding q_def A_def [symmetric] B_def [symmetric] by (simp_all add: mult.commute)
  have q0: "0 \<le> q" using A B unfolding q_def A_def [symmetric] B_def [symmetric] by simp
  have "z \<le> q * ((1 + ?u) ^ 2 / (1 - ?u)) * (1 + ?u)"
    by (rule order_trans [OF z(3) mult_right_mono [OF r(1)]]) (simp add: u)
  also have "\<dots> = q * ((1 + ?u) ^ 2 / (1 - ?u) * (1 + ?u))" by (simp only: mult.assoc)
  also have "\<dots> \<le> q * (1 + 1 / 2 ^ 50)" by (rule mult_left_mono [OF _ q0]) (simp add: u power2_eq_square)
  finally have up: "z \<le> q * (1 + 1 / 2 ^ 50)" .
  have "q * (1 - 1 / 2 ^ 50) \<le> q * ((1 - ?u) ^ 2 / (1 + ?u) * (1 - ?u))"
    by (rule mult_left_mono [OF _ q0]) (simp add: u power2_eq_square)
  also have "\<dots> = q * ((1 - ?u) ^ 2 / (1 + ?u)) * (1 - ?u)" by (simp only: mult.assoc)
  also have "\<dots> \<le> z"
    by (rule order_trans [OF mult_right_mono [OF r(2)] z(2)]) (simp add: u)
  finally have "\<bar>z - q\<bar> \<le> q / 2 ^ 50" using up by (intro abs_leI) (simp_all add: right_diff_distrib distrib_left)
  then show ?thesis using x(1) t(1) y(1) z(1) t1 by simp
qed

lemma clamp_close:
  assumes "v = Fin r" and "\<bar>r - q\<bar> \<le> e" and "0 \<le> q" and "q \<le> 100"
  shows "\<exists>s. clamp_percent v = Fin s \<and> \<bar>s - q\<bar> \<le> e"
  using assms by (auto simp: clamp_percent_def abs_le_iff)

lemma clamped_ratio_close:
  assumes "a \<le> b" and "b \<noteq> 0"
  shows "\<exists>r. clamp_percent (fdiv (fmul (float_of_u64 a) (Fin 100)) (float_of_u64 b)) = Fin r \<and>
    \<bar>r - 100 * of_int (uint a) / of_int (uint b)\<bar> \<le> 100 * of_int (uint a) / of_int (uint b) / 2 ^ 50"
proof (cases "a = 0")
  case True
  obtain t where "float_of_u64 b = Fin t" using float_of_u64_range by blast
  moreover have "fdiv (fmul (float_of_u64 0) (Fin 100)) (float_of_u64 b) \<noteq> NaN" by (rule ratio_not_nan [OF assms(2)])
  ultimately have "fdiv (fmul (float_of_u64 0) (Fin 100)) (float_of_u64 b) = Fin 0"
    by (auto simp: float_of_u64_def fl_def inf_of_sign_def)
  then show ?thesis using True by (simp add: clamp_percent_def)
next
  case False
  have "uint a \<le> uint b" using assms(1) by (simp add: word_le_def)
  then have ab: "(of_int (uint a) :: rat) \<le> of_int (uint b)" by (simp only: of_int_le_iff)
  have "0 < uint b" "0 \<le> uint a" using uint_pos [OF assms(2)] by simp_all
  then have "(0 :: rat) < of_int (uint b)" "(0 :: rat) \<le> of_int (uint a)" by (simp_all del: of_int_uint)
  then have "0 \<le> 100 * of_int (uint a) / (of_int (uint b) :: rat)" "100 * of_int (uint a) / (of_int (uint b) :: rat) \<le> 100"
    using ab by (simp_all del: of_int_uint add: divide_le_eq)
  then show ?thesis using ratio_close [OF False assms(2)] clamp_close by blast
qed



lemma unescape_mangle: "unescape_mount (mangle s) = s"
  by (induction s) (auto simp: has_prefix_def numeral_eq_Suc)

end
