(* ===== verification/GoPath.thy ===== *)
theory GoPath
  imports GoText
begin

text \<open>
  The functions of Go's \<open>path/filepath\<close> the program uses, on Unix paths.  They are purely lexical.  A cleaned
  path is kept as its elements: \<open>(True, es)\<close> is the absolute path with the elements \<open>es\<close>, \<open>(False, es)\<close> the
  relative one, and the empty list is \<open>/\<close> or \<open>.\<close>.
\<close>

type_synonym path = "bool \<times> string list"

definition rooted :: "string \<Rightarrow> bool" where
  "rooted p \<longleftrightarrow> has_prefix p ''/''"

text \<open>The elements between slashes, without the empty ones and \<open>.\<close>; the first argument collects an element
  in reverse.\<close>

definition add_elem :: "string \<Rightarrow> string list \<Rightarrow> string list" where
  "add_elem cur es = (if rev cur = [] \<or> rev cur = ''.'' then es else rev cur # es)"

fun elems_from :: "string \<Rightarrow> string \<Rightarrow> string list" where
  "elems_from cur [] = add_elem cur []"
| "elems_from cur (c # cs) = (if c = CHR ''/'' then add_elem cur (elems_from [] cs) else elems_from (c # cur) cs)"

text \<open>\<open>filepath.Clean\<close>: the second argument is the cleaned part in reverse.\<close>

fun clean_elems :: "bool \<Rightarrow> string list \<Rightarrow> string list \<Rightarrow> string list" where
  "clean_elems r out [] = rev out"
| "clean_elems r out (e # es) =
     (if e = ''..'' then
        (case out of
           o' # os \<Rightarrow> if o' \<noteq> ''..'' then clean_elems r os es else clean_elems r (''..'' # out) es
         | [] \<Rightarrow> if r then clean_elems r [] es else clean_elems r [''..''] es)
      else clean_elems r (e # out) es)"

definition clean_path :: "string \<Rightarrow> path" where
  "clean_path p = (rooted p, clean_elems (rooted p) [] (elems_from [] p))"

fun slashed :: "string list \<Rightarrow> string" where
  "slashed [] = []"
| "slashed [e] = e"
| "slashed (e # es) = e @ ''/'' @ slashed es"

definition path_text :: "path \<Rightarrow> string" where
  "path_text p = (case p of (r, es) \<Rightarrow> if r then ''/'' @ slashed es else if es = [] then ''.'' else slashed es)"

text \<open>\<open>filepath.Join\<close> of two parts, the first of them not empty.\<close>

definition path_join :: "string \<Rightarrow> string \<Rightarrow> path" where
  "path_join base elem = clean_path (base @ ''/'' @ elem)"

text \<open>\<open>filepath.Rel\<close>, as the elements of its result.\<close>

fun strip_common :: "string list \<Rightarrow> string list \<Rightarrow> string list \<times> string list" where
  "strip_common (b # bs) (t # ts) = (if b = t then strip_common bs ts else (b # bs, t # ts))"
| "strip_common bs ts = (bs, ts)"

definition rel_elems :: "path \<Rightarrow> path \<Rightarrow> string list option" where
  "rel_elems base targ =
     (if base = targ then Some [''.'']
      else if fst base \<noteq> fst targ then None
      else case strip_common (snd base) (snd targ) of
          ([], ts) \<Rightarrow> Some ts
        | (b # bs, ts) \<Rightarrow> if b = ''..'' then None else Some (replicate (length (b # bs)) ''..'' @ ts))"

lemma elems_not_empty: "e \<in> set (elems_from cur s) \<Longrightarrow> e \<noteq> [] \<and> e \<noteq> ''.''"
  by (induction cur s rule: elems_from.induct) (auto simp: add_elem_def split: if_splits)

lemma elems_no_slash: "CHR ''/'' \<notin> set cur \<Longrightarrow> e \<in> set (elems_from cur s) \<Longrightarrow> CHR ''/'' \<notin> set e"
  by (induction cur s rule: elems_from.induct) (auto simp: add_elem_def split: if_splits)

text \<open>A cleaned absolute path has no element \<open>..\<close>.\<close>

lemma clean_no_dotdot: "''..'' \<notin> set out \<Longrightarrow> ''..'' \<notin> set (clean_elems True out es)"
  by (induction "True" out es rule: clean_elems.induct) (auto split: list.splits if_splits)

lemma strip_common_spec: "strip_common bs ts = (b', t') \<Longrightarrow> \<exists>common. bs = common @ b' \<and> ts = common @ t'"
proof (induction bs ts rule: strip_common.induct)
  case (1 b bs t ts)
  then show ?case by (auto split: if_splits)
qed auto

lemma rel_inside:
  assumes "rel_elems base targ = Some es" and "es \<noteq> []" and "hd es \<noteq> ''..''"
  shows "fst targ = fst base \<and> (\<exists>inner. snd targ = snd base @ inner)"
proof (cases "base = targ")
  case False
  obtain b' t' where s: "strip_common (snd base) (snd targ) = (b', t')" by force
  have b: "b' = []" using assms False s by (cases b') (auto simp: rel_elems_def split: if_splits)
  then show ?thesis using strip_common_spec [OF s] assms(1) False by (auto simp: rel_elems_def split: if_splits)
qed auto

lemma rel_not_empty: "rel_elems base targ = Some es \<Longrightarrow> es \<noteq> []"
proof (cases "base = targ")
  case False
  assume es: "rel_elems base targ = Some es"
  obtain b' t' where s: "strip_common (snd base) (snd targ) = (b', t')" by force
  have "b' \<noteq> [] \<or> t' \<noteq> []" using strip_common_spec [OF s] False es
    by (auto simp: rel_elems_def prod_eq_iff split: if_splits)
  then show ?thesis using es False s by (cases b') (auto simp: rel_elems_def split: if_splits)
qed (auto simp: rel_elems_def)

end
