(* ===== verification/Collector.thy ===== *)
theory Collector
  imports Collector_Parse GoPath
begin

text \<open>
  The metrics collector on Linux (\<open>internal/collector/collector_linux.go\<close>): its state between two
  collections, \<open>NewWithPaths\<close>, \<open>Collect\<close> and the readers they call.  What the kernel answers is an
  input (\<open>readings\<close>): \<open>None\<close> for a file that cannot be opened or read.  The mutex makes a collection one
  step.  Where Go leaves a conversion of a \<open>float64\<close> out of range to the machine, the machine's
  result is the argument \<open>conversions\<close>.
\<close>

record paths =
  pa_proc_root :: string
  pa_sys_root :: string
  pa_host_root :: string
  pa_mountinfo_path :: string

record collector =
  co_previous_cpu :: cpu_times
  co_previous_disk :: "(string, disk_counters) amap"
  co_previous_network :: "(string, network_counters) amap"
  co_previous_at :: gotime
  co_fs_types :: "string list"
  co_paths :: paths

text \<open>\<open>unix.Statfs_t\<close>, as far as it is read; the block size is signed in C and converted to \<open>uint64\<close>.\<close>

record statfs =
  sf_blocks :: u64
  sf_bfree :: u64
  sf_bavail :: u64
  sf_bsize :: u64

record readings =
  rd_stat :: "input option"
  rd_diskstats :: "input option"
  rd_net_dev :: "input option"
  rd_not_partition :: "string \<Rightarrow> bool"
  rd_now :: gotime
  rd_meminfo :: "input option"
  rd_meminfo_close :: bool
  rd_uptime :: "string option"
  rd_loadavg :: "string option"
  rd_mountinfo :: "input option"
  rd_error_met :: bool
  rd_statfs :: "string \<Rightarrow> statfs option"
  rd_hostname :: "string option"
  rd_uname :: "string option"

record conversions =
  cv_u64 :: "float64 \<Rightarrow> u64"
  cv_i64 :: "float64 \<Rightarrow> int"

subsection \<open>Counters\<close>

definition read_cpu :: "readings \<Rightarrow> collect_error + cpu_times" where
  "read_cpu k = (case rd_stat k of None \<Rightarrow> Inl OpenFailed | Some f \<Rightarrow> parse_cpu f)"

text \<open>Loop, RAM and floppy devices and partitions are left out; only an error that says so makes a device
  known not to be a partition.\<close>

definition track_block_device :: "readings \<Rightarrow> string \<Rightarrow> bool" where
  "track_block_device k name \<longleftrightarrow>
     \<not> has_prefix name ''loop'' \<and> \<not> has_prefix name ''ram'' \<and> \<not> has_prefix name ''fd'' \<and> rd_not_partition k name"

definition read_disk_counters :: "readings \<Rightarrow> collect_error + (string, disk_counters) amap" where
  "read_disk_counters k =
     (case rd_diskstats k of
        None \<Rightarrow> Inl OpenFailed
      | Some f \<Rightarrow>
          (case parse_disk_stats f of
             Inl e \<Rightarrow> Inl e
           | Inr values \<Rightarrow> Inr (filter (\<lambda>(name, _). track_block_device k name) values)))"

definition read_network_counters :: "readings \<Rightarrow> collect_error + (string, network_counters) amap" where
  "read_network_counters k = (case rd_net_dev k of None \<Rightarrow> Inl OpenFailed | Some f \<Rightarrow> parse_network_stats f)"

subsection \<open>Uptime and load\<close>

definition read_uptime :: "readings \<Rightarrow> collect_error + float64" where
  "read_uptime k =
     (case rd_uptime k of
        None \<Rightarrow> Inl OpenFailed
      | Some data \<Rightarrow>
          (case GoText.fields data of
             [] \<Rightarrow> Inl BadUptime
           | f # _ \<Rightarrow> (case parse_float f of None \<Rightarrow> Inl BadUptime | Some v \<Rightarrow> Inr v)))"

definition read_load :: "readings \<Rightarrow> collect_error + float64 \<times> float64 \<times> float64" where
  "read_load k =
     (case rd_loadavg k of
        None \<Rightarrow> Inl OpenFailed
      | Some data \<Rightarrow>
          (let fs = GoText.fields data in
           if length fs < 3 then Inl BadLoad
           else (case (parse_float (fs ! 0), parse_float (fs ! 1), parse_float (fs ! 2)) of
               (Some a, Some b, Some c) \<Rightarrow> Inr (a, b, c)
             | _ \<Rightarrow> Inl BadLoad)))"

subsection \<open>File systems\<close>

text \<open>The path \<open>Statfs\<close> is called with; \<open>None\<close> where it would leave the root of the host.\<close>

definition stat_target :: "string \<Rightarrow> string \<Rightarrow> string option" where
  "stat_target host_root mountpoint =
     (if host_root = ''/'' then Some mountpoint
      else
        (let target = path_join host_root (trim_prefix mountpoint ''/'') in
         case rel_elems (clean_path host_root) target of
           None \<Rightarrow> None
         | Some relative \<Rightarrow> if hd relative = ''..'' then None else Some (path_text target)))"

definition ignored_fs_types :: "string list" where
  "ignored_fs_types = [''proc'', ''sysfs'', ''devtmpfs'', ''devpts'', ''tmpfs'', ''cgroup'', ''cgroup2'',
     ''securityfs'', ''pstore'', ''debugfs'', ''tracefs'', ''configfs'', ''fusectl'',
     ''mqueue'', ''hugetlbfs'', ''autofs'', ''binfmt_misc'']"

definition include_filesystem :: "string list \<Rightarrow> string \<Rightarrow> bool" where
  "include_filesystem fs_types kind =
     (if kind = ''squashfs'' then False
      else if fs_types \<noteq> [] then kind \<in> set fs_types
      else kind \<notin> set ignored_fs_types)"

text \<open>A line of \<open>mountinfo\<close>: mount point, type and device, when the line has the separator and the fields
  around it.\<close>

definition mount_line :: "string \<Rightarrow> (string \<times> string \<times> string) option" where
  "mount_line line =
     (let fs = GoText.fields line; before = length (takeWhile (\<lambda>f. f \<noteq> ''-'') fs) in
      if before = length fs \<or> length fs \<le> before + 2 \<or> length fs < 6 then None
      else Some (unescape_mount (fs ! 4), fs ! (before + 1), unescape_mount (fs ! (before + 2))))"

definition filesystem_of :: "statfs \<Rightarrow> string \<Rightarrow> string \<Rightarrow> string \<Rightarrow> filesystem" where
  "filesystem_of st mountpoint device fstype =
     (let whole = sf_blocks st * sf_bsize st; used = (sf_blocks st - sf_bfree st) * sf_bsize st in
      \<lparr>fs_mountpoint = mountpoint, fs_device = device, fs_type = fstype, fs_total_bytes = whole,
       fs_used_bytes = used, fs_avail_bytes = sf_bavail st * sf_bsize st, fs_used_percent = percent used whole\<rparr>)"

text \<open>The loop: \<open>seen\<close> holds the mount points met, also those whose \<open>Statfs\<close> failed; \<open>acc\<close> the result in
  reverse.  The second result tells whether the loop was left early, with a full list.\<close>

fun mount_lines :: "collector \<Rightarrow> readings \<Rightarrow> string list \<Rightarrow> string list \<Rightarrow> filesystem list \<Rightarrow> filesystem list \<times> bool" where
  "mount_lines c k seen [] acc = (rev acc, False)"
| "mount_lines c k seen (line # ls) acc =
     (case mount_line line of
        None \<Rightarrow> mount_lines c k seen ls acc
      | Some (mountpoint, fstype, device) \<Rightarrow>
          if mountpoint \<in> set seen \<or> \<not> include_filesystem (co_fs_types c) fstype then mount_lines c k seen ls acc
          else
            (case stat_target (pa_host_root (co_paths c)) mountpoint of
               None \<Rightarrow> mount_lines c k (mountpoint # seen) ls acc
             | Some target \<Rightarrow>
                 (case rd_statfs k target of
                    None \<Rightarrow> mount_lines c k (mountpoint # seen) ls acc
                  | Some st \<Rightarrow>
                      (let acc1 = filesystem_of st mountpoint device fstype # acc in
                       if length acc1 = MaxFilesystems then (rev acc1, True)
                       else mount_lines c k (mountpoint # seen) ls acc1))))"

text \<open>After an early exit \<open>scanner.Err()\<close> only knows of a read error its buffer has met already
  (\<open>rd_error_met\<close>), and of no line that is too long.\<close>

definition read_filesystems :: "readings \<Rightarrow> collector \<Rightarrow> collect_error + filesystem list" where
  "read_filesystems k c =
     (case rd_mountinfo k of
        None \<Rightarrow> Inl OpenFailed
      | Some f \<Rightarrow>
          (case scan_input f of (ls, failed) \<Rightarrow>
             (case mount_lines c k [] ls [] of (result, early) \<Rightarrow>
                if (if early then in_broken f \<and> rd_error_met k else failed) then Inl ScanFailed
                else Inr result)))"

subsection \<open>Host\<close>

definition kernel_version :: "readings \<Rightarrow> string" where
  "kernel_version k = (case rd_uname k of None \<Rightarrow> ''unknown'' | Some release \<Rightarrow> takeWhile (\<lambda>c. c \<noteq> CHR 0x00) release)"

text \<open>\<open>uint64(f)\<close> and \<open>time.Duration(f)\<close>.\<close>

definition u64_of_float :: "conversions \<Rightarrow> float64 \<Rightarrow> u64" where
  "u64_of_float cv v =
     (case v of
        Fin q \<Rightarrow> (let n = (if 0 \<le> q then \<lfloor>q\<rfloor> else \<lceil>q\<rceil>) in if 0 \<le> n \<and> n < 2 ^ 64 then of_int n else cv_u64 cv v)
      | _ \<Rightarrow> cv_u64 cv v)"

definition i64_of_float :: "conversions \<Rightarrow> float64 \<Rightarrow> int" where
  "i64_of_float cv v = (case int_of_float v of Some n \<Rightarrow> n | None \<Rightarrow> cv_i64 cv v)"

text \<open>A duration is an \<open>int64\<close>: a product that does not fit wraps.\<close>

definition wrap64 :: "int \<Rightarrow> int" where
  "wrap64 n = sint (word_of_int n :: 64 word)"

subsection \<open>The collector\<close>

definition new_with_paths :: "string list \<Rightarrow> paths \<Rightarrow> readings \<Rightarrow> collect_error + collector" where
  "new_with_paths include_fs_types p0 k =
     (let p1 = (if pa_proc_root p0 = [] then p0\<lparr>pa_proc_root := ''/proc''\<rparr> else p0);
          p2 = (if pa_sys_root p1 = [] then p1\<lparr>pa_sys_root := ''/sys''\<rparr> else p1);
          p3 = (if pa_host_root p2 = [] then p2\<lparr>pa_host_root := ''/''\<rparr> else p2);
          p = (if pa_mountinfo_path p3 = []
               then p3\<lparr>pa_mountinfo_path := path_text (path_join (pa_proc_root p3) ''self/mountinfo'')\<rparr> else p3) in
      case read_cpu k of
        Inl e \<Rightarrow> Inl e
      | Inr cpu \<Rightarrow>
          (case read_disk_counters k of
             Inl e \<Rightarrow> Inl e
           | Inr disk \<Rightarrow>
               (case read_network_counters k of
                  Inl e \<Rightarrow> Inl e
                | Inr network \<Rightarrow>
                    Inr \<lparr>co_previous_cpu = cpu, co_previous_disk = disk, co_previous_network = network,
                      co_previous_at = rd_now k, co_fs_types = include_fs_types, co_paths = p\<rparr>)))"

definition read_memory :: "readings \<Rightarrow> collect_error + memory" where
  "read_memory k =
     (case rd_meminfo k of
        None \<Rightarrow> Inl OpenFailed
      | Some f \<Rightarrow>
          (case parse_memory f of
             Inl e \<Rightarrow> Inl e
           | Inr m \<Rightarrow> if rd_meminfo_close k then Inr m else Inl CloseFailed))"

text \<open>The part of \<open>Collect\<close> that reads the counters and the clock, and the rest of the host's state.\<close>

definition read_counters :: "readings \<Rightarrow>
    collect_error + cpu_times \<times> (string, disk_counters) amap \<times> (string, network_counters) amap" where
  "read_counters k =
     (case read_cpu k of
        Inl e \<Rightarrow> Inl e
      | Inr cpu \<Rightarrow>
          (case read_disk_counters k of
             Inl e \<Rightarrow> Inl e
           | Inr disk \<Rightarrow>
               (case read_network_counters k of
                  Inl e \<Rightarrow> Inl e
                | Inr network \<Rightarrow> Inr (cpu, disk, network))))"

definition read_host :: "readings \<Rightarrow> collector \<Rightarrow>
    collect_error + memory \<times> float64 \<times> (float64 \<times> float64 \<times> float64) \<times> filesystem list \<times> string" where
  "read_host k c =
     (case read_memory k of
        Inl e \<Rightarrow> Inl e
      | Inr memory \<Rightarrow>
          (case read_uptime k of
             Inl e \<Rightarrow> Inl e
           | Inr uptime \<Rightarrow>
               (case read_load k of
                  Inl e \<Rightarrow> Inl e
                | Inr load \<Rightarrow>
                    (case read_filesystems k c of
                       Inl e \<Rightarrow> Inl e
                     | Inr filesystems \<Rightarrow>
                         (case rd_hostname k of
                            None \<Rightarrow> Inl NoHostname
                          | Some hostname \<Rightarrow> Inr (memory, uptime, load, filesystems, hostname))))))"

definition elapsed_seconds :: "gotime \<Rightarrow> gotime \<Rightarrow> float64" where
  "elapsed_seconds now previous =
     (let e = dur_seconds (time_sub now previous) in if flt e (Fin 1) then Fin 1 else e)"

definition collect_metrics :: "conversions \<Rightarrow> string \<Rightarrow> readings \<Rightarrow> collector \<Rightarrow> (collect_error + report) \<times> collector" where
  "collect_metrics cv version k c =
     (case read_counters k of
        Inl e \<Rightarrow> (Inl e, c)
      | Inr (cpu, disk, network) \<Rightarrow>
          (let now = rd_now k; elapsed = elapsed_seconds now (co_previous_at c) in
           case read_host k c of
             Inl e \<Rightarrow> (Inl e, c)
           | Inr (memory, uptime, (load1, load5, load15), filesystems, hostname) \<Rightarrow>
               (Inr ((zero_report [] 0 now)\<lparr>rep_version := version, rep_hostname := hostname,
                  rep_cpu_percent := cpu_percent (co_previous_cpu c) cpu,
                  rep_load1 := load1, rep_load5 := load5, rep_load15 := load15,
                  rep_memory := memory, rep_filesystems := filesystems,
                  rep_disk_io := calculate_disk_io (co_previous_disk c) disk elapsed,
                  rep_networks := calculate_network_io (co_previous_network c) network elapsed,
                  rep_uptime := u64_of_float cv uptime,
                  rep_boot_time := time_add now (wrap64 (wrap64 (- i64_of_float cv uptime) * second)),
                  rep_kernel := kernel_version k\<rparr>),
                c\<lparr>co_previous_cpu := cpu, co_previous_disk := disk, co_previous_network := network,
                   co_previous_at := now\<rparr>)))"

end
