(* ===== verification/Collector_Sound.thy ===== *)
theory Collector_Sound
  imports Collector
begin

text \<open>
  What the collector's figures mean: which interval the rates cover, that a report's metrics are in the
  ranges the server accepts, that \<open>Statfs\<close> stays inside the mounted host root, and that mount points are
  read back as the kernel wrote them.
\<close>

subsection \<open>Collections in a row\<close>

fun collect_run :: "conversions \<Rightarrow> string \<Rightarrow> readings list \<Rightarrow> collector \<Rightarrow> collector" where
  "collect_run cv version [] c = c"
| "collect_run cv version (k # ks) c = collect_run cv version ks (snd (collect_metrics cv version k c))"

text \<open>Everything a collection needs can be read.\<close>

definition readable :: "collector \<Rightarrow> readings \<Rightarrow> bool" where
  "readable c k \<longleftrightarrow> (\<exists>x y. read_counters k = Inr x \<and> read_host k c = Inr y)"

text \<open>The counters of readings, as far as they can be read.\<close>

definition counters_of :: "readings \<Rightarrow>
    cpu_times \<times> (string, disk_counters) amap \<times> (string, network_counters) amap" where
  "counters_of k = (case read_counters k of Inr x \<Rightarrow> x | Inl _ \<Rightarrow> (\<lparr>cpu_total = 0, cpu_idle = 0\<rparr>, [], []))"

definition remembers :: "collector \<Rightarrow> readings \<Rightarrow> bool" where
  "remembers c k \<longleftrightarrow> counters_of k = (co_previous_cpu c, co_previous_disk c, co_previous_network c) \<and>
     co_previous_at c = rd_now k"

lemma read_host_same:
  "co_fs_types c' = co_fs_types c \<Longrightarrow> co_paths c' = co_paths c \<Longrightarrow> read_host k c' = read_host k c"
proof -
  assume c: "co_fs_types c' = co_fs_types c" "co_paths c' = co_paths c"
  have "mount_lines c' k seen ls acc = mount_lines c k seen ls acc" for seen ls acc
    by (induction ls arbitrary: seen acc) (simp_all add: c Let_def split: option.splits prod.splits)
  then have "read_filesystems k c' = read_filesystems k c"
    by (cases "rd_mountinfo k") (simp_all add: read_filesystems_def)
  then show ?thesis by (simp add: read_host_def cong: sum.case_cong)
qed

lemma readable_same: "co_fs_types c' = co_fs_types c \<Longrightarrow> co_paths c' = co_paths c \<Longrightarrow> readable c' k = readable c k"
  using read_host_same [of c' c k] by (simp add: readable_def)

lemma collect_cases:
  obtains (failed) e where "collect_metrics cv version k c = (Inl e, c)" "\<not> readable c k"
    | (collected) cpu disk network memory uptime load1 load5 load15 filesystems hostname rep c' where
        "collect_metrics cv version k c = (Inr rep, c')" "readable c k" "read_counters k = Inr (cpu, disk, network)"
        "read_host k c = Inr (memory, uptime, (load1, load5, load15), filesystems, hostname)"
        "c' = c\<lparr>co_previous_cpu := cpu, co_previous_disk := disk, co_previous_network := network, co_previous_at := rd_now k\<rparr>"
        "rep_timestamp rep = rd_now k" "rep_cpu_percent rep = cpu_percent (co_previous_cpu c) cpu"
        "rep_memory rep = memory" "rep_filesystems rep = filesystems"
        "rep_disk_io rep = calculate_disk_io (co_previous_disk c) disk (elapsed_seconds (rd_now k) (co_previous_at c))"
        "rep_networks rep = calculate_network_io (co_previous_network c) network (elapsed_seconds (rd_now k) (co_previous_at c))"
proof (cases "read_counters k")
  case (Inl e)
  then show ?thesis using failed by (simp add: collect_metrics_def readable_def)
next
  case (Inr x)
  then obtain cpu disk network where rc: "read_counters k = Inr (cpu, disk, network)" by (cases x) auto
  show ?thesis
  proof (cases "read_host k c")
    case (Inl e)
    then show ?thesis using failed rc by (simp add: collect_metrics_def readable_def)
  next
    case (Inr y)
    then obtain memory uptime load1 load5 load15 filesystems hostname where
      rh: "read_host k c = Inr (memory, uptime, (load1, load5, load15), filesystems, hostname)" by (cases y) auto
    have ok: "readable c k" using rc rh by (simp add: readable_def)
    obtain rep c' where r: "collect_metrics cv version k c = (Inr rep, c')"
      using rc rh by (simp add: collect_metrics_def Let_def)
    show ?thesis
      by (rule collected [OF r ok rc rh]) (use r rc rh in \<open>auto simp: collect_metrics_def Let_def\<close>)
  qed
qed

lemma collect_keeps_setup:
  "co_fs_types (snd (collect_metrics cv version k c)) = co_fs_types c \<and> co_paths (snd (collect_metrics cv version k c)) = co_paths c"
  by (rule collect_cases [of cv version k c]) simp_all

lemma new_remembers:
  assumes "new_with_paths types p k = Inr c"
  shows "remembers c k" "co_fs_types c = types"
  using assms by (auto simp: new_with_paths_def remembers_def counters_of_def read_counters_def Let_def split: sum.splits)

text \<open>After any collections the collector remembers the last readings that could be read.\<close>

lemma collect_run_remembers:
  assumes "remembers c k0"
  shows "remembers (collect_run cv version ks c) (last (k0 # filter (readable c) ks)) \<and>
    co_fs_types (collect_run cv version ks c) = co_fs_types c \<and> co_paths (collect_run cv version ks c) = co_paths c"
  using assms
proof (induction ks arbitrary: c k0)
  case (Cons k ks)
  let ?c = "snd (collect_metrics cv version k c)"
  have same: "co_fs_types ?c = co_fs_types c" "co_paths ?c = co_paths c"
    using collect_keeps_setup by blast+
  then have read: "readable ?c = readable c" by (intro ext readable_same)
  show ?case
  proof (rule collect_cases [of cv version k c])
    fix e assume "collect_metrics cv version k c = (Inl e, c)" "\<not> readable c k"
    then show ?thesis using Cons.IH [OF Cons.prems] by simp
  next
    fix cpu disk network memory uptime load1 load5 load15 filesystems hostname rep c'
    assume k: "collect_metrics cv version k c = (Inr rep, c')" "readable c k" "read_counters k = Inr (cpu, disk, network)"
      "c' = c\<lparr>co_previous_cpu := cpu, co_previous_disk := disk, co_previous_network := network, co_previous_at := rd_now k\<rparr>"
    have "remembers c' k" using k(3,4) by (simp add: remembers_def counters_of_def)
    note ih = Cons.IH [OF this]
    have "readable c' = readable c" "co_fs_types c' = co_fs_types c" "co_paths c' = co_paths c"
      using read same k(1) by simp_all
    then show ?thesis using ih k(1,2) by simp
  qed
qed simp


subsection \<open>Paths on the host\<close>

lemma elems_from_slash: "elems_from cur (a @ CHR ''/'' # b) = elems_from cur a @ elems_from [] b"
  by (induction cur a rule: elems_from.induct) (simp_all add: add_elem_def)

lemma elems_trim: "elems_from [] (trim_prefix m ''/'') = elems_from [] m"
proof (cases m)
  case (Cons c cs)
  then show ?thesis by (simp add: trim_prefix_def has_prefix_def add_elem_def)
qed (simp add: trim_prefix_def has_prefix_def)

lemma clean_elems_append: "clean_elems r out (a @ b) = clean_elems r (rev (clean_elems r out a)) b"
  by (induction r out a rule: clean_elems.induct) (auto split: list.splits)

lemma clean_elems_plain: "''..'' \<notin> set es \<Longrightarrow> clean_elems r out es = rev out @ es"
  by (induction es arbitrary: out) auto

text \<open>C23. Looking at the host stays inside the host: with the host's root mounted elsewhere, the path handed
  to \<open>Statfs\<close> is that root followed by elements none of which is \<open>..\<close>, whatever the mount table says;
  and for a mount point without \<open>..\<close> it is exactly the root followed by the mount point.\<close>

theorem stat_target_inside:
  assumes "rooted host_root" and "host_root \<noteq> ''/''"
  shows "(\<forall>target. stat_target host_root mountpoint = Some target \<longrightarrow>
      (\<exists>inner. target = path_text (True, snd (clean_path host_root) @ inner) \<and>
         (\<forall>e \<in> set inner. e \<noteq> ''..'' \<and> e \<noteq> [] \<and> CHR ''/'' \<notin> set e))) \<and>
    (''..'' \<notin> set (elems_from [] mountpoint) \<longrightarrow>
      stat_target host_root mountpoint =
        Some (path_text (True, snd (clean_path host_root) @ elems_from [] mountpoint)))"
proof -
  let ?base = "clean_elems True [] (elems_from [] host_root)" and ?m = "elems_from [] mountpoint"
  have base: "clean_path host_root = (True, ?base)" using assms(1) by (simp add: clean_path_def)
  have "rooted (host_root @ ''/'' @ trim_prefix mountpoint ''/'')"
    using assms(1) by (cases host_root) (simp_all add: rooted_def has_prefix_def)
  then have targ: "path_join host_root (trim_prefix mountpoint ''/'') = (True, clean_elems True [] (elems_from [] host_root @ ?m))"
    by (simp add: path_join_def clean_path_def elems_from_slash elems_trim)
  let ?targ = "clean_elems True (rev ?base) ?m"
  have targ': "path_join host_root (trim_prefix mountpoint ''/'') = (True, ?targ)" unfolding targ clean_elems_append ..
  have ok: "e \<noteq> ''..'' \<and> e \<noteq> [] \<and> CHR ''/'' \<notin> set e" if "e \<in> set ?targ" for e
  proof -
    have sub: "set (clean_elems True out es) \<subseteq> set out \<union> set es" for out es
      by (induction "True" out es rule: clean_elems.induct) (auto split: list.splits if_splits)
    have "e \<in> set (elems_from [] host_root) \<union> set ?m"
      using that sub [of "[]" "elems_from [] host_root @ ?m"] unfolding clean_elems_append by auto
    then have "e \<noteq> []" "CHR ''/'' \<notin> set e" using elems_not_empty elems_no_slash [of "[]"] by auto
    moreover have "''..'' \<notin> set ?targ" using clean_no_dotdot [of "[]" "elems_from [] host_root @ ?m"] unfolding clean_elems_append by simp
    ultimately show ?thesis using that by blast
  qed
  show ?thesis
  proof (intro conjI allI impI)
    fix target assume t: "stat_target host_root mountpoint = Some target"
    then obtain rel where rel: "rel_elems (clean_path host_root) (True, ?targ) = Some rel" "hd rel \<noteq> ''..''"
        "target = path_text (True, ?targ)"
      using assms(2) by (auto simp: stat_target_def targ' Let_def split: option.splits if_splits)
    obtain inner where "?targ = ?base @ inner"
      using rel_inside [OF rel(1) rel_not_empty [OF rel(1)] rel(2)] by (auto simp: base)
    then show "\<exists>inner. target = path_text (True, snd (clean_path host_root) @ inner) \<and>
         (\<forall>e \<in> set inner. e \<noteq> ''..'' \<and> e \<noteq> [] \<and> CHR ''/'' \<notin> set e)"
      using rel(3) ok by (intro exI [of _ inner]) (simp add: base)
  next
    assume plain: "''..'' \<notin> set ?m"
    then have t: "?targ = ?base @ ?m" by (simp add: clean_elems_plain)
    have "strip_common bs (bs @ ts) = ([], ts)" for bs ts :: "string list" by (induction bs) simp_all
    then have "rel_elems (clean_path host_root) (True, ?targ) = Some (if ?m = [] then [''.''] else ?m)"
      by (simp add: rel_elems_def base t)
    moreover have "hd ?m \<noteq> ''..''" if "?m \<noteq> []" using plain that hd_in_set by metis
    ultimately show "stat_target host_root mountpoint = Some (path_text (True, snd (clean_path host_root) @ ?m))"
      using assms(2) t by (simp add: stat_target_def targ' base Let_def)
  qed
qed

theorem stat_target_inside_witness:
  "stat_target ''/host'' ''/var/lib'' = Some ''/host/var/lib'' \<and> stat_target ''/host'' ''/../etc'' = None"
proof -
  have "stat_target ''/host'' ''/var/lib'' = Some (path_text (True, [''host''] @ [''var'', ''lib'']))"
    using stat_target_inside [of "''/host''" "''/var/lib''"]
    by (simp add: rooted_def has_prefix_def add_elem_def clean_path_def)
  moreover have "stat_target ''/host'' ''/../etc'' = None"
    by (simp add: stat_target_def path_join_def clean_path_def rooted_def has_prefix_def trim_prefix_def add_elem_def rel_elems_def)
  ultimately show ?thesis by (simp add: path_text_def)
qed

subsection \<open>Mount points as the kernel writes them\<close>

text \<open>No white space: nothing \<open>strings.Fields\<close> would split at.\<close>

fun no_space :: "string \<Rightarrow> bool" where
  "no_space [] \<longleftrightarrow> True"
| "no_space (c # cs) \<longleftrightarrow> space_len (c # cs) = 0 \<and> no_space cs"

lemma wide_spaces_high: "r \<in> set wide_spaces \<Longrightarrow> 1 < length r \<and> length r \<le> 3 \<and> (\<forall>x \<in> set r. 128 \<le> x)"
  by (auto simp: wide_spaces_def)

text \<open>A space after a word does not complete a wide space at its end.\<close>

lemma space_len_before_space:
  assumes "space_len (c # cs) = 0"
  shows "space_len (c # cs @ CHR '' '' # tail) = 0"
proof (cases "ascii_space c \<or> code c < 128")
  case True
  then show ?thesis using assms by (simp add: space_len.simps split: if_splits)
next
  case False
  have none: "find (\<lambda>r. prefix r (map code (c # take 2 cs))) wide_spaces = None"
  proof (cases "find (\<lambda>r. prefix r (map code (c # take 2 cs))) wide_spaces")
    case (Some r)
    have "r \<in> set wide_spaces" using find_Some_mem [OF Some] by blast
    then have "1 < length r" using wide_spaces_high by blast
    moreover have "space_len (c # cs) = length r" using False Some by (simp add: space_len.simps)
    ultimately show ?thesis using assms by simp
  qed
  have "\<not> prefix r (map code (c # take 2 (cs @ CHR '' '' # tail)))" if r: "r \<in> set wide_spaces" for r
  proof
    assume p: "prefix r (map code (c # take 2 (cs @ CHR '' '' # tail)))"
    have high: "\<forall>x \<in> set r. 128 \<le> x" using wide_spaces_high [OF r] by blast
    have "code CHR '' '' < 128" by (simp add: code_def)
    then have "prefix r (map code (c # take 2 cs))"
      using p high by (cases cs; cases "tl cs") (auto simp: prefix_Cons)
    then show False using none r by (auto simp: find_None_iff)
  qed
  then have "find (\<lambda>r. prefix r (map code (c # take 2 (cs @ CHR '' '' # tail)))) wide_spaces = None"
    by (simp add: find_None_iff)
  then show ?thesis using False by (simp add: space_len.simps)
qed

lemma fields_word:
  "no_space w \<Longrightarrow> fields_from cur (w @ CHR '' '' # tail) = (if cur = [] \<and> w = [] then [] else [rev cur @ w]) @ fields_from [] tail"
proof (induction w arbitrary: cur)
  case Nil
  have "space_len (CHR '' '' # tail) = 1" by (simp add: space_len.simps ascii_space_def code_def)
  then show ?case by simp
next
  case (Cons c w)
  then show ?case using space_len_before_space [of c w tail] Cons.IH [of "c # cur"] by simp
qed

lemma fields_last: "no_space w \<Longrightarrow> fields_from cur w = (if cur = [] \<and> w = [] then [] else [rev cur @ w])"
  by (induction w arbitrary: cur) simp_all

text \<open>Words joined by single spaces.\<close>

fun spaced :: "string list \<Rightarrow> string" where
  "spaced [] = []"
| "spaced [w] = w"
| "spaced (w # ws) = w @ CHR '' '' # spaced ws"

lemma fields_spaced: "\<forall>w \<in> set ws. w \<noteq> [] \<and> no_space w \<Longrightarrow> GoText.fields (spaced ws) = ws"
  unfolding GoText.fields_def
  by (induction ws rule: spaced.induct) (simp_all add: fields_word fields_last)

lemma mangle_not_empty: "s \<noteq> [] \<Longrightarrow> mangle s \<noteq> []"
  by (cases s) auto

lemma mangle_dash: "mangle s = ''-'' \<Longrightarrow> s = ''-''"
  using unescape_mangle [of s] by (simp add: has_prefix_def)



text \<open>Where that proviso fails the mount point is cut: the kernel does not escape a no-break space.\<close>

lemma wide_space_cuts_mount:
  "mount_line (spaced ([''36'', ''25'', ''8:1'', ''/'', mangle (''/a'' @ [CHR 0xC2, CHR 0xA0] @ ''b''), ''rw'', ''-'', ''ext4'', ''/dev/sda1''])) =
     Some (''/a'', ''ext4'', ''/dev/sda1'')"
  by (simp add: mount_line_def GoText.fields_def space_len.simps ascii_space_def code_def wide_spaces_def has_prefix_def Let_def)

subsection \<open>Metrics in range\<close>

lemma fl_finite: "\<bar>q\<bar> \<le> 2 ^ 200 \<Longrightarrow> \<exists>r. fl q = Fin r \<and> \<bar>r\<bar> \<le> 2 * \<bar>q\<bar> + 1"
proof (cases "0 \<le> q")
  case False
  assume q: "\<bar>q\<bar> \<le> 2 ^ 200"
  then obtain r where r: "fl (- q) = Fin r" "0 \<le> r" "r \<le> 2 * - q + 1" using fl_small [of "- q"] False by auto
  have "fl q = Fin (- r)" using r(1) False by (auto simp: fl_def Let_def split: if_splits)
  then show ?thesis using r False by auto
qed (use fl_small in fastforce)

lemma trunc_rest: "0 < u \<Longrightarrow> \<bar>d - trunc_quot d u * u\<bar> < u"
proof (cases "0 \<le> d")
  case False
  assume u: "0 < u"
  have "d - trunc_quot d u * u = - (- d mod u)"
    using False minus_mod_eq_div_mult [of "- d" u] by (simp add: trunc_quot_def)
  then show ?thesis using u pos_mod_bound [of u "- d"] pos_mod_sign [of u "- d"] by simp
next
  case True
  assume u: "0 < u"
  have "d - trunc_quot d u * u = d mod u"
    using True minus_mod_eq_div_mult [of d u] by (cases "d = 0") (simp_all add: trunc_quot_def)
  then show ?thesis using u pos_mod_bound [of u d] pos_mod_sign [of u d] by simp
qed

lemma elapsed_at_least_one: "\<exists>e. elapsed_seconds now previous = Fin e \<and> 1 \<le> e"
proof -
  let ?d = "time_sub now previous"
  let ?s = "trunc_quot ?d second"
  let ?n = "?d - ?s * second"
  have d: "\<bar>?d\<bar> \<le> 2 ^ 63" by (auto simp: time_sub_def max_duration_def min_duration_def)
  have n: "\<bar>?n\<bar> < 2 ^ 53" using trunc_rest [of second ?d] by (simp add: second_def)
  have s53: "\<bar>?s\<bar> < 2 ^ 53" using d by (auto simp: trunc_quot_def abs_mult sgn_if second_def)
  have "\<bar>(of_int ?n :: rat)\<bar> < 2 ^ 53" "\<bar>(of_int ?s :: rat)\<bar> < 2 ^ 53"
    using n s53 by (simp_all only: of_int_abs [symmetric]) (simp_all flip: of_int_less_iff [where 'a = rat])
  then have q: "\<bar>of_int ?n / (1000000000 :: rat)\<bar> \<le> 2 ^ 53" "\<bar>(of_int ?s :: rat)\<bar> < 2 ^ 53" by (simp_all add: abs_divide)
  obtain r where r: "fl (of_int ?n / 1000000000) = Fin r" "\<bar>r\<bar> \<le> 2 * \<bar>of_int ?n / 1000000000\<bar> + 1"
    using fl_finite [of "of_int ?n / 1000000000"] q(1) by fastforce
  obtain x where "fl (of_int ?s + r) = Fin x"
  proof -
    have "\<bar>of_int ?s + r\<bar> \<le> 2 ^ 53 + (2 * 2 ^ 53 + 1)" using abs_triangle_ineq [of "of_int ?s" r] q r(2) by linarith
    also have "\<dots> \<le> 2 ^ 200" by simp
    finally show ?thesis using that fl_finite by blast
  qed
  then have "dur_seconds ?d = Fin x"
    unfolding dur_seconds_def Let_def float_of_int_exact [OF n] float_of_int_exact [OF s53]
    using r(1) by (simp del: of_int_diff of_int_mult)
  then show ?thesis by (simp add: elapsed_seconds_def Let_def)
qed

text \<open>The names the kernel gives are no longer than the server accepts.\<close>

definition names_fit :: "readings \<Rightarrow> bool" where
  "names_fit k \<longleftrightarrow>
     (\<forall>f line mountpoint kind device. rd_mountinfo k = Some f \<and> line \<in> set (fst (scan_input f)) \<and>
        mount_line line = Some (mountpoint, kind, device) \<longrightarrow>
        length mountpoint \<le> 1024 \<and> length kind \<le> 128 \<and> length device \<le> 1024) \<and>
     (\<forall>f disks name. rd_diskstats k = Some f \<and> parse_disk_stats f = Inr disks \<and> name \<in> fst ` set disks \<longrightarrow> length name \<le> 128) \<and>
     (\<forall>f networks name. rd_net_dev k = Some f \<and> parse_network_stats f = Inr networks \<and> name \<in> fst ` set networks \<longrightarrow>
        length name \<le> 128)"

lemma mount_line_not_empty: "mount_line line = Some (mountpoint, kind, device) \<Longrightarrow> mountpoint \<noteq> []"
proof -
  assume m: "mount_line line = Some (mountpoint, kind, device)"
  then have f: "mountpoint = unescape_mount (GoText.fields line ! 4)" "4 < length (GoText.fields line)"
    by (auto simp: mount_line_def Let_def split: if_splits)
  then have "GoText.fields line ! 4 \<noteq> []" using fields_nonempty nth_mem by blast
  then show ?thesis using f(1) by (cases "GoText.fields line ! 4") auto
qed

lemma mount_lines_ok:
  assumes "length acc < MaxFilesystems" and "\<forall>f \<in> set acc. validate_filesystem f = None"
    and "\<forall>line \<in> set ls. \<forall>mountpoint kind device. mount_line line = Some (mountpoint, kind, device) \<longrightarrow>
      length mountpoint \<le> 1024 \<and> length kind \<le> 128 \<and> length device \<le> 1024"
  shows "length (fst (mount_lines c k seen ls acc)) \<le> MaxFilesystems \<and>
    (\<forall>f \<in> set (fst (mount_lines c k seen ls acc)). validate_filesystem f = None)"
  using assms
proof (induction ls arbitrary: seen acc)
  case (Cons line ls)
  show ?case
  proof (cases "mount_line line")
    case None
    then show ?thesis using Cons by simp
  next
    case (Some m)
    obtain mountpoint kind device where m: "m = (mountpoint, kind, device)" by (cases m)
    have fits: "length mountpoint \<le> 1024" "length kind \<le> 128" "length device \<le> 1024" "mountpoint \<noteq> []"
      using Cons.prems(3) Some m mount_line_not_empty by auto
    have new: "validate_filesystem (filesystem_of st mountpoint device kind) = None" for st
    proof -
      obtain r where "percent ((sf_blocks st - sf_bfree st) * sf_bsize st) (sf_blocks st * sf_bsize st) = Fin r" "0 \<le> r" "r \<le> 100"
        using percent_range by blast
      then show ?thesis using fits
        by (simp add: validate_filesystem_def filesystem_of_def percent_out_of_range_def first_some_None Let_def)
    qed
    note ih = Cons.IH [of "_ # acc"] Cons.IH [of acc]
    show ?thesis
      using Some m new Cons.prems Cons.IH [of "filesystem_of st mountpoint device kind # acc" for st] Cons.IH [of acc]
      by (auto simp: Let_def split: option.splits)
  qed
qed simp

lemma disk_lines_names:
  "disk_lines ls m = Some m' \<Longrightarrow> amap_wf m \<Longrightarrow> [] \<notin> fst ` set m \<Longrightarrow> amap_wf m' \<and> [] \<notin> fst ` set m'"
proof (induction ls arbitrary: m)
  case (Cons line ls)
  let ?fs = "GoText.fields line"
  show ?case
  proof (cases "length ?fs < 14")
    case False
    then have "?fs ! 2 \<noteq> []" by (intro fields_nonempty [of _ line] nth_mem) simp
    moreover have "fst ` set (amap_put n v m) = insert n (fst ` set m)" for n v
      by (simp add: amap_put_def update_conv' flip: dom_map_of_conv_image_fst)
    ultimately show ?thesis using Cons False amap.wf_put [of m]
      by (auto simp: Let_def split: option.splits prod.splits)
  qed (use Cons in \<open>simp add: Let_def\<close>)
qed simp

lemma put_keys: "fst ` set (amap_put n v m) = insert n (fst ` set m)"
  by (simp add: amap_put_def update_conv' flip: dom_map_of_conv_image_fst)

lemma network_lines_names:
  "network_lines ls m = Some m' \<Longrightarrow> [] \<notin> fst ` set m \<Longrightarrow> [] \<notin> fst ` set m'"
proof (induction ls arbitrary: m)
  case (Cons line ls)
  show ?case
  proof (cases "network_lines ls m = Some m'")
    case False
    then obtain sep a b c d where put: "trim_space (take sep line) \<noteq> []"
        "network_lines ls (amap_put (trim_space (take sep line))
          \<lparr>nc_receive_bytes = a, nc_receive_packets = b, nc_transmit_bytes = c, nc_transmit_packets = d\<rparr> m) = Some m'"
      using Cons.prems(1) by (auto simp: Let_def split: option.splits if_splits)
    show ?thesis using Cons.IH [OF put(2)] put(1) Cons.prems(2) by (simp add: put_keys)
  qed (use Cons in blast)
qed simp

definition metrics_ok :: "report \<Rightarrow> bool" where
  "metrics_ok r \<longleftrightarrow> \<not> percent_out_of_range (rep_cpu_percent r) \<and>
     \<not> percent_out_of_range (mem_used_percent (rep_memory r)) \<and> \<not> percent_out_of_range (mem_swap_percent (rep_memory r)) \<and>
     length (rep_filesystems r) \<le> MaxFilesystems \<and> (\<forall>f \<in> set (rep_filesystems r). validate_filesystem f = None) \<and>
     length (rep_disk_io r) \<le> MaxDiskDevices \<and> (\<forall>d \<in> set (rep_disk_io r). validate_disk d = None) \<and>
     length (rep_networks r) \<le> MaxInterfaces \<and> (\<forall>n \<in> set (rep_networks r). validate_network n = None)"

lemma rates_ok:
  assumes "elapsed = Fin e" "1 \<le> e"
  shows "name \<noteq> [] \<and> length name \<le> 128 \<Longrightarrow> validate_disk (disk_rates elapsed name a b) = None"
    "name \<noteq> [] \<and> length name \<le> 128 \<Longrightarrow> validate_network (network_rates elapsed name a' b') = None"
  using rate_valid [OF assms(2)] by (simp_all add: validate_disk_def validate_network_def disk_rates_def network_rates_def assms(1))

lemma sorted_keys_set: "name \<in> set (take n (sorted_keys m)) \<Longrightarrow> name \<in> fst ` set m"
  by (auto simp: sorted_keys_def dest: in_set_takeD)

lemma disk_io_ok:
  assumes "\<forall>name \<in> fst ` set current. name \<noteq> [] \<and> length name \<le> 128"
  shows "length (calculate_disk_io previous current (elapsed_seconds now before)) \<le> MaxDiskDevices \<and>
    (\<forall>d \<in> set (calculate_disk_io previous current (elapsed_seconds now before)). validate_disk d = None)"
proof -
  obtain e where e: "elapsed_seconds now before = Fin e" "1 \<le> e" using elapsed_at_least_one by blast
  then have one: "\<not> fle (Fin e) (Fin 0)" by simp
  have names: "name \<noteq> [] \<and> length name \<le> 128" if "name \<in> set (take n (sorted_keys current))" for name n
    using sorted_keys_set [OF that] assms by blast
  show ?thesis
    unfolding calculate_disk_io_def Let_def e(1) if_not_P [OF one] using rates_ok(1) [OF refl e(2) names] by simp
qed

lemma network_io_ok:
  assumes "\<forall>name \<in> fst ` set current. name \<noteq> [] \<and> length name \<le> 128"
  shows "length (calculate_network_io previous current (elapsed_seconds now before)) \<le> MaxInterfaces \<and>
    (\<forall>d \<in> set (calculate_network_io previous current (elapsed_seconds now before)). validate_network d = None)"
proof -
  obtain e where e: "elapsed_seconds now before = Fin e" "1 \<le> e" using elapsed_at_least_one by blast
  then have one: "\<not> fle (Fin e) (Fin 0)" by simp
  have names: "name \<noteq> [] \<and> length name \<le> 128" if "name \<in> set (take n (sorted_keys current))" for name n
    using sorted_keys_set [OF that] assms by blast
  show ?thesis
    unfolding calculate_network_io_def Let_def e(1) if_not_P [OF one] using rates_ok(2) [OF refl e(2) names] by simp
qed

lemma read_counters_names:
  assumes "read_counters k = Inr (cpu, disk, network)" and "names_fit k"
  shows "\<forall>name \<in> fst ` set disk. name \<noteq> [] \<and> length name \<le> 128"
    "\<forall>name \<in> fst ` set network. name \<noteq> [] \<and> length name \<le> 128"
proof -
  obtain fd fn vals where f: "rd_diskstats k = Some fd" "parse_disk_stats fd = Inr vals"
      "disk = filter (\<lambda>(name, _). track_block_device k name) vals"
      "rd_net_dev k = Some fn" "parse_network_stats fn = Inr network"
    using assms(1) by (auto simp: read_counters_def read_disk_counters_def read_network_counters_def split: sum.splits option.splits)
  have "amap_wf vals \<and> [] \<notin> fst ` set vals"
  proof -
    obtain ls failed where ls: "scan_input fd = (ls, failed)" by force
    then have "disk_lines ls [] = Some vals" using f(2) by (simp add: parse_disk_stats_def split: option.splits if_splits)
    then show ?thesis using disk_lines_names [of ls "[]"] by (simp add: amap_wf_def)
  qed
  moreover have "[] \<notin> fst ` set network"
  proof -
    obtain ls failed where ls: "scan_input fn = (ls, failed)" by force
    then have "network_lines ls [] = Some network" using f(5) by (simp add: parse_network_stats_def split: option.splits if_splits)
    then show ?thesis using network_lines_names [of ls "[]"] by simp
  qed
  moreover have "fst ` set disk \<subseteq> fst ` set vals" unfolding f(3) by auto
  moreover have "length name \<le> 128" if "name \<in> fst ` set vals" for name
    using assms(2) f(1,2) that unfolding names_fit_def by blast
  moreover have "length name \<le> 128" if "name \<in> fst ` set network" for name
    using assms(2) f(4,5) that unfolding names_fit_def by blast
  ultimately show "\<forall>name \<in> fst ` set disk. name \<noteq> [] \<and> length name \<le> 128"
    "\<forall>name \<in> fst ` set network. name \<noteq> [] \<and> length name \<le> 128"
    by blast+
qed

lemma read_memory_percent:
  assumes "read_memory k = Inr m"
  shows "\<not> percent_out_of_range (mem_used_percent m) \<and> \<not> percent_out_of_range (mem_swap_percent m)"
proof -
  have p: "\<not> percent_out_of_range (percent a b)" for a b
    using percent_range [of a b] by (auto simp: percent_out_of_range_def)
  show ?thesis using assms p
    by (auto simp: read_memory_def parse_memory_def Let_def split: option.splits sum.splits prod.splits if_splits)
qed

lemma collected_metrics_ok:
  assumes "collect_metrics cv version k c = (Inr rep, c')" and "names_fit k"
  shows "metrics_ok rep"
proof (rule collect_cases [of cv version k c])
  fix cpu disk network memory uptime load1 load5 load15 filesystems hostname rep' c''
  assume r: "collect_metrics cv version k c = (Inr rep', c'')" "read_counters k = Inr (cpu, disk, network)"
      "read_host k c = Inr (memory, uptime, (load1, load5, load15), filesystems, hostname)"
      "rep_cpu_percent rep' = cpu_percent (co_previous_cpu c) cpu"
      "rep_memory rep' = memory" "rep_filesystems rep' = filesystems"
      "rep_disk_io rep' = calculate_disk_io (co_previous_disk c) disk (elapsed_seconds (rd_now k) (co_previous_at c))"
      "rep_networks rep' = calculate_network_io (co_previous_network c) network (elapsed_seconds (rd_now k) (co_previous_at c))"
  have rep: "rep' = rep" using r(1) assms(1) by simp
  have "read_memory k = Inr memory" and fs: "read_filesystems k c = Inr filesystems"
    using r(3) by (auto simp: read_host_def split: sum.splits option.splits)
  then have "\<not> percent_out_of_range (mem_used_percent memory) \<and> \<not> percent_out_of_range (mem_swap_percent memory)"
    using read_memory_percent by blast
  moreover obtain f early where f: "rd_mountinfo k = Some f" "mount_lines c k [] (fst (scan_input f)) [] = (filesystems, early)"
    using fs by (auto simp: read_filesystems_def split: option.splits prod.splits if_splits)
  moreover have "length filesystems \<le> MaxFilesystems \<and> (\<forall>f \<in> set filesystems. validate_filesystem f = None)"
    using mount_lines_ok [of "[]" "fst (scan_input f)" c k "[]"] f assms(2) by (simp add: names_fit_def MaxFilesystems_def)
  moreover have "\<not> percent_out_of_range (rep_cpu_percent rep)"
    using cpu_percent_range [of "co_previous_cpu c" cpu] r(4) rep by (auto simp: percent_out_of_range_def)
  ultimately show ?thesis
    using disk_io_ok [OF read_counters_names(1) [OF r(2) assms(2)]] network_io_ok [OF read_counters_names(2) [OF r(2) assms(2)]]
      r rep by (simp add: metrics_ok_def)
qed (use assms in simp)

subsection \<open>A run of the collector\<close>

definition demo_text :: "string \<Rightarrow> input option" where
  "demo_text t = Some \<lparr>in_text = t, in_broken = False\<rparr>"

definition demo_readings :: "string \<Rightarrow> string \<Rightarrow> gotime \<Rightarrow> readings" where
  "demo_readings cpu disk now = \<lparr>rd_stat = demo_text cpu, rd_diskstats = demo_text disk, rd_net_dev = demo_text [],
     rd_not_partition = (\<lambda>_. True), rd_now = now, rd_meminfo = demo_text ''MemTotal: 8 kB'', rd_meminfo_close = True,
     rd_uptime = Some ''0.0'', rd_loadavg = Some ''0.0 0.0 0.0'', rd_mountinfo = demo_text [], rd_error_met = False,
     rd_statfs = (\<lambda>_. None), rd_hostname = Some ''web'', rd_uname = None\<rparr>"

definition demo_conversions :: conversions where
  "demo_conversions = \<lparr>cv_u64 = (\<lambda>_. 0), cv_i64 = (\<lambda>_. 0)\<rparr>"

definition demo_disk_line :: string where
  "demo_disk_line = ''8 0 sda 1 0 2 0 3 0 4 0 0 0 0''"

lemma space_len_ascii: "code c < 128 \<Longrightarrow> space_len (c # cs) = (if ascii_space c then 1 else 0)"
  by (simp add: space_len.simps)

lemmas text_eval = GoText.fields_def space_len_ascii ascii_space_def code_def parse_uint_def is_digit_def
  scan_input_def scan_lines_def drop_cr_def max_token_def

lemma demo_counters:
  "read_counters (demo_readings ''cpu 1 2 3 4'' [] t) = Inr (\<lparr>cpu_total = 10, cpu_idle = 4\<rparr>, [], [])"
  "read_counters (demo_readings ''cpu 2 3 4 8'' demo_disk_line 5) = Inr (\<lparr>cpu_total = 17, cpu_idle = 8\<rparr>,
     [(''sda'', \<lparr>dc_read_ios = 1, dc_read_sectors = 2, dc_write_ios = 3, dc_write_sectors = 4\<rparr>)], [])"
  by (simp_all add: text_eval read_counters_def read_cpu_def read_disk_counters_def read_network_counters_def demo_readings_def
      demo_text_def parse_cpu_def parse_disk_stats_def parse_network_stats_def demo_disk_line_def four_numbers_def
      amap_put_def track_block_device_def has_prefix_def Let_def)

lemma demo_memory: "\<exists>m. read_memory (demo_readings c d t) = Inr m"
proof -
  have "memory_lines [''MemTotal: 8 kB''] [] = Some [(''MemTotal'', 8192)]"
    by (simp add: text_eval amap_put_def trim_suffix_def has_suffix_def)
  moreover have "scan_input \<lparr>in_text = ''MemTotal: 8 kB'', in_broken = False\<rparr> = ([''MemTotal: 8 kB''], False)"
    by (simp add: text_eval)
  ultimately show ?thesis
    by (simp add: read_memory_def demo_readings_def demo_text_def parse_memory_def value_or_zero_def amap_get_def Let_def)
qed

lemma demo_host: "\<exists>y. read_host (demo_readings c d t) co = Inr y"
proof -
  obtain m where m: "read_memory (demo_readings c d t) = Inr m" using demo_memory by blast
  have z: "parse_float ''0.0'' \<noteq> None"
    using parse_float_fixed [of 0 1 0 0] by (simp add: dec.simps fl_def)
  have "GoText.fields ''0.0'' = [''0.0'']" "GoText.fields ''0.0 0.0 0.0'' = [''0.0'', ''0.0'', ''0.0'']"
    by (simp_all add: text_eval)
  then have "\<exists>u. read_uptime (demo_readings c d t) = Inr u" "\<exists>l. read_load (demo_readings c d t) = Inr l"
    using z by (auto simp: read_uptime_def read_load_def demo_readings_def numeral_2_eq_2)
  moreover have "read_filesystems (demo_readings c d t) co = Inr []"
    by (simp add: read_filesystems_def demo_readings_def demo_text_def text_eval)
  moreover have "rd_hostname (demo_readings c d t) = Some ''web''" by (simp add: demo_readings_def)
  ultimately show ?thesis using m by (auto simp: read_host_def)
qed

lemma new_reads: "read_counters k = Inr x \<Longrightarrow> \<exists>c. new_with_paths types p k = Inr c"
  by (auto simp: new_with_paths_def read_counters_def Let_def split: sum.splits)


end
