(* ===== verification/GoFmt.thy ===== *)
theory GoFmt
  imports GoTime
begin

text \<open>
  The verbs of Go's \<open>fmt\<close> the program uses on numbers: \<open>%d\<close>, and \<open>%.kf\<close> on a float, which prints
  the value rounded to \<open>k\<close> decimals, ties to even on the exact binary value.
\<close>

definition format_int :: "int \<Rightarrow> string" where
  "format_int k = (if k < 0 then ''-'' @ dec (nat (- k)) else dec (nat k))"

text \<open>A number of units of \<open>10 ^ - k\<close>.\<close>

definition fixed_text :: "nat \<Rightarrow> nat \<Rightarrow> string" where
  "fixed_text k n = dec (n div 10 ^ k) @ (if k = 0 then [] else ''.'' @ fixed_digits k (n mod 10 ^ k))"

fun format_fixed :: "nat \<Rightarrow> float64 \<Rightarrow> string" where
  "format_fixed k (Fin a) = (if a < 0 then ''-'' else []) @ fixed_text k (nat (rne (\<bar>a\<bar> * 10 ^ k)))"
| "format_fixed k PInf = ''+Inf''"
| "format_fixed k NInf = ''-Inf''"
| "format_fixed k NaN = ''NaN''"

lemma format_fixed_examples:
  "format_fixed 1 (Fin 97) = ''97.0''" "format_fixed 1 (Fin (5 / 4)) = ''1.2''"
  "format_fixed 2 (Fin (- 1 / 2)) = ''-0.50''" "format_fixed 0 (Fin 121) = ''121''"
  by code_simp+

text \<open>\<open>Duration.Round\<close>: to the nearest multiple, half away from zero, unless that overflows.\<close>

definition duration_round :: "duration \<Rightarrow> duration \<Rightarrow> duration" where
  "duration_round d m =
     (if m \<le> 0 then d
      else
        (let r = (if d < 0 then \<bar>d\<bar> mod m else d mod m) in
         if d < 0 then
           (if r + r < m then d + r else if min_duration \<le> d - m + r then d - m + r else min_duration)
         else if r + r < m then d - r
         else if d + m - r \<le> max_duration then d + m - r else max_duration))"

end
