(* ===== verification/GoEncode.thy ===== *)
theory GoEncode
  imports GoFmt
begin

text \<open>
  What the program uses of Go's library to compose texts and mails: \<open>strings.ReplaceAll\<close>, \<open>Duration.String\<close>,
  \<open>Time.Format(time.RFC3339)\<close> in UTC, \<open>mime.QEncoding.Encode\<close> and the writer of
  \<open>mime/quotedprintable\<close>.
\<close>

subsection \<open>Replacing\<close>

text \<open>\<open>strings.ReplaceAll\<close> of a text that is not empty.\<close>

function replace_all :: "string \<Rightarrow> string \<Rightarrow> string \<Rightarrow> string" where
  "replace_all old new [] = []"
| "replace_all old new (c # cs) =
     (if old \<noteq> [] \<and> has_prefix (c # cs) old then new @ replace_all old new (drop (length old - 1) cs)
      else c # replace_all old new cs)"
  by pat_completeness auto
termination
  by (relation "measure (\<lambda>(_, _, s). length s)") (auto simp: less_Suc_eq_le)

subsection \<open>Durations and times\<close>

definition trim_zeros :: "string \<Rightarrow> string" where
  "trim_zeros s = rev (dropWhile (\<lambda>c. c = CHR ''0'') (rev s))"

text \<open>A number of units of \<open>10 ^ - k\<close> without trailing zeros.\<close>

definition short_fraction :: "nat \<Rightarrow> nat \<Rightarrow> string" where
  "short_fraction k n = dec (n div 10 ^ k) @ (if n mod 10 ^ k = 0 then [] else ''.'' @ trim_zeros (fixed_digits k (n mod 10 ^ k)))"

definition duration_text :: "duration \<Rightarrow> string" where
  "duration_text d =
     (let u = nat \<bar>d\<bar>; sign = (if d < 0 then ''-'' else []) in
      if u = 0 then ''0s''
      else if u < 1000 then sign @ dec u @ ''ns''
      else if u < 1000000 then sign @ short_fraction 3 u @ [CHR 0xC2, CHR 0xB5] @ ''s''
      else if u < 1000000000 then sign @ short_fraction 6 u @ ''ms''
      else
        (let m = u div 1000000000 div 60; s = u mod (60 * 1000000000) in
         sign @ (if 60 \<le> m then dec (m div 60) @ ''h'' else []) @ (if 0 < m then dec (m mod 60) @ ''m'' else []) @
         short_fraction 9 s @ ''s''))"

text \<open>The calendar, counted in days from the first of January of the year 1: year, month and day.\<close>

definition month_days :: "int \<Rightarrow> int list" where
  "month_days year =
     [31, if year mod 4 = 0 \<and> (year mod 100 \<noteq> 0 \<or> year mod 400 = 0) then 29 else 28, 31, 30, 31, 30, 31, 31, 30, 31, 30, 31]"

fun month_of :: "int \<Rightarrow> int list \<Rightarrow> int \<Rightarrow> int \<times> int" where
  "month_of m [] d = (m, d + 1)"
| "month_of m (n # ns) d = (if d < n then (m, d + 1) else month_of (m + 1) ns (d - n))"

definition civil :: "int \<Rightarrow> int \<times> int \<times> int" where
  "civil days =
     (let n400 = days div 146097; d400 = days mod 146097;
          n100 = min 3 (d400 div 36524); d100 = d400 - n100 * 36524;
          n4 = d100 div 1461; d4 = d100 mod 1461;
          n1 = min 3 (d4 div 365); d1 = d4 - n1 * 365;
          year = 400 * n400 + 100 * n100 + 4 * n4 + n1 + 1; (m, d) = month_of 1 (month_days year) d1 in
      (year, m, d))"

definition time_text :: "gotime \<Rightarrow> string" where
  "time_text t =
     (let secs = t div second; (year, m, d) = civil (secs div 86400); r = nat (secs mod 86400) in
      (if year < 0 then ''-'' else []) @ (if \<bar>year\<bar> < 10000 then fixed_digits 4 (nat \<bar>year\<bar>) else dec (nat \<bar>year\<bar>)) @
      ''-'' @ fixed_digits 2 (nat m) @ ''-'' @ fixed_digits 2 (nat d) @ ''T'' @ fixed_digits 2 (r div 3600) @ '':'' @
      fixed_digits 2 (r div 60 mod 60) @ '':'' @ fixed_digits 2 (r mod 60) @ ''Z'')"

subsection \<open>Runes\<close>

text \<open>The length of the UTF-8 sequence a text starts with; 1 for a byte that starts none.\<close>

definition continues :: "char \<Rightarrow> bool" where
  "continues c \<longleftrightarrow> 128 \<le> code c \<and> code c < 192"

fun rune_len :: "string \<Rightarrow> nat" where
  "rune_len (a # b # c # d # s) =
     (if 194 \<le> code a \<and> code a \<le> 223 \<and> continues b then 2
      else if 224 \<le> code a \<and> code a \<le> 239 \<and> continues b \<and> continues c \<and> (code a = 224 \<longrightarrow> 160 \<le> code b) \<and>
        (code a = 237 \<longrightarrow> code b < 160) then 3
      else if 240 \<le> code a \<and> code a \<le> 244 \<and> continues b \<and> continues c \<and> continues d \<and> (code a = 240 \<longrightarrow> 144 \<le> code b) \<and>
        (code a = 244 \<longrightarrow> code b < 144) then 4 else 1)"
| "rune_len [a, b, c] =
     (if 194 \<le> code a \<and> code a \<le> 223 \<and> continues b then 2
      else if 224 \<le> code a \<and> code a \<le> 239 \<and> continues b \<and> continues c \<and> (code a = 224 \<longrightarrow> 160 \<le> code b) \<and>
        (code a = 237 \<longrightarrow> code b < 160) then 3 else 1)"
| "rune_len [a, b] = (if 194 \<le> code a \<and> code a \<le> 223 \<and> continues b then 2 else 1)"
| "rune_len s = 1"

lemma rune_len_range: "1 \<le> rune_len s \<and> rune_len s \<le> 4"
  by (induction s rule: rune_len.induct) auto

subsection \<open>Encoded words\<close>

definition hex_upper :: "nat \<Rightarrow> char" where
  "hex_upper d = (if d < 10 then digit_char d else char_of (55 + d))"

definition escaped_byte :: "char \<Rightarrow> string" where
  "escaped_byte c = [CHR ''='', hex_upper (code c div 16), hex_upper (code c mod 16)]"

definition needs_encoding :: "string \<Rightarrow> bool" where
  "needs_encoding s \<longleftrightarrow> list_ex (\<lambda>c. (code c < 32 \<or> 126 < code c) \<and> code c \<noteq> 9) s"

definition q_plain :: "char \<Rightarrow> bool" where
  "q_plain c \<longleftrightarrow> 33 \<le> code c \<and> code c \<le> 126 \<and> c \<noteq> CHR ''='' \<and> c \<noteq> CHR ''?'' \<and> c \<noteq> CHR ''_''"

definition q_string :: "string \<Rightarrow> string" where
  "q_string s = concat (map (\<lambda>c. if c = CHR '' '' then ''_'' else if q_plain c then [c] else escaped_byte c) s)"

text \<open>\<open>qEncode\<close>: the content of a word has at most 63 characters and no rune is split; \<open>used\<close> counts the
  current word's.\<close>

function q_words :: "nat \<Rightarrow> string \<Rightarrow> string" where
  "q_words used [] = []"
| "q_words used (c # cs) =
     (let simple = (c = CHR '' '' \<or> q_plain c);
          n = (if simple then 1 else rune_len (c # cs));
          enc = (if simple then 1 else 3 * n);
          split = (63 < used + enc) in
      (if split then ''?= =?UTF-8?q?'' else []) @ q_string (take n (c # cs)) @
      q_words ((if split then 0 else used) + enc) (drop (n - 1) cs))"
  by pat_completeness auto
termination
  by (relation "measure (\<lambda>(_, s). length s)") (auto simp: less_Suc_eq_le)

definition q_encode :: "string \<Rightarrow> string" where
  "q_encode s = (if needs_encoding s then ''=?UTF-8?q?'' @ q_words 0 s @ ''?='' else s)"

subsection \<open>Quoted-printable\<close>

text \<open>The writer's state: the current line in reverse and whether the last byte was a carriage return; it
  returns what it passes on.\<close>

definition qp_space :: "char \<Rightarrow> bool" where
  "qp_space c \<longleftrightarrow> c = CHR '' '' \<or> c = CHR 0x09"

definition qp_encode :: "char \<Rightarrow> string \<Rightarrow> string \<times> string" where
  "qp_encode c line =
     (if 75 < length line + 3 then (rev (CHR ''='' # line) @ [CHR 0x0D, CHR 0x0A], rev (escaped_byte c))
      else ([], rev (escaped_byte c) @ line))"

definition qp_check_last :: "string \<Rightarrow> string \<times> string" where
  "qp_check_last line =
     (case line of [] \<Rightarrow> ([], []) | c # l \<Rightarrow> if qp_space c then qp_encode c l else ([], line))"

fun qp_from :: "string \<Rightarrow> bool \<Rightarrow> string \<Rightarrow> string" where
  "qp_from line cr [] = (case qp_check_last line of (out, l) \<Rightarrow> out @ rev l)"
| "qp_from line cr (c # cs) =
     (if c = CHR 0x0A \<or> c = CHR 0x0D then
        if cr \<and> c = CHR 0x0A then qp_from line False cs
        else (case qp_check_last line of (out, l) \<Rightarrow> out @ rev l @ [CHR 0x0D, CHR 0x0A] @ qp_from [] (c = CHR 0x0D) cs)
      else if (33 \<le> code c \<and> code c \<le> 126 \<and> c \<noteq> CHR ''='') \<or> qp_space c then
        if length line = 75 then rev (CHR ''='' # line) @ [CHR 0x0D, CHR 0x0A] @ qp_from [c] False cs
        else qp_from (c # line) False cs
      else (case qp_encode c line of (out, l) \<Rightarrow> out @ qp_from l cr cs))"

definition quoted_printable :: "string \<Rightarrow> string" where
  "quoted_printable s = qp_from [] False s"

end
