(* ===== verification/Checks.thy ===== *)
theory Checks
  imports Agent Config_Sound Collector_Sound GoEncode
begin

text \<open>
  The agent's checks (\<open>internal/checks/checks.go\<close>): systemd units, the Docker API, HTTP and TCP endpoints.
  What \<open>systemctl\<close>, the endpoints and the clock answer is the input of each check; the checks of a
  collection run concurrently in the code, each writing a result of its own, so their results do not depend
  on the order.  \<open>url.Parse\<close> is the field \<open>gl_url\<close> of \<open>go_lib\<close>; \<open>URL.String\<close> is the argument
  \<open>text\<close>: the text of the URL parsed from the first argument with the fields of the second in place.
\<close>

subsection \<open>Texts of errors\<close>

definition max_error_length :: nat where "max_error_length = 512"

definition clean_error :: "string \<Rightarrow> string" where
  "clean_error e = take max_error_length (map (\<lambda>c. if c = CHR 0x0A \<or> c = CHR 0x0D then CHR '' '' else c) e)"

type_synonym url_printer = "string \<Rightarrow> url \<Rightarrow> string"

definition sanitized_url :: "go_lib \<Rightarrow> url_printer \<Rightarrow> string \<Rightarrow> string" where
  "sanitized_url lib text raw =
     (case gl_url lib raw of
        None \<Rightarrow> []
      | Some u \<Rightarrow> text raw (u\<lparr>url_user := False, url_raw_query := [], url_fragment := []\<rparr>))"

text \<open>The matches of \<open>https?://[^\s"]+\<close>: the length of the longest match at the start of a text, 0 when there is
  none.\<close>

definition url_byte :: "char \<Rightarrow> bool" where
  "url_byte c \<longleftrightarrow> c \<notin> {CHR 0x09, CHR 0x0A, CHR 0x0C, CHR 0x0D, CHR '' '', CHR 0x22}"

definition url_len :: "string \<Rightarrow> nat" where
  "url_len s =
     (let n = (if has_prefix s ''http://'' then 7 else if has_prefix s ''https://'' then 8 else 0);
          m = length (takeWhile url_byte (drop n s)) in
      if n = 0 \<or> m = 0 then 0 else n + m)"

text \<open>\<open>ReplaceAllStringFunc\<close> with this pattern.\<close>

function replace_urls :: "(string \<Rightarrow> string) \<Rightarrow> string \<Rightarrow> string" where
  "replace_urls f [] = []"
| "replace_urls f (c # cs) =
     (let n = url_len (c # cs) in
      if n = 0 then c # replace_urls f cs else f (take n (c # cs)) @ replace_urls f (drop (n - 1) cs))"
  by pat_completeness auto
termination
  by (relation "measure (\<lambda>(_, s). length s)") (auto simp: less_Suc_eq_le)

definition clean_http_error :: "go_lib \<Rightarrow> url_printer \<Rightarrow> string \<Rightarrow> string \<Rightarrow> string \<Rightarrow> string" where
  "clean_http_error lib text e raw_url safe_url =
     (let v = clean_error e;
          v1 = (if raw_url \<noteq> safe_url then replace_all raw_url safe_url v else v) in
      replace_urls (sanitized_url lib text) v1)"

subsection \<open>systemd units\<close>

text \<open>\<open>strings.Cut\<close> at the first equals sign.\<close>

definition cut_equals :: "string \<Rightarrow> (string \<times> string) option" where
  "cut_equals line = (case index_byte line CHR ''='' of None \<Rightarrow> None | Some i \<Rightarrow> Some (take i line, drop (Suc i) line))"

fun unit_lines :: "string list \<Rightarrow> service_status \<Rightarrow> service_status" where
  "unit_lines [] item = item"
| "unit_lines (line # ls) item =
     (case cut_equals line of
        None \<Rightarrow> unit_lines ls item
      | Some (key, v) \<Rightarrow>
          unit_lines ls (if key = ''ActiveState'' then item\<lparr>svc_active_state := v\<rparr>
            else if key = ''SubState'' then item\<lparr>svc_sub_state := v\<rparr> else item))"

text \<open>The outcome of \<open>systemctl show\<close> is the text of an error or the output.\<close>

definition check_unit :: "string \<Rightarrow> string + string \<Rightarrow> service_status" where
  "check_unit service outcome =
     (case outcome of
        Inl e \<Rightarrow> \<lparr>svc_name = service, svc_active_state = ''unknown'', svc_sub_state = ''unknown'', svc_error = clean_error e\<rparr>
      | Inr output \<Rightarrow>
          (let (ls, too_long) = scan_lines output;
               item = unit_lines ls \<lparr>svc_name = service, svc_active_state = [], svc_sub_state = [], svc_error = []\<rparr>;
               item1 = (if svc_active_state item = [] then item\<lparr>svc_active_state := ''unknown''\<rparr> else item);
               item2 = (if svc_sub_state item1 = [] then item1\<lparr>svc_sub_state := ''unknown''\<rparr> else item1) in
           if too_long then item2\<lparr>svc_error := clean_error ''bufio.Scanner: token too long''\<rparr> else item2))"

definition collect_systemd :: "agent_config \<Rightarrow> (nat \<Rightarrow> string + string) \<Rightarrow> service_status list" where
  "collect_systemd c outcome =
     map (\<lambda>(i, service). check_unit service (outcome i)) (enumerate 0 (ac_systemd_services c))"

subsection \<open>HTTP\<close>

text \<open>What \<open>CheckRedirect\<close> says to following a redirect after \<open>via\<close> requests to a URL with a scheme.\<close>

definition redirect_error :: "nat \<Rightarrow> string \<Rightarrow> string option" where
  "redirect_error via scheme =
     (if 3 \<le> via then Some ''too many redirects''
      else if scheme \<noteq> ''http'' \<and> scheme \<noteq> ''https'' then Some ''redirect uses unsupported scheme'' else None)"

text \<open>The answer to a request: the status code and the expiry of the server's certificate, if any.\<close>

record http_answer =
  ha_status :: int
  ha_not_after :: "gotime option"
  ha_now :: gotime

record http_io =
  hi_request_error :: "string option"
  hi_elapsed :: duration
  hi_outcome :: "string + http_answer"

text \<open>\<open>float64(d.Microseconds()) / 1000\<close> and \<open>d.Hours() / 24\<close>.\<close>

definition response_ms :: "duration \<Rightarrow> float64" where
  "response_ms d = fdiv (float_of_int (trunc_quot d 1000)) (Fin 1000)"

definition dur_hours :: "duration \<Rightarrow> float64" where
  "dur_hours d = (let h = trunc_quot d hour; n = d - h * hour in
     fadd (float_of_int h) (fdiv (float_of_int n) (Fin 3600000000000)))"

definition check_http :: "go_lib \<Rightarrow> url_printer \<Rightarrow> http_io \<Rightarrow> http_check \<Rightarrow> http_status" where
  "check_http lib text io def =
     (let safe = sanitized_url lib text (hc_url def);
          item = \<lparr>hs_name = hc_name def, hs_url = safe, hs_status_code = 0, hs_response_ms = Fin 0, hs_ok = False,
            hs_error = [], hs_tls_days_left = None\<rparr> in
      case hi_request_error io of
        Some e \<Rightarrow> item\<lparr>hs_error := clean_http_error lib text e (hc_url def) safe\<rparr>
      | None \<Rightarrow>
          (let item1 = item\<lparr>hs_response_ms := response_ms (hi_elapsed io)\<rparr> in
           case hi_outcome io of
             Inl e \<Rightarrow> item1\<lparr>hs_error := clean_http_error lib text e (hc_url def) safe\<rparr>
           | Inr a \<Rightarrow> item1\<lparr>hs_status_code := ha_status a, hs_ok := (200 \<le> ha_status a \<and> ha_status a < 400),
               hs_tls_days_left := (case ha_not_after a of None \<Rightarrow> None
                 | Some t \<Rightarrow> Some (fdiv (dur_hours (time_sub t (ha_now a))) (Fin 24)))\<rparr>))"

definition collect_http :: "go_lib \<Rightarrow> url_printer \<Rightarrow> agent_config \<Rightarrow> (nat \<Rightarrow> http_io) \<Rightarrow> http_status list" where
  "collect_http lib text c io = map (\<lambda>(i, def). check_http lib text (io i) def) (enumerate 0 (ac_http_checks c))"

subsection \<open>TCP\<close>

record tcp_io =
  ti_elapsed :: duration
  ti_error :: "string option"

definition check_tcp :: "tcp_io \<Rightarrow> tcp_check \<Rightarrow> tcp_status" where
  "check_tcp io def =
     (let item = \<lparr>ts_name = tc_name def, ts_address = tc_address def, ts_reachable = False,
            ts_response_ms = response_ms (ti_elapsed io), ts_error = []\<rparr> in
      case ti_error io of
        Some e \<Rightarrow> item\<lparr>ts_error := clean_error e\<rparr>
      | None \<Rightarrow> item\<lparr>ts_reachable := True\<rparr>)"

definition collect_tcp :: "agent_config \<Rightarrow> (nat \<Rightarrow> tcp_io) \<Rightarrow> tcp_status list" where
  "collect_tcp c io = map (\<lambda>(i, def). check_tcp (io i) def) (enumerate 0 (ac_tcp_checks c))"

subsection \<open>Docker\<close>

record docker_container =
  do_id :: string
  do_names :: "string list"
  do_state :: string
  do_status :: string

datatype docker_outcome =
    DockerFailed string | DockerHttp int | DockerUndecodable string | DockerListed "docker_container list"

definition short_id :: "string \<Rightarrow> string" where
  "short_id v = (if 12 < length v then take 12 v else v)"

definition docker_health :: "string \<Rightarrow> string" where
  "docker_health status =
     (case (last_index_byte status CHR ''('', last_index_byte status CHR '')'') of
        (Some i, Some j) \<Rightarrow>
          if i < j then
            (let v = drop (i + 1) (take j status) in
             if v = ''healthy'' \<or> v = ''unhealthy'' \<or> v = ''health: starting'' then trim_prefix v ''health: '' else [])
          else []
      | _ \<Rightarrow> [])"

definition container_of :: "docker_container \<Rightarrow> container_status" where
  "container_of d =
     \<lparr>ct_id = short_id (do_id d),
      ct_name = (case do_names d of [] \<Rightarrow> short_id (do_id d) | name # _ \<Rightarrow> trim_prefix name ''/''),
      ct_state = do_state d, ct_health = docker_health (do_status d)\<rparr>"

definition collect_docker :: "agent_config \<Rightarrow> docker_outcome \<Rightarrow> docker_status" where
  "collect_docker c outcome =
     (let result = \<lparr>dk_enabled = dc_enabled (ac_docker c), dk_available = False, dk_error = [], dk_containers = []\<rparr> in
      if \<not> dc_enabled (ac_docker c) then result
      else case outcome of
          DockerFailed e \<Rightarrow> result\<lparr>dk_error := clean_error e\<rparr>
        | DockerHttp status \<Rightarrow> result\<lparr>dk_error := ''Docker API returned HTTP '' @ format_int status\<rparr>
        | DockerUndecodable e \<Rightarrow> result\<lparr>dk_error := clean_error e\<rparr>
        | DockerListed payload \<Rightarrow>
            result\<lparr>dk_containers := map container_of (take MaxChecks payload), dk_available := True\<rparr>)"

subsection \<open>All checks\<close>

record checks_io =
  ki_units :: "nat \<Rightarrow> string + string"
  ki_docker :: docker_outcome
  ki_http :: "nat \<Rightarrow> http_io"
  ki_tcp :: "nat \<Rightarrow> tcp_io"

definition collect_checks :: "go_lib \<Rightarrow> url_printer \<Rightarrow> agent_config \<Rightarrow> checks_io \<Rightarrow> check_results" where
  "collect_checks lib text c io =
     \<lparr>cr_services = collect_systemd c (ki_units io), cr_docker = collect_docker c (ki_docker io),
      cr_http = collect_http lib text c (ki_http io), cr_tcp = collect_tcp c (ki_tcp io)\<rparr>"

subsection \<open>Results the server accepts\<close>

lemma clean_error_length [simp]: "length (clean_error e) \<le> 512" "\<not> 512 < length (clean_error e)"
  by (simp_all add: clean_error_def max_error_length_def)

lemma clean_error_one_line: "CHR 0x0A \<notin> set (clean_error e) \<and> CHR 0x0D \<notin> set (clean_error e)"
  by (auto simp: clean_error_def dest!: in_set_takeD split: if_splits)

lemma abs_of_int_le: "\<bar>n\<bar> \<le> k \<Longrightarrow> \<bar>rat_of_int n\<bar> \<le> of_int k"
  by (simp only: of_int_abs [symmetric] of_int_le_iff)

lemma finite_quotient:
  assumes "\<bar>n\<bar> \<le> 2 ^ 63" and "1 \<le> b"
  shows "\<exists>r. fdiv (float_of_int n) (Fin b) = Fin r \<and> \<bar>r\<bar> \<le> 2 ^ 70 \<and> (0 \<le> n \<longrightarrow> 0 \<le> r)"
proof -
  have n: "\<bar>rat_of_int n\<bar> \<le> 2 ^ 63" using abs_of_int_le [OF assms(1)] by simp
  obtain x where x: "float_of_int n = Fin x" "\<bar>x\<bar> \<le> 2 * \<bar>rat_of_int n\<bar> + 1"
    using fl_finite [of "rat_of_int n"] n by (fastforce simp: float_of_int_def)
  have "\<bar>x / b\<bar> \<le> \<bar>x\<bar>" using assms(2) by (simp add: abs_divide divide_le_eq mult_le_cancel_left1)
  then obtain r where r: "fl (x / b) = Fin r" "\<bar>r\<bar> \<le> 2 * \<bar>x / b\<bar> + 1"
    using fl_finite [of "x / b"] x(2) n by fastforce
  have "\<bar>r\<bar> \<le> 2 ^ 70" using r(2) \<open>\<bar>x / b\<bar> \<le> \<bar>x\<bar>\<close> x(2) n by simp
  moreover have "0 \<le> r" if "0 \<le> n"
  proof -
    have "0 \<le> x" using x(1) that fl_small [of "rat_of_int n"] n by (auto simp: float_of_int_def)
    then have "0 \<le> x / b" using assms(2) by simp
    moreover have "x / b \<le> 2 * 2 ^ 63 + 1"
      using \<open>\<bar>x / b\<bar> \<le> \<bar>x\<bar>\<close> x(2) n abs_ge_self [of "x / b"] by linarith
    then have "x / b \<le> 2 ^ 200" by (rule order_trans) simp
    ultimately show ?thesis using fl_small [of "x / b"] r(1) by auto
  qed
  ultimately show ?thesis using x(1) r(1) assms(2) by auto
qed

lemma response_ms_valid: "0 \<le> d \<Longrightarrow> d \<le> max_duration \<Longrightarrow> valid_rate (response_ms d)"
proof -
  assume d: "0 \<le> d" "d \<le> max_duration"
  then have "\<bar>trunc_quot d 1000\<bar> \<le> 2 ^ 63" "0 \<le> trunc_quot d 1000"
    by (auto simp: trunc_quot_def max_duration_def sgn_if)
  then show ?thesis using finite_quotient [of "trunc_quot d 1000" 1000] by (auto simp: response_ms_def valid_rate_iff)
qed

lemma tls_days_finite: "\<exists>r. fdiv (dur_hours (time_sub t u)) (Fin 24) = Fin r"
proof -
  let ?d = "time_sub t u"
  let ?h = "trunc_quot ?d hour"
  let ?n = "?d - ?h * hour"
  have d: "\<bar>?d\<bar> \<le> 2 ^ 63" by (auto simp: time_sub_def max_duration_def min_duration_def)
  have h: "\<bar>?h\<bar> < 2 ^ 53" using d by (auto simp: trunc_quot_def abs_mult sgn_if duration_defs)
  have n: "\<bar>?n\<bar> \<le> 2 ^ 63" using trunc_rest [of hour ?d] by (simp add: duration_defs)
  obtain r where r: "fdiv (float_of_int ?n) (Fin 3600000000000) = Fin r" "\<bar>r\<bar> \<le> 2 ^ 70"
    using finite_quotient [OF n, of 3600000000000] by auto
  have "\<bar>(of_int ?h :: rat)\<bar> \<le> 2 ^ 53" using abs_of_int_le [of ?h "2 ^ 53"] h by simp
  then have "\<bar>of_int ?h + r\<bar> \<le> 2 ^ 80" using abs_triangle_ineq [of "of_int ?h" r] r(2) by simp
  then obtain x where x: "fl (of_int ?h + r) = Fin x" "\<bar>x\<bar> \<le> 2 ^ 90" using fl_finite [of "of_int ?h + r"] by fastforce
  have "dur_hours ?d = Fin x"
    unfolding dur_hours_def Let_def float_of_int_exact [OF h] r(1) by (simp add: x(1))
  moreover obtain y where "fl (x / 24) = Fin y" using fl_finite [of "x / 24"] x(2) by (fastforce simp: abs_divide)
  ultimately show ?thesis by simp
qed

text \<open>What the code relies on from its surroundings for a result to be accepted: the lengths it does not cut
  and the names it does not check.\<close>

definition units_fit :: "(nat \<Rightarrow> string + string) \<Rightarrow> bool" where
  "units_fit outcome \<longleftrightarrow> (\<forall>i output line key v. outcome i = Inr output \<and> line \<in> set (fst (scan_lines output)) \<and>
     cut_equals line = Some (key, v) \<longrightarrow> length v \<le> 64)"

definition containers_fit :: "docker_outcome \<Rightarrow> bool" where
  "containers_fit outcome \<longleftrightarrow> (\<forall>payload d. outcome = DockerListed payload \<and> d \<in> set payload \<longrightarrow>
     valid_check_name (ct_name (container_of d)) \<and> length (do_state d) \<le> 64)"

definition http_fits :: "url_parser \<Rightarrow> go_lib \<Rightarrow> url_printer \<Rightarrow> http_io \<Rightarrow> http_check \<Rightarrow> bool" where
  "http_fits puri lib text io def \<longleftrightarrow>
     length (sanitized_url lib text (hc_url def)) \<le> 2048 \<and>
     (\<exists>u. puri (sanitized_url lib text (hc_url def)) = Some u \<and> redacted_url u) \<and>
     0 \<le> hi_elapsed io \<and> hi_elapsed io \<le> max_duration \<and>
     length (hs_error (check_http lib text io def)) \<le> 512 \<and>
     (\<forall>a. hi_outcome io = Inr a \<longrightarrow> 0 \<le> ha_status a \<and> ha_status a \<le> 999)"

definition tcp_fits :: "tcp_io \<Rightarrow> tcp_check \<Rightarrow> bool" where
  "tcp_fits io def \<longleftrightarrow> length (tc_address def) \<le> 512 \<and> 0 \<le> ti_elapsed io \<and> ti_elapsed io \<le> max_duration"

lemma unit_lines_ok:
  "\<forall>line \<in> set ls. \<forall>key v. cut_equals line = Some (key, v) \<longrightarrow> length v \<le> 64 \<Longrightarrow>
   length (svc_active_state item) \<le> 64 \<Longrightarrow> length (svc_sub_state item) \<le> 64 \<Longrightarrow>
   length (svc_active_state (unit_lines ls item)) \<le> 64 \<and> length (svc_sub_state (unit_lines ls item)) \<le> 64 \<and>
   svc_name (unit_lines ls item) = svc_name item \<and> svc_error (unit_lines ls item) = svc_error item"
proof (induction ls arbitrary: item)
  case (Cons line ls)
  then show ?case by (auto split: option.splits)
qed simp

lemma check_unit_valid:
  assumes "valid_check_name service"
    and "\<forall>output line key v. outcome = Inr output \<and> line \<in> set (fst (scan_lines output)) \<and> cut_equals line = Some (key, v) \<longrightarrow>
      length v \<le> 64"
  shows "validate_service (check_unit service outcome) = None"
proof (cases outcome)
  case (Inl e)
  then show ?thesis using assms(1) by (simp add: check_unit_def validate_service_def)
next
  case (Inr out)
  obtain ls too_long where ls: "scan_lines out = (ls, too_long)" by force
  let ?item = "unit_lines ls \<lparr>svc_name = service, svc_active_state = [], svc_sub_state = [], svc_error = []\<rparr>"
  have "length (svc_active_state ?item) \<le> 64" "length (svc_sub_state ?item) \<le> 64" "svc_name ?item = service" "svc_error ?item = []"
    using unit_lines_ok [of ls "\<lparr>svc_name = service, svc_active_state = [], svc_sub_state = [], svc_error = []\<rparr>"] assms(2) Inr ls
    by auto
  then show ?thesis using assms(1) Inr ls by (simp add: check_unit_def validate_service_def Let_def)
qed

lemma docker_health_short: "\<not> 64 < length (docker_health s)"
  by (auto simp: docker_health_def Let_def trim_prefix_def split: option.splits)

lemma container_valid:
  "valid_check_name (ct_name (container_of d)) \<Longrightarrow> length (do_state d) \<le> 64 \<Longrightarrow> validate_container (container_of d) = None"
  using docker_health_short by (simp add: validate_container_def container_of_def short_id_def)

lemma check_http_valid:
  assumes "valid_check_name (hc_name def)" and "http_fits puri lib text io def"
  shows "validate_http puri (check_http lib text io def) = None"
proof -
  obtain u where u: "puri (sanitized_url lib text (hc_url def)) = Some u" "redacted_url u"
    using assms(2) by (auto simp: http_fits_def)
  have fields: "hs_name (check_http lib text io def) = hc_name def"
      "hs_url (check_http lib text io def) = sanitized_url lib text (hc_url def)"
    by (simp_all add: check_http_def Let_def split: option.splits sum.splits)
  have zero: "valid_rate (Fin 0)" by (simp add: valid_rate_iff)
  have rate: "valid_rate (hs_response_ms (check_http lib text io def))"
    using assms(2) response_ms_valid [of "hi_elapsed io"] zero
    by (simp add: check_http_def http_fits_def Let_def split: option.splits sum.splits)
  have status: "0 \<le> hs_status_code (check_http lib text io def)" "hs_status_code (check_http lib text io def) \<le> 999"
    using assms(2) by (simp_all add: check_http_def http_fits_def Let_def split: option.splits sum.splits)
  have tls: "\<not> is_nan d \<and> \<not> is_inf d" if "hs_tls_days_left (check_http lib text io def) = Some d" for d
  proof -
    have "\<exists>t v. d = fdiv (dur_hours (time_sub t v)) (Fin 24)"
      using that by (auto simp: check_http_def Let_def split: option.splits sum.splits)
    then obtain t v where "d = fdiv (dur_hours (time_sub t v)) (Fin 24)" by blast
    then show ?thesis using tls_days_finite [of t v] by auto
  qed
  show ?thesis
    using assms u fields rate status tls
    by (auto simp: validate_http_def http_fits_def first_some_None split: option.splits)
qed

lemma check_tcp_valid:
  "valid_check_name (tc_name def) \<Longrightarrow> split_host_port (tc_address def) \<noteq> None \<Longrightarrow> tcp_fits io def \<Longrightarrow>
    validate_tcp (check_tcp io def) = None"
  using response_ms_valid [of "ti_elapsed io"]
  by (auto simp: validate_tcp_def check_tcp_def tcp_fits_def first_some_None Let_def split: option.splits)

subsection \<open>The agent's own reports\<close>

definition checks_fit :: "url_parser \<Rightarrow> go_lib \<Rightarrow> url_printer \<Rightarrow> agent_config \<Rightarrow> checks_io \<Rightarrow> bool" where
  "checks_fit puri lib text c io \<longleftrightarrow> units_fit (ki_units io) \<and> containers_fit (ki_docker io) \<and>
     (\<forall>status. ki_docker io = DockerHttp status \<longrightarrow> 0 \<le> status \<and> status < 1000) \<and>
     (\<forall>i < length (ac_http_checks c). http_fits puri lib text (ki_http io i) (ac_http_checks c ! i)) \<and>
     (\<forall>i < length (ac_tcp_checks c). tcp_fits (ki_tcp io i) (ac_tcp_checks c ! i))"

lemma enumerate_all: "(\<forall>x \<in> set (map (\<lambda>(i, y). f i y) (enumerate 0 ys)). P x) \<longleftrightarrow> (\<forall>i < length ys. P (f i (ys ! i)))"
proof -
  have "(\<forall>p \<in> set (enumerate 0 ys). P (f (fst p) (snd p))) \<longleftrightarrow> (\<forall>i < length ys. P (f i (ys ! i)))"
  proof (intro iffI allI impI)
    fix i assume all: "\<forall>p \<in> set (enumerate 0 ys). P (f (fst p) (snd p))" and i: "i < length ys"
    have "(i, ys ! i) \<in> set (enumerate 0 ys)" using i by (simp add: in_set_enumerate_eq)
    then show "P (f i (ys ! i))" using all by force
  qed (auto simp: in_set_enumerate_eq)
  then show ?thesis by (simp add: split_beta)
qed

lemma loaded_checks:
  assumes "load_agent lib yaml getenv = Inr c"
  shows "valid_agent_id (ac_agent_id c) \<and> length (ac_systemd_services c) \<le> 32 \<and> length (ac_http_checks c) \<le> 32 \<and>
    length (ac_tcp_checks c) \<le> 32 \<and> (\<forall>s \<in> set (ac_systemd_services c). valid_check_name s) \<and>
    (\<forall>h \<in> set (ac_http_checks c). valid_check_name (hc_name h)) \<and>
    (\<forall>t \<in> set (ac_tcp_checks c). valid_check_name (tc_name t) \<and> split_host_port (tc_address t) \<noteq> None)"
proof -
  obtain c2 seen where s: "agent_settings_error lib c2 = None" and c: "c = agent_normalised c2" and k: "agent_checks lib c = Inr seen"
    by (rule load_agent_cases [OF assms])
  note e = s [unfolded agent_settings_error_def first_some_None_Cons fail_if_None]
  have "valid_agent_id (ac_agent_id c2)" "length (ac_systemd_services c2) \<le> 32" "length (ac_http_checks c2) \<le> 32"
      "length (ac_tcp_checks c2) \<le> 32"
    using e by (simp_all add: not_less)
  then show ?thesis using agent_checks_ok [OF k] unfolding c by (simp add: agent_normalised_def)
qed

lemma checks_valid:
  assumes "load_agent lib yaml getenv = Inr c" and "checks_fit puri lib text c io"
  defines "r \<equiv> collect_checks lib text c io"
  shows "length (cr_services r) \<le> MaxChecks" "length (cr_http r) \<le> MaxChecks" "length (cr_tcp r) \<le> MaxChecks"
    "length (dk_containers (cr_docker r)) \<le> MaxChecks" "length (dk_error (cr_docker r)) \<le> 512"
    "\<forall>x \<in> set (cr_services r). validate_service x = None"
    "\<forall>x \<in> set (dk_containers (cr_docker r)). validate_container x = None"
    "\<forall>x \<in> set (cr_http r). validate_http puri x = None" "\<forall>x \<in> set (cr_tcp r). validate_tcp x = None"
proof -
  note l = loaded_checks [OF assms(1)] and fit = assms(2) [unfolded checks_fit_def]
  show "length (cr_services r) \<le> MaxChecks" "length (cr_http r) \<le> MaxChecks" "length (cr_tcp r) \<le> MaxChecks"
    using l by (simp_all add: r_def collect_checks_def collect_systemd_def collect_http_def collect_tcp_def MaxChecks_def)
  show "length (dk_containers (cr_docker r)) \<le> MaxChecks"
    by (simp add: r_def collect_checks_def collect_docker_def Let_def split: docker_outcome.split)
  have "length (format_int status) \<le> 3" if "0 \<le> status" "status < 1000" for status
    using that length_dec [of 3 "nat status"] by (simp add: format_int_def)
  then show "length (dk_error (cr_docker r)) \<le> 512"
    using fit by (force simp: r_def collect_checks_def collect_docker_def Let_def split: docker_outcome.split)
  show "\<forall>x \<in> set (cr_services r). validate_service x = None"
    unfolding r_def collect_checks_def collect_systemd_def check_results.simps enumerate_all
    using l fit by (auto intro!: check_unit_valid simp: units_fit_def)
  show "\<forall>x \<in> set (dk_containers (cr_docker r)). validate_container x = None"
    using fit by (auto simp: r_def collect_checks_def collect_docker_def Let_def containers_fit_def
        split: docker_outcome.splits intro!: container_valid dest!: in_set_takeD)
  show "\<forall>x \<in> set (cr_http r). validate_http puri x = None"
    unfolding r_def collect_checks_def collect_http_def check_results.simps enumerate_all
    using l fit by (auto intro!: check_http_valid)
  show "\<forall>x \<in> set (cr_tcp r). validate_tcp x = None"
    unfolding r_def collect_checks_def collect_tcp_def check_results.simps enumerate_all
    using l fit by (auto intro!: check_tcp_valid)
qed


subsection \<open>A valid report\<close>

definition demo_checks_io :: checks_io where
  "demo_checks_io = \<lparr>ki_units = (\<lambda>_. Inl ''exit status 1''), ki_docker = DockerFailed [],
     ki_http = (\<lambda>_. \<lparr>hi_request_error = None, hi_elapsed = 5 * millisecond,
       hi_outcome = Inr \<lparr>ha_status = 200, ha_not_after = None, ha_now = 0\<rparr>\<rparr>),
     ki_tcp = (\<lambda>_. \<lparr>ti_elapsed = millisecond, ti_error = None\<rparr>)\<rparr>"

lemma demo_checks_fit: "checks_fit demo_url demo_lib (\<lambda>raw u. raw) demo_agent_config demo_checks_io"
proof -
  have url: "demo_url ''https://mon.example/shop'' = Some \<lparr>url_scheme = ''https'', url_user = False, url_host = ''mon.example'',
       url_path = ''/shop'', url_raw_query = [], url_fragment = []\<rparr>"
    by (simp add: demo_url_def has_prefix_def)
  have config: "ac_http_checks demo_agent_config = [\<lparr>hc_name = ''shop'', hc_url = ''https://mon.example/shop'', hc_timeout = 3 * second\<rparr>]"
    "ac_tcp_checks demo_agent_config = [\<lparr>tc_name = ''db'', tc_address = ''127.0.0.1:8080'', tc_timeout = second\<rparr>]"
    by (simp_all add: demo_agent_config_def agent_normalised_def demo_agent_yaml_def default_timeout_def second_def)
  have safe: "sanitized_url demo_lib (\<lambda>raw u. raw) ''https://mon.example/shop'' = ''https://mon.example/shop''"
    using url by (simp add: sanitized_url_def demo_lib_def)
  show ?thesis
    by (simp add: checks_fit_def config demo_checks_io_def units_fit_def containers_fit_def http_fits_def tcp_fits_def
        safe url redacted_url_def check_http_def max_duration_def millisecond_def Let_def)
qed

lemma demo_names_fit: "names_fit (demo_readings cpu [] t)"
  by (simp add: names_fit_def demo_readings_def demo_text_def text_eval parse_disk_stats_def parse_network_stats_def)


text \<open>The one that \<open>checks_fit\<close> has to exclude most often: Docker lists a container under the names its links give
  it as well, and such a name, with a slash in it, is refused, with the whole report.\<close>

lemma linked_container_refused:
  assumes "do_names d = ''/web/db'' # names" and "d \<in> set listed" and "dk_containers (rep_docker r) = map container_of listed"
  shows "validate puri r now skew age \<noteq> None"
proof -
  have "ct_name (container_of d) = ''web/db''" using assms(1) by (simp add: container_of_def trim_prefix_def has_prefix_def)
  moreover have "\<not> valid_check_name ''web/db''" by code_simp
  ultimately have "validate_container (container_of d) \<noteq> None" by (simp add: validate_container_def)
  then have "\<not> (\<forall>x \<in> set (dk_containers (rep_docker r)). validate_container x = None)" using assms(2,3) by auto
  then show ?thesis unfolding validate_def first_some_None by auto
qed

end
