(* ===== verification/Web.thy ===== *)
theory Web
  imports Config GoFmt
begin

text \<open>
  The helpers of the HTTP server (\<open>internal/server/server.go\<close>): who a request comes from, whether it comes
  from the server's own pages, the bearer token of an agent, names and ranges in queries, and the texts of
  the pages.
\<close>

unbundle bit_operations_syntax

subsection \<open>Requests\<close>

text \<open>What the handlers read of a request.  A header that is not set reads as the empty string; \<open>rq_form\<close> is
  the parsed form (\<open>None\<close> when it cannot be parsed or is too long), a function from fields to values.\<close>

record request =
  rq_remote_addr :: string
  rq_host :: string
  rq_origin :: string
  rq_forwarded_for :: string
  rq_authorization :: string
  rq_cookie :: "string option"
  rq_body :: string
  rq_form :: "(string \<Rightarrow> string) option"
  rq_query :: "string \<Rightarrow> string"
  rq_path_id :: string

subsection \<open>Addresses\<close>

text \<open>\<open>IP.To4\<close> and \<open>IPNet.Contains\<close>.\<close>

definition to4 :: "nat list \<Rightarrow> nat list option" where
  "to4 ip = (if length ip = 4 then Some ip
     else if length ip = 16 \<and> take 12 ip = replicate 10 0 @ [255, 255] then Some (drop 12 ip) else None)"

definition network_mask :: "nat list \<times> nat list \<Rightarrow> (nat list \<times> nat list) option" where
  "network_mask n = (case n of (ip0, m) \<Rightarrow>
     (let ip = (case to4 ip0 of Some v \<Rightarrow> v | None \<Rightarrow> ip0) in
      if to4 ip0 = None \<and> length ip0 \<noteq> 16 then None
      else if length m = 4 then (if length ip = 4 then Some (ip, m) else None)
      else if length m = 16 then Some (ip, if length ip = 4 then drop 12 m else m)
      else None))"

definition ip_contains :: "nat list \<times> nat list \<Rightarrow> nat list \<Rightarrow> bool" where
  "ip_contains n ip0 =
     (let ip = (case to4 ip0 of Some v \<Rightarrow> v | None \<Rightarrow> ip0) in
      case network_mask n of
        None \<Rightarrow> ip = []
      | Some (nn, m) \<Rightarrow> length ip = length nn \<and>
          list_all (\<lambda>i. nn ! i AND m ! i = ip ! i AND m ! i) [0..<length ip])"

definition client_ip :: "go_lib \<Rightarrow> (nat list \<times> nat list) option \<Rightarrow> request \<Rightarrow> string" where
  "client_ip lib trusted_proxy r =
     (let host = (case split_host_port (rq_remote_addr r) of None \<Rightarrow> rq_remote_addr r | Some (h, _) \<Rightarrow> h) in
      case (trusted_proxy, gl_parse_ip lib host) of
        (Some proxy, Some remote) \<Rightarrow>
          if ip_contains proxy remote then
            (let forwarded = trim_space (hd (split_byte CHR '','' (rq_forwarded_for r))) in
             if gl_parse_ip lib forwarded \<noteq> None then forwarded else host)
          else host
      | _ \<Rightarrow> host)"

subsection \<open>Origin\<close>

definition valid_origin :: "go_lib \<Rightarrow> string \<Rightarrow> request \<Rightarrow> bool" where
  "valid_origin lib public_url r =
     (let origin = rq_origin r in
      if origin = [] then True
      else case gl_url lib origin of
          None \<Rightarrow> False
        | Some parsed \<Rightarrow>
            if url_user parsed \<or> url_raw_query parsed \<noteq> [] \<or> url_fragment parsed \<noteq> [] \<or>
               (url_path parsed \<noteq> [] \<and> url_path parsed \<noteq> ''/'') then False
            else (case gl_url lib public_url of
                Some expected \<Rightarrow>
                  if url_host expected \<noteq> [] then
                    url_scheme parsed = url_scheme expected \<and> gl_equal_fold lib (url_host parsed) (url_host expected)
                  else gl_equal_fold lib (url_host parsed) (rq_host r)
              | None \<Rightarrow> gl_equal_fold lib (url_host parsed) (rq_host r)))"

subsection \<open>Tokens, names and ranges\<close>

definition bearer_token :: "string \<Rightarrow> string" where
  "bearer_token header =
     (if \<not> has_prefix header ''Bearer '' then [] else trim_space (trim_prefix header ''Bearer ''))"

text \<open>All hashes are tried, also after a match.\<close>

fun verify_any :: "(string \<Rightarrow> string \<Rightarrow> string) \<Rightarrow> string \<Rightarrow> string list \<Rightarrow> bool \<Rightarrow> bool" where
  "verify_any idkey token [] valid = valid"
| "verify_any idkey token (hash # hashes) valid =
     verify_any idkey token hashes (if verify_token idkey token hash then True else valid)"

definition verify_any_token :: "(string \<Rightarrow> string \<Rightarrow> string) \<Rightarrow> string \<Rightarrow> string list \<Rightarrow> bool" where
  "verify_any_token idkey token hashes = verify_any idkey token hashes False"

lemma verify_any_iff: "verify_any idkey token hs v \<longleftrightarrow> v \<or> (\<exists>h \<in> set hs. verify_token idkey token h)"
  by (induction hs arbitrary: v) auto

definition history_ranges :: "string \<Rightarrow> duration option" where
  "history_ranges = map_of [(''1h'', hour), (''24h'', 24 * hour), (''7d'', 7 * 24 * hour),
     (''30d'', 30 * 24 * hour), (''90d'', 90 * 24 * hour)]"

definition valid_agent_name :: "string \<Rightarrow> bool" where
  "valid_agent_name value \<longleftrightarrow> value \<noteq> [] \<and> length value \<le> MaxAgentIDLen \<and> list_all label_char value"

subsection \<open>Texts\<close>

fun join_words :: "string list \<Rightarrow> string" where
  "join_words [] = []"
| "join_words [w] = w"
| "join_words (w # v # ws) = w @ '' '' @ join_words (v # ws)"

definition format_hungarian_duration :: "duration \<Rightarrow> string" where
  "format_hungarian_duration value0 =
     (let value = duration_round value0 minute in
      if value < minute then ''< 1 perc''
      else
        (let days = value div (24 * hour); value1 = value - days * (24 * hour);
             hours = value1 div hour; value2 = value1 - hours * hour; minutes = value2 div minute;
             parts = (if 0 < days then [format_int days @ '' nap''] else []) @
               (if 0 < hours then [format_int hours @ '' '' @ [CHR 0xC3, CHR 0xB3] @ ''ra''] else []) @
               (if 0 < minutes \<and> days = 0 then [format_int minutes @ '' perc''] else []) in
         if parts = [] then ''0 perc'' else join_words parts))"

text \<open>A number divided by 1024 as often as needed, with its unit (\<open>formatBytes\<close> and the pages' rates).\<close>

fun scale_unit :: "float64 \<Rightarrow> string list \<Rightarrow> string" where
  "scale_unit number [] = format_fixed 1 number"
| "scale_unit number [unit] = format_fixed 1 number @ '' '' @ unit"
| "scale_unit number (unit # next # units) =
     (if fle (Fin 1024) number then scale_unit (fdiv number (Fin 1024)) (next # units)
      else format_fixed 1 number @ '' '' @ unit)"

definition format_bytes :: "u64 \<Rightarrow> string" where
  "format_bytes value = scale_unit (float_of_u64 value) [''B'', ''KiB'', ''MiB'', ''GiB'', ''TiB'']"

definition format_rate :: "float64 \<Rightarrow> string" where
  "format_rate value = scale_unit value [''B/s'', ''KiB/s'', ''MiB/s'', ''GiB/s'']"

definition label_alert_state :: "string \<Rightarrow> string" where
  "label_alert_state value = (case map_of
     [(''pending'', ''v'' @ [CHR 0xC3, CHR 0xA1] @ ''rakozik''),
      (''firing'', ''akt'' @ [CHR 0xC3, CHR 0xAD] @ ''v''),
      (''resolved'', ''megoldva'')] value of
       None \<Rightarrow> value | Some label \<Rightarrow> label)"

definition label_severity :: "string \<Rightarrow> string" where
  "label_severity value = (case map_of
     [(''critical'', ''kritikus''),
      (''warning'', ''figyelmeztet'' @ [CHR 0xC3, CHR 0xA9] @ ''s'')] value of
       None \<Rightarrow> value | Some label \<Rightarrow> label)"

definition label_rule :: "string \<Rightarrow> string" where
  "label_rule value = (case map_of
     [(''cpu_high'', ''magas CPU haszn'' @ [CHR 0xC3, CHR 0xA1] @ ''lat''),
      (''memory_high'', ''magas mem'' @ [CHR 0xC3, CHR 0xB3] @ ''riahaszn'' @ [CHR 0xC3, CHR 0xA1] @ ''lat''),
      (''agent_offline'', ''agent nem el'' @ [CHR 0xC3, CHR 0xA9] @ ''rhet'' @ [CHR 0xC5, CHR 0x91]),
      (''disk_warning'', ''magas lemezhaszn'' @ [CHR 0xC3, CHR 0xA1] @ ''lat''),
      (''disk_critical'', ''kritikus lemezhaszn'' @ [CHR 0xC3, CHR 0xA1] @ ''lat''),
      (''systemd_unavailable'', ''systemd szolg'' @ [CHR 0xC3, CHR 0xA1] @ ''ltat'' @ [CHR 0xC3, CHR 0xA1] @ ''s nem el'' @ [CHR 0xC3, CHR 0xA9] @ ''rhet'' @ [CHR 0xC5, CHR 0x91]),
      (''docker_stopped'', ''Docker kont'' @ [CHR 0xC3, CHR 0xA9] @ ''ner le'' @ [CHR 0xC3, CHR 0xA1] @ ''llt''),
      (''docker_unhealthy'', ''Docker kont'' @ [CHR 0xC3, CHR 0xA9] @ ''ner hib'' @ [CHR 0xC3, CHR 0xA1] @ ''s''),
      (''http_failed'', ''HTTP ellen'' @ [CHR 0xC5, CHR 0x91] @ ''rz'' @ [CHR 0xC3, CHR 0xA9] @ ''s sikertelen''),
      (''tls_expiring'', ''TLS tan'' @ [CHR 0xC3, CHR 0xBA] @ ''s'' @ [CHR 0xC3, CHR 0xAD] @ ''tv'' @ [CHR 0xC3, CHR 0xA1] @ ''ny lej'' @ [CHR 0xC3, CHR 0xA1] @ ''r'')] value of
       None \<Rightarrow> value | Some label \<Rightarrow> label)"

definition label_service_state :: "string \<Rightarrow> string" where
  "label_service_state value = (case map_of
     [(''active'', ''akt'' @ [CHR 0xC3, CHR 0xAD] @ ''v''),
      (''inactive'', ''inakt'' @ [CHR 0xC3, CHR 0xAD] @ ''v''),
      (''failed'', ''hib'' @ [CHR 0xC3, CHR 0xA1] @ ''s''),
      (''unknown'', ''ismeretlen'')] value of
       None \<Rightarrow> value | Some label \<Rightarrow> label)"

definition label_container_state :: "string \<Rightarrow> string" where
  "label_container_state value = (case map_of
     [(''running'', ''fut''),
      (''exited'', ''kil'' @ [CHR 0xC3, CHR 0xA9] @ ''pett''),
      (''created'', ''l'' @ [CHR 0xC3, CHR 0xA9] @ ''trehozva''),
      (''paused'', ''sz'' @ [CHR 0xC3, CHR 0xBC] @ ''neteltetve''),
      (''restarting'', [CHR 0xC3, CHR 0xBA] @ ''jraindul''),
      (''dead'', ''halott''),
      (''healthy'', ''eg'' @ [CHR 0xC3, CHR 0xA9] @ ''szs'' @ [CHR 0xC3, CHR 0xA9] @ ''ges''),
      (''unhealthy'', ''hib'' @ [CHR 0xC3, CHR 0xA1] @ ''s'')] value of
       None \<Rightarrow> value | Some label \<Rightarrow> label)"


end
