(* ===== verification/Broker.thy ===== *)
theory Broker
  imports Prelude
begin

text \<open>
  The event broker of the server (\<open>internal/server/broker.go\<close>): live dashboards subscribe to a channel
  of capacity 8; publishing never blocks, a message for a full channel is dropped.  The identity of a
  channel is a number that is never used again.  The mutex makes the operations atomic.
\<close>

record broker =
  br_next :: nat
  br_subscribers :: "(nat, string list) amap"

definition new_broker :: broker where
  "new_broker = \<lparr>br_next = 0, br_subscribers = []\<rparr>"

definition subscribe :: "broker \<Rightarrow> nat \<times> broker" where
  "subscribe b = (br_next b, \<lparr>br_next = Suc (br_next b), br_subscribers = amap_put (br_next b) [] (br_subscribers b)\<rparr>)"

definition unsubscribe :: "nat \<Rightarrow> broker \<Rightarrow> broker" where
  "unsubscribe channel b = b\<lparr>br_subscribers :=
     (case amap_get (br_subscribers b) channel of None \<Rightarrow> br_subscribers b
      | Some _ \<Rightarrow> amap_del channel (br_subscribers b))\<rparr>"

definition offer :: "string \<Rightarrow> string list \<Rightarrow> string list" where
  "offer message buffer = (if length buffer < 8 then buffer @ [message] else buffer)"

definition publish :: "string \<Rightarrow> broker \<Rightarrow> broker" where
  "publish message b = b\<lparr>br_subscribers := map (\<lambda>(c, buffer). (c, offer message buffer)) (br_subscribers b)\<rparr>"

text \<open>Receiving from a channel, as the event stream does; nothing arrives on an empty one.\<close>

definition receive :: "nat \<Rightarrow> broker \<Rightarrow> string option \<times> broker" where
  "receive channel b =
     (case amap_get (br_subscribers b) channel of
        Some (m # rest) \<Rightarrow> (Some m, b\<lparr>br_subscribers := amap_put channel rest (br_subscribers b)\<rparr>)
      | _ \<Rightarrow> (None, b))"

subsection \<open>Histories\<close>

datatype broker_call = Subscribe | Unsubscribe nat | Publish string | Receive nat

fun broker_do :: "broker_call \<Rightarrow> broker \<Rightarrow> broker" where
  "broker_do Subscribe b = snd (subscribe b)"
| "broker_do (Unsubscribe c) b = unsubscribe c b"
| "broker_do (Publish m) b = publish m b"
| "broker_do (Receive c) b = snd (receive c b)"

text \<open>What a channel delivers, what was published, and how many messages were dropped for it.\<close>

fun delivered :: "nat \<Rightarrow> broker_call list \<Rightarrow> broker \<Rightarrow> string list" where
  "delivered c [] b = []"
| "delivered c (x # xs) b =
     (case x of Receive k \<Rightarrow> if k = c then (case fst (receive c b) of None \<Rightarrow> [] | Some m \<Rightarrow> [m]) else [] | _ \<Rightarrow> []) @
     delivered c xs (broker_do x b)"

fun published :: "broker_call list \<Rightarrow> string list" where
  "published [] = []"
| "published (Publish m # xs) = m # published xs"
| "published (_ # xs) = published xs"

definition buffered :: "nat \<Rightarrow> broker \<Rightarrow> string list" where
  "buffered c b = (case amap_get (br_subscribers b) c of None \<Rightarrow> [] | Some q \<Rightarrow> q)"

fun never_full :: "nat \<Rightarrow> broker_call list \<Rightarrow> broker \<Rightarrow> bool" where
  "never_full c [] b = True"
| "never_full c (x # xs) b =
     ((case x of Publish _ \<Rightarrow> length (buffered c b) < 8 | _ \<Rightarrow> True) \<and> never_full c xs (broker_do x b))"

definition broker_run :: "broker_call list \<Rightarrow> broker \<Rightarrow> broker" where
  "broker_run xs b = fold broker_do xs b"

subsection \<open>Lemmas\<close>

definition broker_ok :: "broker \<Rightarrow> bool" where
  "broker_ok b \<longleftrightarrow> amap_wf (br_subscribers b) \<and>
     (\<forall>c q. amap_get (br_subscribers b) c = Some q \<longrightarrow> c < br_next b \<and> length q \<le> 8)"

lemma get_publish:
  "amap_get (map (\<lambda>(c, q). (c, f q)) m) c = map_option f (amap_get m c)"
  by (induction m) (auto simp: amap_get_def)

lemma wf_publish: "amap_wf (map (\<lambda>(c, q). (c, f q)) m) = amap_wf m"
  by (simp add: amap_wf_def comp_def case_prod_beta)

lemma broker_do_ok [inv_intros]: "broker_ok b \<Longrightarrow> broker_ok (broker_do x b)"
proof (cases x)
  case Subscribe
  then show "broker_ok b \<Longrightarrow> ?thesis"
    by (auto simp: broker_ok_def subscribe_def amap.wf_put amap.get_put less_Suc_eq split: if_splits)
next
  case (Unsubscribe c)
  then show "broker_ok b \<Longrightarrow> ?thesis"
    by (auto simp: broker_ok_def unsubscribe_def amap.wf_del amap.get_del split: option.splits if_splits)
next
  case (Publish m)
  have "length q \<le> 8 \<Longrightarrow> length (offer m q) \<le> 8" for q by (simp add: offer_def)
  then show "broker_ok b \<Longrightarrow> ?thesis" using Publish
    by (auto simp: broker_ok_def publish_def get_publish wf_publish)
next
  case (Receive c)
  then show "broker_ok b \<Longrightarrow> ?thesis"
    by (fastforce simp: broker_ok_def receive_def amap.wf_put amap.get_put split: option.splits list.splits if_splits)
qed

text \<open>The calls of others do not touch a channel; publishing and receiving move its queue.\<close>

lemma channel_step:
  assumes ok: "broker_ok b" and q: "amap_get (br_subscribers b) c = Some q" and x: "x \<noteq> Unsubscribe c"
  shows "amap_get (br_subscribers (broker_do x b)) c = Some (case x of
      Publish m \<Rightarrow> offer m q | Receive k \<Rightarrow> if k = c then tl q else q | _ \<Rightarrow> q)"
proof (cases x)
  case Subscribe
  have "c \<noteq> br_next b" using ok q by (auto simp: broker_ok_def)
  then show ?thesis using q Subscribe by (simp add: subscribe_def amap.get_put)
next
  case (Unsubscribe k)
  then show ?thesis using q x by (auto simp: unsubscribe_def amap.get_del split: option.splits)
next
  case (Publish m)
  then show ?thesis using q by (simp add: publish_def get_publish)
next
  case (Receive k)
  then show ?thesis using q by (auto simp: receive_def amap.get_put split: option.splits list.splits)
qed

lemma channel_run:
  assumes "broker_ok b" "amap_get (br_subscribers b) c = Some q" "Unsubscribe c \<notin> set xs"
  shows "subseq (delivered c xs b @ buffered c (broker_run xs b)) (q @ published xs) \<and>
    length (buffered c (broker_run xs b)) \<le> 8 \<and>
    (never_full c xs b \<longrightarrow> delivered c xs b @ buffered c (broker_run xs b) = q @ published xs)"
  using assms
proof (induction xs arbitrary: b q)
  case Nil
  then show ?case by (simp add: broker_run_def buffered_def broker_ok_def)
next
  case (Cons x xs)
  have x: "x \<noteq> Unsubscribe c" "Unsubscribe c \<notin> set xs" using Cons.prems(3) by auto
  note ok = broker_do_ok [OF Cons.prems(1), of x]
  have run: "broker_run (x # xs) b = broker_run xs (broker_do x b)" by (simp add: broker_run_def)
  note ih = Cons.IH [OF ok channel_step [OF Cons.prems(1,2) x(1)] x(2)]
  have buf: "buffered c b = q" using Cons.prems(2) by (simp add: buffered_def)
  show ?case
  proof (cases x)
    case (Publish m)
    have le: "subseq (offer m q @ published xs) (q @ m # published xs)"
      by (simp add: offer_def subseq_append' list_emb_Cons)
    show ?thesis
    proof (cases "length q < 8")
      case True
      then show ?thesis using ih buf Publish unfolding run by (simp add: offer_def)
    next
      case False
      then show ?thesis using ih buf Publish subseq_order.trans [OF _ le] unfolding run by simp
    qed
  next
    case (Receive k)
    show ?thesis
    proof (cases "k = c \<and> q \<noteq> []")
      case True
      then obtain m rest where q: "q = m # rest" by (cases q) auto
      have "fst (receive c b) = Some m" using Cons.prems(2) q by (simp add: receive_def)
      then show ?thesis using ih True q Receive unfolding run by simp
    next
      case False
      then have "k = c \<Longrightarrow> fst (receive c b) = None" using Cons.prems(2) by (simp add: receive_def)
      then show ?thesis using ih False Receive unfolding run by (cases "k = c") auto
    qed
  next
    case Subscribe
    then show ?thesis using ih unfolding run by auto
  next
    case (Unsubscribe k)
    then show ?thesis using ih unfolding run by auto
  qed
qed

subsection \<open>Properties\<close>

text \<open>C39. A live dashboard sees the events published since it subscribed, in order: whatever other
  subscribers do, what its channel has delivered and still holds is a subsequence of what was published;
  at most 8 messages wait; and nothing is missing as long as fewer than 8 messages were waiting whenever one
  was published.  A subscriber that does not read never delays the publisher or another subscriber.\<close>

theorem broker_delivers_in_order:
  assumes "broker_ok b" and "subscribe b = (c, b1)" and "Unsubscribe c \<notin> set xs"
  shows "subseq (delivered c xs b1 @ buffered c (broker_run xs b1)) (published xs) \<and>
    length (buffered c (broker_run xs b1)) \<le> 8 \<and>
    (never_full c xs b1 \<longrightarrow> delivered c xs b1 @ buffered c (broker_run xs b1) = published xs)"
proof -
  have b1: "b1 = broker_do Subscribe b" "c = br_next b" using assms(2) by (auto simp: subscribe_def)
  have "amap_get (br_subscribers b1) c = Some []" using b1 by (simp add: subscribe_def amap.get_put)
  then show ?thesis using channel_run [OF broker_do_ok [OF assms(1), of Subscribe, folded b1(1)] _ assms(3), of "[]"] by simp
qed

theorem broker_delivers_in_order_witness:
  "delivered 0 [Publish ''a'', Receive 0, Publish ''b'', Subscribe] (snd (subscribe new_broker)) @
   buffered 0 (broker_run [Publish ''a'', Receive 0, Publish ''b'', Subscribe] (snd (subscribe new_broker))) = [''a'', ''b'']"
  using broker_delivers_in_order [of new_broker 0 _ "[Publish ''a'', Receive 0, Publish ''b'', Subscribe]"]
  by (simp add: broker_ok_def new_broker_def amap_defs subscribe_def buffered_def publish_def receive_def offer_def)

end
