(* ===== verification/Session.thy ===== *)
theory Session
  imports GoTime
begin

text \<open>
  The server's login sessions (\<open>internal/auth/session.go\<close>).  Sessions are stored under the HMAC of
  their token; the HMAC with the server's secret is the argument \<open>mac\<close>, the random strings and the
  cookie of the request are inputs (\<open>None\<close> when the source of randomness fails, or when there is
  no cookie).  \<open>time.Now()\<close> is an argument.
\<close>

record session =
  se_csrf :: string
  se_created_at :: gotime
  se_last_active :: gotime

record sessions =
  ss_items :: "(string, session) amap"
  ss_idle :: duration
  ss_lifetime :: duration
  ss_secure :: bool

datatype session_error = NoRandomness | CapacityReached

text \<open>The cookie a response sets: value, \<open>MaxAge\<close> in seconds, \<open>Secure\<close>; \<open>HttpOnly\<close>, \<open>Path=/\<close> and
  \<open>SameSite=Strict\<close> are the same in both places.\<close>

record cookie =
  ck_value :: string
  ck_max_age :: int
  ck_secure :: bool

definition new_sessions :: "duration \<Rightarrow> duration \<Rightarrow> bool \<Rightarrow> sessions" where
  "new_sessions idle lifetime secure =
     \<lparr>ss_items = [], ss_idle = idle, ss_lifetime = lifetime, ss_secure = secure\<rparr>"

definition session_expired :: "gotime \<Rightarrow> sessions \<Rightarrow> session \<Rightarrow> bool" where
  "session_expired now s x \<longleftrightarrow>
     ss_idle s < time_sub now (se_last_active x) \<or> ss_lifetime s < time_sub now (se_created_at x)"

definition cleanup_locked :: "gotime \<Rightarrow> sessions \<Rightarrow> sessions" where
  "cleanup_locked now s = s\<lparr>ss_items := amap_keep (\<lambda>x. \<not> session_expired now s x) (ss_items s)\<rparr>"

definition create_session :: "(string \<Rightarrow> string) \<Rightarrow> gotime \<Rightarrow> string option \<Rightarrow> string option \<Rightarrow> sessions \<Rightarrow>
    (session_error + session \<times> cookie) \<times> sessions" where
  "create_session mac now random_token random_csrf s =
     (case random_token of
        None \<Rightarrow> (Inl NoRandomness, s)
      | Some token \<Rightarrow>
          (case random_csrf of
             None \<Rightarrow> (Inl NoRandomness, s)
           | Some csrf \<Rightarrow>
               (let x = \<lparr>se_csrf = csrf, se_created_at = now, se_last_active = now\<rparr>;
                    s1 = cleanup_locked now s in
                if 10000 \<le> length (ss_items s1) then (Inl CapacityReached, s1)
                else (Inr (x, \<lparr>ck_value = token, ck_max_age = trunc_quot (ss_lifetime s) second,
                               ck_secure = ss_secure s\<rparr>),
                      s1\<lparr>ss_items := amap_put (mac token) x (ss_items s1)\<rparr>))))"

definition get_session :: "(string \<Rightarrow> string) \<Rightarrow> gotime \<Rightarrow> string option \<Rightarrow> sessions \<Rightarrow> session option \<times> sessions" where
  "get_session mac now request_cookie s =
     (case request_cookie of
        None \<Rightarrow> (None, s)
      | Some value \<Rightarrow>
          (let key = mac value in
           case amap_get (ss_items s) key of
             None \<Rightarrow> (None, s\<lparr>ss_items := amap_del key (ss_items s)\<rparr>)
           | Some x \<Rightarrow>
               if session_expired now s x then (None, s\<lparr>ss_items := amap_del key (ss_items s)\<rparr>)
               else (let x1 = x\<lparr>se_last_active := now\<rparr> in
                     (Some x1, s\<lparr>ss_items := amap_put key x1 (ss_items s)\<rparr>))))"

definition delete_session :: "(string \<Rightarrow> string) \<Rightarrow> string option \<Rightarrow> sessions \<Rightarrow> cookie \<times> sessions" where
  "delete_session mac request_cookie s =
     (\<lparr>ck_value = [], ck_max_age = -1, ck_secure = ss_secure s\<rparr>,
      case request_cookie of None \<Rightarrow> s
      | Some value \<Rightarrow> s\<lparr>ss_items := amap_del (mac value) (ss_items s)\<rparr>)"

subsection \<open>Histories\<close>

text \<open>The calls of a server's lifetime, each with the time it runs at.\<close>

datatype session_call =
    CreateCall gotime "string option" "string option"
  | GetCall gotime "string option"
  | DeleteCall gotime "string option"

fun call_time :: "session_call \<Rightarrow> gotime" where
  "call_time (CreateCall t _ _) = t"
| "call_time (GetCall t _) = t"
| "call_time (DeleteCall t _) = t"

fun session_do :: "(string \<Rightarrow> string) \<Rightarrow> session_call \<Rightarrow> sessions \<Rightarrow> sessions" where
  "session_do mac (CreateCall t token csrf) s = snd (create_session mac t token csrf s)"
| "session_do mac (GetCall t c) s = snd (get_session mac t c s)"
| "session_do mac (DeleteCall t c) s = snd (delete_session mac c s)"

definition session_history :: "(string \<Rightarrow> string) \<Rightarrow> session_call list \<Rightarrow> sessions \<Rightarrow> sessions" where
  "session_history mac calls s = fold (session_do mac) calls s"

definition sessions_wf :: "sessions \<Rightarrow> bool" where
  "sessions_wf s \<longleftrightarrow> amap_wf (ss_items s) \<and> length (ss_items s) \<le> 10000"

lemma session_config [simp]:
  "ss_idle (session_do mac c s) = ss_idle s" "ss_lifetime (session_do mac c s) = ss_lifetime s"
  by (cases c; simp add: create_session_def cleanup_locked_def get_session_def delete_session_def
      Let_def split: option.splits)+

lemma session_do_wf [inv_intros]: "sessions_wf s \<Longrightarrow> sessions_wf (session_do mac c s)"
proof (cases c)
  case (CreateCall t token csrf)
  assume s: "sessions_wf s"
  let ?s1 = "cleanup_locked t s"
  have w: "amap_wf (ss_items ?s1)" "length (ss_items ?s1) \<le> 10000"
    using s amap.entries_keep [of _ "ss_items s"] by (auto simp: cleanup_locked_def sessions_wf_def amap.wf_keep
        intro: order_trans)
  moreover have "length (ss_items ?s1) < 10000 \<Longrightarrow> length (amap_put k x (ss_items ?s1)) \<le> 10000" for k x
    using amap.bounded_put [OF w(1,2)] by simp
  ultimately show ?thesis using s CreateCall
    by (simp add: create_session_def sessions_wf_def amap.wf_put Let_def split: option.splits)
next
  case (GetCall t ck)
  assume s: "sessions_wf s"
  have "amap_get (ss_items s) k = Some x \<Longrightarrow> length (amap_put k y (ss_items s)) \<le> 10000" for k x y
    using s amap.bounded_put [of "ss_items s" 10000 k y] by (simp add: sessions_wf_def)
  moreover have "length (amap_del k (ss_items s)) \<le> 10000" for k
    using s amap.entries_del [of k "ss_items s"] by (simp add: sessions_wf_def)
  ultimately show ?thesis using s GetCall
    by (simp add: get_session_def sessions_wf_def amap.wf_put amap.wf_del Let_def split: option.splits)
next
  case (DeleteCall t ck)
  assume s: "sessions_wf s"
  have "length (amap_del k (ss_items s)) \<le> 10000" for k
    using s amap.entries_del [of k "ss_items s"] by (simp add: sessions_wf_def)
  then show ?thesis using s DeleteCall
    by (simp add: delete_session_def sessions_wf_def amap.wf_del split: option.splits)
qed

text \<open>Where a stored session comes from: it was there before with the same token hash, creation time
  and CSRF token, or this call created it; and this call did not delete it.\<close>

lemma session_do_origin:
  assumes "sessions_wf s" "amap_get (ss_items (session_do mac c s)) k = Some x"
  shows "(\<exists>y. amap_get (ss_items s) k = Some y \<and> se_created_at x = se_created_at y \<and> se_csrf x = se_csrf y \<and>
      (\<forall>t v. c = DeleteCall t (Some v) \<longrightarrow> mac v \<noteq> k)) \<or>
    (\<exists>t token. c = CreateCall t (Some token) (Some (se_csrf x)) \<and> mac token = k \<and> se_created_at x = t)"
proof -
  have wf: "amap_wf (ss_items s)" using assms(1) by (simp add: sessions_wf_def)
  show ?thesis
  proof (cases c)
    case (CreateCall t token csrf)
    then show ?thesis using assms(2) wf
      by (auto simp: create_session_def cleanup_locked_def Let_def amap.get_keep amap.get_put
          split: option.splits if_splits)
  next
    case (GetCall t ck)
    then show ?thesis using assms(2)
      by (auto simp: get_session_def Let_def amap.get_put amap.get_del split: option.splits if_splits)
  next
    case (DeleteCall t ck)
    then show ?thesis using assms(2)
      by (auto simp: delete_session_def amap.get_del split: option.splits if_splits)
  qed
qed


lemma history_snoc:
  "session_history mac (calls @ [c]) s = session_do mac c (session_history mac calls s)"
  by (simp add: session_history_def)

lemma history_wf: "sessions_wf s \<Longrightarrow> sessions_wf (session_history mac calls s)"
proof (induction calls rule: rev_induct)
  case Nil
  then show ?case by (simp add: session_history_def)
next
  case (snoc c calls)
  then show ?case by (simp add: history_snoc session_do_wf)
qed

lemma history_config [simp]:
  "ss_idle (session_history mac calls s) = ss_idle s"
  "ss_lifetime (session_history mac calls s) = ss_lifetime s"
  by (induction calls rule: rev_induct) (simp_all add: history_snoc, simp_all add: session_history_def)

text \<open>A session of the table was created by a call of the history, and no later call deleted it.\<close>

definition never_deleted :: "(string \<Rightarrow> string) \<Rightarrow> string \<Rightarrow> session_call list \<Rightarrow> bool" where
  "never_deleted mac key calls \<longleftrightarrow>
     list_all (\<lambda>c. case c of DeleteCall _ (Some v) \<Rightarrow> mac v \<noteq> key | _ \<Rightarrow> True) calls"

lemma history_origin:
  assumes "sessions_wf s" "ss_items s = []"
    and "amap_get (ss_items (session_history mac calls s)) k = Some x"
  shows "\<exists>pre t token post. calls = pre @ CreateCall t (Some token) (Some (se_csrf x)) # post \<and>
    mac token = k \<and> se_created_at x = t \<and> never_deleted mac k post"
  using assms(3)
proof (induction calls arbitrary: x rule: rev_induct)
  case Nil
  then show ?case using assms(2) by (simp add: session_history_def amap_get_def)
next
  case (snoc c calls)
  let ?s = "session_history mac calls s"
  have wf: "sessions_wf ?s" by (rule history_wf [OF assms(1)])
  from session_do_origin [OF wf snoc.prems [unfolded history_snoc]] show ?case
  proof (elim disjE exE conjE)
    fix y
    assume y: "amap_get (ss_items ?s) k = Some y" "se_created_at x = se_created_at y" "se_csrf x = se_csrf y"
      and d: "\<forall>t v. c = DeleteCall t (Some v) \<longrightarrow> mac v \<noteq> k"
    obtain pre token post where o: "calls = pre @ CreateCall (se_created_at y) (Some token) (Some (se_csrf y)) # post"
        "mac token = k" "never_deleted mac k post"
      using snoc.IH [OF y(1)] by auto
    have "never_deleted mac k (post @ [c])"
      using o(3) d by (auto simp: never_deleted_def split: session_call.splits option.splits)
    moreover have "calls @ [c] = pre @ CreateCall (se_created_at x) (Some token) (Some (se_csrf x)) # (post @ [c])"
      using o(1) y(2,3) by simp
    ultimately show ?thesis using o(2) by blast
  next
    fix t token
    assume c: "c = CreateCall t (Some token) (Some (se_csrf x))" "mac token = k" "se_created_at x = t"
    then have "calls @ [c] = calls @ CreateCall t (Some token) (Some (se_csrf x)) # []" by simp
    moreover have "never_deleted mac k []" by (simp add: never_deleted_def)
    ultimately show ?thesis using c by blast
  qed
qed

lemma history_stays_absent:
  assumes "sessions_wf s" "amap_get (ss_items s) k = None"
    and "\<And>t token csrf. CreateCall t (Some token) (Some csrf) \<in> set calls \<Longrightarrow> mac token \<noteq> k"
  shows "amap_get (ss_items (session_history mac calls s)) k = None"
  using assms
proof (induction calls arbitrary: s)
  case Nil
  then show ?case by (simp add: session_history_def)
next
  case (Cons c calls)
  have "amap_get (ss_items (session_do mac c s)) k = None"
  proof (cases "amap_get (ss_items (session_do mac c s)) k")
    case (Some x)
    then show ?thesis using session_do_origin [OF Cons.prems(1), of mac c k x] Cons.prems(2,3) by auto
  qed simp
  then have "amap_get (ss_items (session_history mac calls (session_do mac c s))) k = None"
    by (rule Cons.IH [OF session_do_wf [OF Cons.prems(1)]]) (rule Cons.prems(3), erule list.set_intros(2))
  then show ?case by (simp add: session_history_def)
qed

lemma new_sessions_wf: "sessions_wf (new_sessions idle lifetime secure)"
  by (simp add: sessions_wf_def new_sessions_def amap_wf_def)

subsection \<open>Properties\<close>

text \<open>No session without a login: whatever calls were made since the start of the server, a
  request is recognised only if its cookie has the same hash as a token that an earlier
  \<open>Create\<close> handed out, no \<open>Delete\<close> for it came since, and that creation is no longer ago than the
  lifetime, however active the session was; it then carries the CSRF token of that creation.\<close>

theorem session_only_after_login:
  assumes "get_session mac now (Some value) (session_history mac calls (new_sessions idle lifetime secure))
      = (Some x, s')" and "0 \<le> lifetime" and "lifetime < max_duration"
  shows "\<exists>pre t token post. calls = pre @ CreateCall t (Some token) (Some (se_csrf x)) # post \<and>
    mac token = mac value \<and> never_deleted mac (mac value) post \<and> now - t \<le> lifetime"
proof -
  let ?s = "session_history mac calls (new_sessions idle lifetime secure)"
  obtain y where y: "amap_get (ss_items ?s) (mac value) = Some y" "\<not> session_expired now ?s y"
      "se_csrf x = se_csrf y"
    using assms(1) by (auto simp: get_session_def Let_def split: option.splits if_splits)
  obtain pre t token post where o: "calls = pre @ CreateCall t (Some token) (Some (se_csrf y)) # post"
      "mac token = mac value" "se_created_at y = t" "never_deleted mac (mac value) post"
    using history_origin [OF new_sessions_wf _ y(1)] by (auto simp: new_sessions_def)
  have "ss_lifetime ?s = lifetime" by (simp add: new_sessions_def)
  then have "time_sub now (se_created_at y) \<le> lifetime" using y(2) by (simp add: session_expired_def)
  then have "now - se_created_at y \<le> lifetime" by (simp only: time_sub_le [OF assms(2,3)])
  then show ?thesis using o y(3)
    by (intro exI [of _ pre] exI [of _ t] exI [of _ token] exI [of _ post]) simp
qed

text \<open>A history with two logins, a request and a logout.\<close>

definition demo_history :: "session_call list" where
  "demo_history = [CreateCall 100 (Some ''s1'') (Some ''c1''), CreateCall 150 (Some ''s2'') (Some ''c2''),
     GetCall 160 (Some ''s2''), DeleteCall 170 (Some ''s1'')]"

theorem session_only_after_login_witness:
  "\<exists>pre t token post. demo_history = pre @ CreateCall t (Some token) (Some ''c2'') # post \<and>
    token = ''s2'' \<and> never_deleted (\<lambda>v. v) ''s2'' post \<and> 200 - t \<le> 1000"
proof -
  let ?x = "\<lparr>se_csrf = ''c2'', se_created_at = 150, se_last_active = 200\<rparr>"
  have "fst (get_session (\<lambda>v. v) 200 (Some ''s2'') (session_history (\<lambda>v. v) demo_history (new_sessions 50 1000 True)))
      = Some ?x"
    by code_simp
  then obtain s' where "get_session (\<lambda>v. v) 200 (Some ''s2'')
      (session_history (\<lambda>v. v) demo_history (new_sessions 50 1000 True)) = (Some ?x, s')"
    by (metis prod.collapse)
  then show ?thesis
    using session_only_after_login [of "\<lambda>v. v" 200 "''s2''" demo_history 50 1000 True ?x s']
    by (simp add: max_duration_def)
qed

text \<open>Logging out is final and the table is bounded: after a \<open>Delete\<close> the cookie's token is refused
  at any later time, in every history it stays refused until a new session with the same token hash is
  created, and no history stores more than 10000 sessions.\<close>

theorem logout_is_final:
  assumes "\<And>t token csrf. CreateCall t (Some token) (Some csrf) \<in> set later \<Longrightarrow> mac token \<noteq> mac value"
  shows "fst (get_session mac now (Some value)
      (session_history mac (calls @ DeleteCall t (Some value) # later) (new_sessions idle lifetime secure))) = None \<and>
    length (ss_items (session_history mac calls (new_sessions idle lifetime secure))) \<le> 10000"
proof
  let ?s = "session_history mac calls (new_sessions idle lifetime secure)"
  let ?d = "session_do mac (DeleteCall t (Some value)) ?s"
  have "sessions_wf ?d" by (intro inv_intros history_wf new_sessions_wf)
  moreover have "amap_get (ss_items ?d) (mac value) = None"
    by (simp add: delete_session_def amap.get_del)
  ultimately have "amap_get (ss_items (session_history mac later ?d)) (mac value) = None"
    using history_stays_absent assms by blast
  then show "fst (get_session mac now (Some value) (session_history mac
      (calls @ DeleteCall t (Some value) # later) (new_sessions idle lifetime secure))) = None"
    by (simp add: get_session_def Let_def session_history_def)
  show "length (ss_items ?s) \<le> 10000"
    using history_wf [OF new_sessions_wf] by (simp add: sessions_wf_def)
qed

theorem logout_is_final_witness:
  "fst (get_session (\<lambda>v. v) 200 (Some ''s1'')
      (session_history (\<lambda>v. v) (take 3 demo_history @ DeleteCall 170 (Some ''s1'') # []) (new_sessions 50 1000 True))) = None"
  using logout_is_final [of "[]" "\<lambda>v. v" "''s1''" 200 "take 3 demo_history" 170 50 1000 True] by simp

end
