(* ===== verification/Limiter.thy ===== *)
theory Limiter
  imports GoTime
begin

text \<open>
  The fixed-window rate limiter (\<open>internal/auth/limiter.go\<close>).  A key that is not in the map reads
  as the zero attempt: count 0, since the zero time.  \<open>time.Now()\<close> is an argument.
\<close>

record attempt_record =
  at_count :: int
  at_since :: gotime

record limiter =
  lm_items :: "(string, attempt_record) amap"
  lm_limit :: int
  lm_window :: duration
  lm_max_keys :: int
  lm_last_cleanup :: gotime

definition new_limiter :: "int \<Rightarrow> duration \<Rightarrow> gotime \<Rightarrow> limiter" where
  "new_limiter limit window now = \<lparr>lm_items = [], lm_limit = limit, lm_window = window,
     lm_max_keys = 10000, lm_last_cleanup = now\<rparr>"

definition expire_attempts :: "gotime \<Rightarrow> limiter \<Rightarrow> limiter" where
  "expire_attempts now l =
     (if lm_window l \<le> time_sub now (lm_last_cleanup l)
      then l\<lparr>lm_items := amap_keep (\<lambda>existing. \<not> lm_window l \<le> time_sub now (at_since existing)) (lm_items l),
             lm_last_cleanup := now\<rparr>
      else l)"

definition zero_attempt :: attempt_record where
  "zero_attempt = \<lparr>at_count = 0, at_since = 0\<rparr>"

definition read_attempt :: "string \<Rightarrow> limiter \<Rightarrow> attempt_record" where
  "read_attempt key l = (case amap_get (lm_items l) key of None \<Rightarrow> zero_attempt | Some a \<Rightarrow> a)"

definition allow :: "gotime \<Rightarrow> string \<Rightarrow> limiter \<Rightarrow> bool \<times> limiter" where
  "allow now key l0 =
     (let l = expire_attempts now l0; item = read_attempt key l in
      if is_zero_time (at_since item) \<and> lm_max_keys l \<le> int (length (lm_items l)) then (False, l)
      else
        (let item1 = (if lm_window l \<le> time_sub now (at_since item)
                      then \<lparr>at_count = 0, at_since = now\<rparr> else item);
             item2 = item1\<lparr>at_count := at_count item1 + 1\<rparr> in
         (at_count item2 \<le> lm_limit l, l\<lparr>lm_items := amap_put key item2 (lm_items l)\<rparr>)))"

definition reset_key :: "string \<Rightarrow> limiter \<Rightarrow> limiter" where
  "reset_key key l = l\<lparr>lm_items := amap_del key (lm_items l)\<rparr>"

subsection \<open>The invariant\<close>

text \<open>The number of keys is bounded, and every stored window started at a real time no later than
  \<open>now\<close>.\<close>

definition limiter_inv :: "gotime \<Rightarrow> limiter \<Rightarrow> bool" where
  "limiter_inv now l \<longleftrightarrow> amap_wf (lm_items l) \<and> 0 < lm_window l \<and> lm_window l \<le> max_duration \<and>
     0 \<le> lm_limit l \<and> int (length (lm_items l)) \<le> lm_max_keys l \<and>
     (\<forall>k a. amap_get (lm_items l) k = Some a \<longrightarrow> 0 < at_since a \<and> at_since a \<le> now \<and> 0 < at_count a)"

lemma limiter_inv_mono: "limiter_inv t l \<Longrightarrow> t \<le> now \<Longrightarrow> limiter_inv now l"
  by (fastforce simp: limiter_inv_def)

lemma expire_attempts_simps [simp]:
  "lm_limit (expire_attempts now l) = lm_limit l" "lm_window (expire_attempts now l) = lm_window l"
  "lm_max_keys (expire_attempts now l) = lm_max_keys l"
  by (simp_all add: expire_attempts_def)

lemma expire_attempts_get:
  assumes "limiter_inv now l"
  shows "amap_get (lm_items (expire_attempts now l)) k = amap_get (lm_items l) k \<or>
    (\<exists>a. amap_get (lm_items l) k = Some a \<and> lm_window l \<le> now - at_since a \<and>
      amap_get (lm_items (expire_attempts now l)) k = None)"
  using assms
  by (auto simp: expire_attempts_def limiter_inv_def amap.get_keep time_sub_ge split: option.splits)

lemma expire_attempts_inv [inv_intros]:
  assumes "limiter_inv now l"
  shows "limiter_inv now (expire_attempts now l)"
proof -
  have "length (lm_items (expire_attempts now l)) \<le> length (lm_items l)"
    by (simp add: expire_attempts_def amap.entries_keep)
  moreover have "amap_wf (lm_items (expire_attempts now l))"
    using assms by (simp add: limiter_inv_def expire_attempts_def amap.wf_keep)
  moreover have "amap_get (lm_items (expire_attempts now l)) k = Some a \<Longrightarrow>
      amap_get (lm_items l) k = Some a" for k a
    using expire_attempts_get [OF assms, of k] by auto
  ultimately show ?thesis using assms by (fastforce simp: limiter_inv_def)
qed

lemma allow_inv [inv_intros]:
  assumes "limiter_inv now l" "lm_window l \<le> now"
  shows "limiter_inv now (snd (allow now key l))"
proof -
  let ?l = "expire_attempts now l"
  note i = expire_attempts_inv [OF assms(1)]
  let ?item = "read_attempt key ?l"
  show ?thesis
  proof (cases "is_zero_time (at_since ?item) \<and> lm_max_keys ?l \<le> int (length (lm_items ?l))")
    case True
    then show ?thesis using i by (simp add: allow_def Let_def)
  next
    case False
    have room: "amap_get (lm_items ?l) key \<noteq> None \<or> length (lm_items ?l) < nat (lm_max_keys ?l)"
      using False by (auto simp: read_attempt_def zero_attempt_def is_zero_time_def split: option.splits)
    have le: "length (lm_items ?l) \<le> nat (lm_max_keys ?l)" "amap_wf (lm_items ?l)"
      using i by (auto simp: limiter_inv_def)
    have "length (amap_put key v (lm_items ?l)) \<le> nat (lm_max_keys ?l)" for v
      by (rule amap.bounded_put [OF le(2,1) room])
    then have len: "int (length (amap_put key v (lm_items ?l))) \<le> lm_max_keys l" for v
      using i by (simp add: limiter_inv_def) (smt (verit) nat_less_iff of_nat_0_le_iff not_le)
    have old: "0 < at_since ?item" "at_since ?item \<le> now" "0 \<le> at_count ?item"
      if "\<not> lm_window l \<le> time_sub now (at_since ?item)"
    proof -
      show "0 < at_since ?item" "at_since ?item \<le> now" "0 \<le> at_count ?item"
        using that i assms(2)
        by (auto simp: read_attempt_def zero_attempt_def limiter_inv_def time_sub_ge less_imp_le
            split: option.splits)
    qed
    have "0 < now" using i assms(2) by (simp add: limiter_inv_def)
    then show ?thesis using i len amap.wf_put [OF le(2)] False old
      by (auto simp: allow_def Let_def limiter_inv_def amap.get_put split: if_splits)
  qed
qed


lemma allow_simps [simp]:
  "lm_limit (snd (allow now key l)) = lm_limit l" "lm_window (snd (allow now key l)) = lm_window l"
  "lm_max_keys (snd (allow now key l)) = lm_max_keys l"
  by (simp_all add: allow_def Let_def)

subsection \<open>How often a key can pass\<close>

text \<open>The number of calls for a key that are allowed in the interval from \<open>t\<close> (included) to \<open>e\<close>
  (excluded), in a sequence of calls.\<close>

fun granted :: "gotime \<Rightarrow> gotime \<Rightarrow> string \<Rightarrow> (gotime \<times> string) list \<Rightarrow> limiter \<Rightarrow> int" where
  "granted t e k [] l = 0"
| "granted t e k ((now, key) # calls) l =
     (if fst (allow now key l) \<and> key = k \<and> t \<le> now \<and> now < e then 1 else 0) +
     granted t e k calls (snd (allow now key l))"

text \<open>What may have been granted in the interval so far, given the stored attempt.\<close>

definition budget :: "gotime \<Rightarrow> string \<Rightarrow> int \<Rightarrow> limiter \<Rightarrow> bool" where
  "budget t k n l \<longleftrightarrow>
     (case amap_get (lm_items l) k of
        None \<Rightarrow> n \<le> lm_limit l
      | Some a \<Rightarrow> if at_since a < t then n \<le> lm_limit l \<and> n \<le> at_count a
                  else n \<le> lm_limit l + min (lm_limit l) (at_count a))"

lemma budget_le: "limiter_inv u l \<Longrightarrow> budget t k n l \<Longrightarrow> n \<le> 2 * lm_limit l"
  by (auto simp: budget_def limiter_inv_def split: option.splits if_splits)

lemma budget_expire:
  assumes "limiter_inv now l" "budget t k n l" "now < t + lm_window l"
  shows "budget t k n (expire_attempts now l)"
  using expire_attempts_get [OF assms(1), of k] assms(2,3)
  by (auto simp: budget_def split: option.splits if_splits)

lemma allow_other_key:
  "key \<noteq> k \<Longrightarrow> amap_get (lm_items (snd (allow now key l))) k = amap_get (lm_items (expire_attempts now l)) k"
  by (simp add: allow_def Let_def amap.get_put_other)

lemma budget_allow:
  assumes "limiter_inv now l" "lm_window l \<le> now" "budget t k n l" "now < t + lm_window l"
    and "n = 0 \<or> t \<le> now" "0 \<le> n"
  shows "budget t k (n + (if fst (allow now key l) \<and> key = k \<and> t \<le> now then 1 else 0)) (snd (allow now key l))"
proof (cases "key = k")
  case False
  then show ?thesis using budget_expire [OF assms(1,3,4)] allow_other_key [OF False, of now l]
    by (auto simp: budget_def split: option.splits)
next
  case True
  let ?l = "expire_attempts now l"
  note b = budget_expire [OF assms(1,3,4)]
  note i = expire_attempts_inv [OF assms(1)]
  show ?thesis
  proof (cases "amap_get (lm_items ?l) k")
    case None
    then show ?thesis using b i True assms(2,4-6)
      by (auto simp: budget_def allow_def Let_def read_attempt_def zero_attempt_def limiter_inv_def
          amap.get_put time_sub_ge)
  next
    case (Some a)
    then have a: "0 < at_since a" "at_since a \<le> now" "0 < at_count a" using i by (auto simp: limiter_inv_def)
    have w: "0 < lm_window l" "lm_window l \<le> max_duration" using i by (auto simp: limiter_inv_def)
    have out: "allow now key l = (let c = (if lm_window l \<le> now - at_since a
          then \<lparr>at_count = 1, at_since = now\<rparr> else a\<lparr>at_count := at_count a + 1\<rparr>) in
        (at_count c \<le> lm_limit l, ?l\<lparr>lm_items := amap_put k c (lm_items ?l)\<rparr>))"
      using Some True a w
      by (simp add: allow_def Let_def read_attempt_def is_zero_time_def time_sub_ge)
    show ?thesis
    proof (cases "lm_window l \<le> now - at_since a")
      case t: True
      then show ?thesis using b Some True a assms(4-6) out i
        by (auto simp: budget_def amap.get_put limiter_inv_def)
    next
      case False
      then show ?thesis using b Some True a assms(4-6) out i
        by (auto simp: budget_def amap.get_put limiter_inv_def)
    qed
  qed
qed

lemma granted_after: "\<forall>c \<in> set calls. e \<le> fst c \<Longrightarrow> granted t e k calls l = 0"
  by (induction calls arbitrary: l) auto

lemma granted_budget:
  assumes "limiter_inv u l" "lm_window l \<le> u" "sorted (u # map fst calls)" "budget t k n l"
    and "n = 0 \<or> t \<le> u" "0 \<le> n"
  shows "n + granted t (t + lm_window l) k calls l \<le> 2 * lm_limit l"
  using assms
proof (induction calls arbitrary: u l n)
  case Nil
  then show ?case using budget_le by simp
next
  case (Cons c calls)
  obtain now key where c: "c = (now, key)" by force
  have now: "u \<le> now" "sorted (now # map fst calls)" using Cons.prems(3) c by auto
  have inv: "limiter_inv now l" by (rule limiter_inv_mono [OF Cons.prems(1) now(1)])
  show ?case
  proof (cases "now < t + lm_window l")
    case True
    let ?l = "snd (allow now key l)"
    let ?g = "if fst (allow now key l) \<and> key = k \<and> t \<le> now then 1 else 0 :: int"
    have b: "budget t k (n + ?g) ?l"
      by (rule budget_allow) (use Cons.prems inv True now in auto)
    have "(n + ?g) + granted t (t + lm_window ?l) k calls ?l \<le> 2 * lm_limit ?l"
      by (rule Cons.IH [of now, OF allow_inv [OF inv] _ now(2) b]) (use Cons.prems now in auto)
    then show ?thesis using c True by (simp add: add.assoc)
  next
    case False
    then have "\<forall>x \<in> set (c # calls). t + lm_window l \<le> fst x" using now c by auto
    then show ?thesis using granted_after [of "c # calls" "t + lm_window l" t k l]
        budget_le [OF inv Cons.prems(4)] by simp
  qed
qed


subsection \<open>Properties\<close>

lemma new_limiter_inv:
  "0 < window \<Longrightarrow> window \<le> max_duration \<Longrightarrow> 0 \<le> limit \<Longrightarrow> limiter_inv now (new_limiter limit window now)"
  by (simp add: limiter_inv_def new_limiter_def amap_wf_def amap_get_def)

text \<open>C22. The rate limit: however calls for any keys interleave, at most twice the limit of calls for
  one key pass in any interval of one window's length, wherever the interval lies: fixed windows
  can put two full loads around a boundary, and no more than that.\<close>

theorem limiter_bounds_rate:
  assumes "0 < window" and "window \<le> max_duration" and "0 \<le> limit" and "window \<le> start"
    and "sorted (start # map fst calls)"
  shows "granted t (t + window) key calls (new_limiter limit window start) \<le> 2 * limit"
  using granted_budget [of start "new_limiter limit window start" calls t key 0]
    new_limiter_inv [OF assms(1-3)] assms
  by (simp add: new_limiter_def budget_def amap_get_def)

theorem limiter_bounds_rate_witness:
  "granted 109 119 ''a'' [(100, ''a''), (101, ''b''), (109, ''a''), (110, ''a''), (111, ''a'')]
     (new_limiter 2 10 100) \<le> 4"
  using limiter_bounds_rate [of 10 2 100 "[(100, ''a''), (101, ''b''), (109, ''a''), (110, ''a''), (111, ''a'')]"
      109 "''a''"]
  by (simp add: max_duration_def)

fun limiter_run :: "(gotime \<times> string) list \<Rightarrow> limiter \<Rightarrow> limiter" where
  "limiter_run [] l = l"
| "limiter_run ((now, key) # calls) l = limiter_run calls (snd (allow now key l))"

lemma limiter_run_inv:
  "limiter_inv u l \<Longrightarrow> lm_window l \<le> u \<Longrightarrow> sorted (u # map fst calls) \<Longrightarrow>
    limiter_inv (last (u # map fst calls)) (limiter_run calls l) \<and>
    lm_max_keys (limiter_run calls l) = lm_max_keys l \<and> lm_window (limiter_run calls l) = lm_window l"
proof (induction calls arbitrary: u l)
  case (Cons c calls)
  obtain now key where c: "c = (now, key)" by force
  have "limiter_inv now (snd (allow now key l))"
    using Cons.prems c limiter_inv_mono [of u l now] by (intro allow_inv) auto
  then show ?case using Cons.IH [of now "snd (allow now key l)"] Cons.prems c by auto
qed simp

text \<open>The limiter's memory is bounded and it fails closed: after any calls with increasing times
  its map has at most 10000 keys, and while it is full of unexpired keys a call for a new key is
  refused and not recorded.\<close>

theorem limiter_fails_closed:
  assumes "0 < window" and "window \<le> max_duration" and "0 \<le> limit" and "window \<le> start"
    and "sorted (start # map fst calls)"
    and "l = limiter_run calls (new_limiter limit window start)"
  shows "length (lm_items l) \<le> 10000 \<and>
    (length (lm_items l) = 10000 \<and> amap_get (lm_items l) key = None \<and>
     list_all (\<lambda>(k, a). now - at_since a < window) (lm_items l) \<and> last (start # map fst calls) \<le> now \<longrightarrow>
     fst (allow now key l) = False \<and> lm_items (snd (allow now key l)) = lm_items l)"
proof -
  have i: "limiter_inv (last (start # map fst calls)) l" "lm_max_keys l = 10000" "lm_window l = window"
    using limiter_run_inv [OF new_limiter_inv [OF assms(1-3)], of start calls] assms(4-6)
    by (simp_all add: new_limiter_def)
  have "lm_items (expire_attempts now l) = lm_items l"
    if "list_all (\<lambda>(k, a). now - at_since a < window) (lm_items l)"
    using that i(3) assms(1,2)
    by (auto simp: expire_attempts_def amap_keep_def time_sub_ge filter_id_conv list_all_iff)
  then show ?thesis using i
    by (auto simp: limiter_inv_def allow_def Let_def read_attempt_def zero_attempt_def is_zero_time_def)
qed

theorem limiter_fails_closed_witness:
  "length (lm_items (limiter_run [(100, ''a''), (101, ''b'')] (new_limiter 2 10 100))) \<le> 10000"
  using limiter_fails_closed [of 10 2 100 "[(100, ''a''), (101, ''b'')]"]
  by (simp add: max_duration_def)

end
