(* ===== verification/Description.thy ===== *)
theory Description
  imports Alert_Store GoFmt
begin

text \<open>
  How an alert is shown (\<open>internal/alerts/description.go\<close>): the context a report adds to it, and the
  title, measurement and advice of each rule.  The Hungarian texts are the UTF-8 bytes of the source.
\<close>

record description =
  de_title :: string
  de_measurement :: string
  de_action :: string

definition description :: "string \<Rightarrow> string \<Rightarrow> string \<Rightarrow> description" where
  "description title measurement action =
     \<lparr>de_title = title, de_measurement = measurement, de_action = action\<rparr>"

text \<open>The loop over the checks stops at the first of the alert's resource.\<close>

definition with_report :: "alert \<Rightarrow> report \<Rightarrow> alert" where
  "with_report a r =
     (let a1 = a\<lparr>al_hostname := rep_hostname r, al_target := al_resource a\<rparr> in
      if al_rule_key a = ''http_failed'' \<or> al_rule_key a = ''tls_expiring'' then
        (case find (\<lambda>check. hs_name check = al_resource a) (rep_http_checks r) of
           None \<Rightarrow> a1 | Some check \<Rightarrow> a1\<lparr>al_target := hs_url check\<rparr>)
      else a1)"

text \<open>\<open>strings.ReplaceAll\<close> of one byte, and the quoting of a path for a shell.\<close>

definition replace_byte :: "char \<Rightarrow> string \<Rightarrow> string \<Rightarrow> string" where
  "replace_byte b new s = concat (map (\<lambda>c. if c = b then new else [c]) s)"

definition quote_path :: "string \<Rightarrow> string" where
  "quote_path path = [CHR 0x27] @ replace_byte (CHR 0x27) [CHR 0x27, CHR 0x22, CHR 0x27, CHR 0x22, CHR 0x27] path @ [CHR 0x27]"

definition describe :: "alert \<Rightarrow> description" where
  "describe a =
     (let target = (if al_target a = [] then al_resource a else al_target a);
          percent = ''M'' @ [CHR 0xC3, CHR 0xA9] @ ''rt '' @ [CHR 0xC3, CHR 0xA9] @ ''rt'' @ [CHR 0xC3, CHR 0xA9] @ ''k: '' @
            format_fixed 1 (al_value a) @ ''% '' @ [CHR 0xC2, CHR 0xB7] @ '' k'' @ [CHR 0xC3, CHR 0xBC] @ ''sz'' @
            [CHR 0xC3, CHR 0xB6] @ ''b: '' @ format_fixed 1 (al_threshold a) @ ''%'';
          path = quote_path (al_resource a) in
       if al_rule_key a = ''cpu_high'' then description
         (''Tart'' @ [CHR 0xC3, CHR 0xB3] @ ''san magas CPU-terhel'' @ [CHR 0xC3, CHR 0xA9] @ ''s'')
         (percent)
         (''A megjel'' @ [CHR 0xC3, CHR 0xB6] @ ''lt szerveren a top paranccsal azonos'' @ [CHR 0xC3, CHR 0xAD] @
          ''tsd a legt'' @ [CHR 0xC3, CHR 0xB6] @ ''bb CPU-t haszn'' @ [CHR 0xC3, CHR 0xA1] @ ''l'' @
          [CHR 0xC3, CHR 0xB3] @ '' folyamatot. Ellen'' @ [CHR 0xC5, CHR 0x91] @ ''rizd a terhel'' @
          [CHR 0xC3, CHR 0xA9] @ ''st '' @ [CHR 0xC3, CHR 0xA9] @ ''s a folyamat napl'' @ [CHR 0xC3, CHR 0xB3] @
          ''j'' @ [CHR 0xC3, CHR 0xA1] @ ''t.'')
       else if al_rule_key a = ''memory_high'' then description
         (''Kev'' @ [CHR 0xC3, CHR 0xA9] @ ''s szabad mem'' @ [CHR 0xC3, CHR 0xB3] @ ''ria'')
         (percent)
         (''A megjel'' @ [CHR 0xC3, CHR 0xB6] @ ''lt szerveren ellen'' @ [CHR 0xC5, CHR 0x91] @
          ''rizd a free -h kimenet'' @ [CHR 0xC3, CHR 0xA9] @ ''t, majd a top mem'' @ [CHR 0xC3, CHR 0xB3] @
          ''ria szerinti list'' @ [CHR 0xC3, CHR 0xA1] @ ''j'' @ [CHR 0xC3, CHR 0xA1] @ ''t. Vizsg'' @
          [CHR 0xC3, CHR 0xA1] @ ''ld meg a legnagyobb folyamatot '' @ [CHR 0xC3, CHR 0xA9] @ ''s a mem'' @
          [CHR 0xC3, CHR 0xB3] @ ''riakorl'' @ [CHR 0xC3, CHR 0xA1] @ ''tait.'')
       else if al_rule_key a \<in> set [''disk_warning'', ''disk_critical'', ''disk''] then description
         (''Megtelt vagy tel'' @ [CHR 0xC3, CHR 0xAD] @ ''t'' @ [CHR 0xC5, CHR 0x91] @ ''d'' @ [CHR 0xC5, CHR 0x91] @
          '' t'' @ [CHR 0xC3, CHR 0xA1] @ ''rhely'')
         (percent)
         ([CHR 0xC3, CHR 0x89] @ ''rintett csatol'' @ [CHR 0xC3, CHR 0xA1] @ ''si '' @ [CHR 0xC3, CHR 0xBA] @
          ''tvonal: '' @ al_resource a @ ''. Ellen'' @ [CHR 0xC5, CHR 0x91] @ ''rz'' @ [CHR 0xC3, CHR 0xA9] @
          ''s: df -h -- '' @ path @ ''. A nagy k'' @ [CHR 0xC3, CHR 0xB6] @ ''nyvt'' @ [CHR 0xC3, CHR 0xA1] @
          ''rak keres'' @ [CHR 0xC3, CHR 0xA9] @ ''s'' @ [CHR 0xC3, CHR 0xA9] @ ''hez: sudo du -xhd1 -- '' @ path @
          ''. A m'' @ [CHR 0xC3, CHR 0xA9] @ ''r'' @ [CHR 0xC3, CHR 0xA9] @ ''s a teljes f'' @ [CHR 0xC3, CHR 0xA1] @
          ''jlrendszerre vonatkozik; az '' @ [CHR 0xC3, CHR 0xA9] @ ''rintett almapp'' @ [CHR 0xC3, CHR 0xA1] @
          ''t ez az ellen'' @ [CHR 0xC5, CHR 0x91] @ ''rz'' @ [CHR 0xC3, CHR 0xA9] @ ''s azonos'' @
          [CHR 0xC3, CHR 0xAD] @ ''tja. Ellen'' @ [CHR 0xC5, CHR 0x91] @ ''rizd a napl'' @ [CHR 0xC3, CHR 0xB3] @
          ''meg'' @ [CHR 0xC5, CHR 0x91] @ ''rz'' @ [CHR 0xC3, CHR 0xA9] @ ''st vagy b'' @ [CHR 0xC5, CHR 0x91] @
          ''v'' @ [CHR 0xC3, CHR 0xAD] @ ''tsd a t'' @ [CHR 0xC3, CHR 0xA1] @ ''rhelyet.'')
       else if al_rule_key a = ''agent_offline'' then description
         (''Nem '' @ [CHR 0xC3, CHR 0xA9] @ ''rkezik adat a szerverr'' @ [CHR 0xC5, CHR 0x91] @ ''l'')
         (''Utols'' @ [CHR 0xC3, CHR 0xB3] @ '' kapcsolat '' @ [CHR 0xC3, CHR 0xB3] @ ''ta: '' @
          format_fixed 0 (al_value a) @ '' m'' @ [CHR 0xC3, CHR 0xA1] @ ''sodperc '' @ [CHR 0xC2, CHR 0xB7] @
          '' hat'' @ [CHR 0xC3, CHR 0xA1] @ ''r: '' @ format_fixed 0 (al_threshold a) @ '' m'' @
          [CHR 0xC3, CHR 0xA1] @ ''sodperc'')
         (''Ellen'' @ [CHR 0xC5, CHR 0x91] @ ''rizd, hogy a szerver el'' @ [CHR 0xC3, CHR 0xA9] @ ''rhet'' @
          [CHR 0xC5, CHR 0x91] @ ''-e. A szerveren futtasd: systemctl status monitorozo-agent '' @
          [CHR 0xC3, CHR 0xA9] @ ''s journalctl -u monitorozo-agent -n 50. Ellen'' @ [CHR 0xC5, CHR 0x91] @
          ''rizd az agent h'' @ [CHR 0xC3, CHR 0xA1] @ ''l'' @ [CHR 0xC3, CHR 0xB3] @ ''zati kapcsolat'' @
          [CHR 0xC3, CHR 0xA1] @ ''t a monitoroz'' @ [CHR 0xC3, CHR 0xB3] @ '' szerverhez.'')
       else if al_rule_key a = ''systemd_unavailable'' then description
         (''A szolg'' @ [CHR 0xC3, CHR 0xA1] @ ''ltat'' @ [CHR 0xC3, CHR 0xA1] @ ''s nem fut'')
         (''Szolg'' @ [CHR 0xC3, CHR 0xA1] @ ''ltat'' @ [CHR 0xC3, CHR 0xA1] @ ''s: '' @ al_resource a)
         (''Ellen'' @ [CHR 0xC5, CHR 0x91] @ ''rizd a megjel'' @ [CHR 0xC3, CHR 0xB6] @ ''lt systemd egys'' @
          [CHR 0xC3, CHR 0xA9] @ ''g '' @ [CHR 0xC3, CHR 0xA1] @ ''llapot'' @ [CHR 0xC3, CHR 0xA1] @ ''t '' @
          [CHR 0xC3, CHR 0xA9] @ ''s napl'' @ [CHR 0xC3, CHR 0xB3] @ ''j'' @ [CHR 0xC3, CHR 0xA1] @
          ''t a systemctl status '' @ [CHR 0xC3, CHR 0xA9] @ ''s journalctl -u parancsokkal. '' @
          [CHR 0xC3, CHR 0x9A] @ ''jraind'' @ [CHR 0xC3, CHR 0xAD] @ ''t'' @ [CHR 0xC3, CHR 0xA1] @ ''s el'' @
          [CHR 0xC5, CHR 0x91] @ ''tt keresd meg a le'' @ [CHR 0xC3, CHR 0xA1] @ ''ll'' @ [CHR 0xC3, CHR 0xA1] @
          ''s ok'' @ [CHR 0xC3, CHR 0xA1] @ ''t.'')
       else if al_rule_key a \<in> set [''docker_stopped'', ''docker_unhealthy''] then description
         (''A kont'' @ [CHR 0xC3, CHR 0xA9] @ ''ner nem m'' @ [CHR 0xC5, CHR 0xB1] @ ''k'' @ [CHR 0xC3, CHR 0xB6] @
          ''dik megfelel'' @ [CHR 0xC5, CHR 0x91] @ ''en'')
         (''Kont'' @ [CHR 0xC3, CHR 0xA9] @ ''ner: '' @ al_resource a)
         (''Ellen'' @ [CHR 0xC5, CHR 0x91] @ ''rizd a megjel'' @ [CHR 0xC3, CHR 0xB6] @ ''lt kont'' @
          [CHR 0xC3, CHR 0xA9] @ ''nert a docker inspect '' @ [CHR 0xC3, CHR 0xA9] @
          ''s docker logs parancsokkal, k'' @ [CHR 0xC3, CHR 0xBC] @ ''l'' @ [CHR 0xC3, CHR 0xB6] @ ''n'' @
          [CHR 0xC3, CHR 0xB6] @ ''sen a kil'' @ [CHR 0xC3, CHR 0xA9] @ ''p'' @ [CHR 0xC3, CHR 0xA9] @ ''si k'' @
          [CHR 0xC3, CHR 0xB3] @ ''dot '' @ [CHR 0xC3, CHR 0xA9] @ ''s a healthcheck eredm'' @ [CHR 0xC3, CHR 0xA9] @
          ''ny'' @ [CHR 0xC3, CHR 0xA9] @ ''t.'')
       else if al_rule_key a = ''http_failed'' then description
         (''A webes v'' @ [CHR 0xC3, CHR 0xA9] @ ''gpont ellen'' @ [CHR 0xC5, CHR 0x91] @ ''rz'' @
          [CHR 0xC3, CHR 0xA9] @ ''se sikertelen'')
         (''Ellen'' @ [CHR 0xC5, CHR 0x91] @ ''rz'' @ [CHR 0xC3, CHR 0xA9] @ ''s: '' @ target @ '' '' @
          [CHR 0xC2, CHR 0xB7] @ '' HTTP-k'' @ [CHR 0xC3, CHR 0xB3] @ ''d: '' @ format_fixed 0 (al_value a) @
          '' (0: nem '' @ [CHR 0xC3, CHR 0xA9] @ ''rkezett v'' @ [CHR 0xC3, CHR 0xA1] @ ''lasz)'')
         (''Ellen'' @ [CHR 0xC5, CHR 0x91] @ ''rizd az '' @ [CHR 0xC3, CHR 0xA9] @ ''rintett URL el'' @
          [CHR 0xC3, CHR 0xA9] @ ''rhet'' @ [CHR 0xC5, CHR 0x91] @ ''s'' @ [CHR 0xC3, CHR 0xA9] @ ''g'' @
          [CHR 0xC3, CHR 0xA9] @ ''t a szerverr'' @ [CHR 0xC5, CHR 0x91] @ ''l, az alkalmaz'' @ [CHR 0xC3, CHR 0xA1] @
          ''s '' @ [CHR 0xC3, CHR 0xA9] @ ''s a reverse proxy napl'' @ [CHR 0xC3, CHR 0xB3] @
          ''it, valamint a DNS- '' @ [CHR 0xC3, CHR 0xA9] @ ''s TLS-be'' @ [CHR 0xC3, CHR 0xA1] @ ''ll'' @
          [CHR 0xC3, CHR 0xAD] @ ''t'' @ [CHR 0xC3, CHR 0xA1] @ ''sokat.'')
       else if al_rule_key a = ''tls_expiring'' then description
         (''A TLS-tan'' @ [CHR 0xC3, CHR 0xBA] @ ''s'' @ [CHR 0xC3, CHR 0xAD] @ ''tv'' @ [CHR 0xC3, CHR 0xA1] @
          ''ny hamarosan lej'' @ [CHR 0xC3, CHR 0xA1] @ ''r'')
         (''H'' @ [CHR 0xC3, CHR 0xA1] @ ''tral'' @ [CHR 0xC3, CHR 0xA9] @ ''v'' @ [CHR 0xC5, CHR 0x91] @ '' id'' @
          [CHR 0xC5, CHR 0x91] @ '': '' @ format_fixed 1 (al_value a) @ '' nap '' @ [CHR 0xC2, CHR 0xB7] @
          '' figyelmeztet'' @ [CHR 0xC3, CHR 0xA9] @ ''si hat'' @ [CHR 0xC3, CHR 0xA1] @ ''r: '' @
          format_fixed 1 (al_threshold a) @ '' nap'')
         ([CHR 0xC3, CHR 0x9A] @ ''j'' @ [CHR 0xC3, CHR 0xAD] @ ''tsd meg az '' @ [CHR 0xC3, CHR 0xA9] @
          ''rintett v'' @ [CHR 0xC3, CHR 0xA9] @ ''gpont tan'' @ [CHR 0xC3, CHR 0xBA] @ ''s'' @ [CHR 0xC3, CHR 0xAD] @
          ''tv'' @ [CHR 0xC3, CHR 0xA1] @ ''ny'' @ [CHR 0xC3, CHR 0xA1] @ ''t. Ellen'' @ [CHR 0xC5, CHR 0x91] @
          ''rizd az automatikus meg'' @ [CHR 0xC3, CHR 0xBA] @ ''j'' @ [CHR 0xC3, CHR 0xAD] @ ''t'' @
          [CHR 0xC3, CHR 0xA1] @ ''s napl'' @ [CHR 0xC3, CHR 0xB3] @ ''j'' @ [CHR 0xC3, CHR 0xA1] @
          ''t, majd a kiszolg'' @ [CHR 0xC3, CHR 0xA1] @ ''lt tan'' @ [CHR 0xC3, CHR 0xBA] @ ''s'' @
          [CHR 0xC3, CHR 0xAD] @ ''tv'' @ [CHR 0xC3, CHR 0xA1] @ ''ny lej'' @ [CHR 0xC3, CHR 0xA1] @ ''rati d'' @
          [CHR 0xC3, CHR 0xA1] @ ''tum'' @ [CHR 0xC3, CHR 0xA1] @ ''t.'')
       else if al_rule_key a = ''test_email'' then description
         (''Teszt'' @ [CHR 0xC3, CHR 0xA9] @ ''rtes'' @ [CHR 0xC3, CHR 0xAD] @ ''t'' @ [CHR 0xC3, CHR 0xA9] @ ''s'')
         (''Az SMTP-kiszolg'' @ [CHR 0xC3, CHR 0xA1] @ ''l'' @ [CHR 0xC3, CHR 0xB3] @ '' elfogadta a teszt'' @
          [CHR 0xC3, CHR 0xBC] @ ''zenetet.'')
         (''Nincs sz'' @ [CHR 0xC3, CHR 0xBC] @ ''ks'' @ [CHR 0xC3, CHR 0xA9] @ ''g beavatkoz'' @
          [CHR 0xC3, CHR 0xA1] @ ''sra. Ez a Monitorozo email-be'' @ [CHR 0xC3, CHR 0xA1] @ ''ll'' @
          [CHR 0xC3, CHR 0xAD] @ ''t'' @ [CHR 0xC3, CHR 0xA1] @ ''sainak tesztje.'')
       else description
         (al_rule_key a)
         (''M'' @ [CHR 0xC3, CHR 0xA9] @ ''rt '' @ [CHR 0xC3, CHR 0xA9] @ ''rt'' @ [CHR 0xC3, CHR 0xA9] @ ''k: '' @
          format_fixed 2 (al_value a) @ '' '' @ [CHR 0xC2, CHR 0xB7] @ '' k'' @ [CHR 0xC3, CHR 0xBC] @ ''sz'' @
          [CHR 0xC3, CHR 0xB6] @ ''b: '' @ format_fixed 2 (al_threshold a))
         (''Ellen'' @ [CHR 0xC5, CHR 0x91] @ ''rizd a megjel'' @ [CHR 0xC3, CHR 0xB6] @ ''lt er'' @
          [CHR 0xC5, CHR 0x91] @ ''forr'' @ [CHR 0xC3, CHR 0xA1] @ ''s '' @ [CHR 0xC3, CHR 0xA1] @ ''llapot'' @
          [CHR 0xC3, CHR 0xA1] @ ''t '' @ [CHR 0xC3, CHR 0xA9] @ ''s napl'' @ [CHR 0xC3, CHR 0xB3] @
          ''it a szerveren.''))"


subsection \<open>The shell's reading of a quoted path\<close>

text \<open>One word of a POSIX shell command made of quoted parts: within single quotes every byte stands for
  itself; within double quotes every byte but the dollar sign, the backquote and the backslash does.
  Anything unquoted, and a quote that is not closed, gives no word.\<close>

datatype quote_mode = Unquoted | SingleQuoted | DoubleQuoted

fun shell_word :: "quote_mode \<Rightarrow> string \<Rightarrow> string option" where
  "shell_word Unquoted [] = Some []"
| "shell_word SingleQuoted [] = None"
| "shell_word DoubleQuoted [] = None"
| "shell_word Unquoted (c # cs) =
     (if c = CHR 0x27 then shell_word SingleQuoted cs
      else if c = CHR 0x22 then shell_word DoubleQuoted cs else None)"
| "shell_word SingleQuoted (c # cs) =
     (if c = CHR 0x27 then shell_word Unquoted cs else map_option ((#) c) (shell_word SingleQuoted cs))"
| "shell_word DoubleQuoted (c # cs) =
     (if c = CHR 0x22 then shell_word Unquoted cs
      else if c \<in> {CHR 0x24, CHR 0x60, CHR 0x5C} then None
      else map_option ((#) c) (shell_word DoubleQuoted cs))"

lemma quoted_word:
  "shell_word SingleQuoted (replace_byte (CHR 0x27) [CHR 0x27, CHR 0x22, CHR 0x27, CHR 0x22, CHR 0x27] p @ [CHR 0x27]) = Some p"
  by (induction p) (simp_all add: replace_byte_def)

text \<open>C40. The commands an alert suggests are safe to paste: a quoted path is one word of a shell command,
  which the shell reads as exactly the path, whatever bytes it has; and the advice of the disk rules names
  the mount point in its two commands only in this form, after the end-of-options marker.\<close>

theorem path_quoting_safe:
  "shell_word Unquoted (quote_path path) = Some path \<and>
   (al_rule_key a \<in> {''disk_warning'', ''disk_critical''} \<longrightarrow>
     (\<exists>x y z. de_action (describe a) =
        x @ '' -- '' @ quote_path (al_resource a) @ y @ '' -- '' @ quote_path (al_resource a) @ z))"
proof
  show "shell_word Unquoted (quote_path path) = Some path" by (simp add: quote_path_def quoted_word)
  let ?x = "[CHR 0xC3, CHR 0x89] @ ''rintett csatol'' @ [CHR 0xC3, CHR 0xA1] @ ''si '' @ [CHR 0xC3, CHR 0xBA] @
      ''tvonal: '' @ al_resource a @ ''. Ellen'' @ [CHR 0xC5, CHR 0x91] @ ''rz'' @ [CHR 0xC3, CHR 0xA9] @
      ''s: df -h''"
  let ?y = "''. A nagy k'' @ [CHR 0xC3, CHR 0xB6] @ ''nyvt'' @ [CHR 0xC3, CHR 0xA1] @ ''rak keres'' @
      [CHR 0xC3, CHR 0xA9] @ ''s'' @ [CHR 0xC3, CHR 0xA9] @ ''hez: sudo du -xhd1''"
  let ?z = "''. A m'' @ [CHR 0xC3, CHR 0xA9] @ ''r'' @ [CHR 0xC3, CHR 0xA9] @ ''s a teljes f'' @
      [CHR 0xC3, CHR 0xA1] @ ''jlrendszerre vonatkozik; az '' @ [CHR 0xC3, CHR 0xA9] @ ''rintett almapp'' @
      [CHR 0xC3, CHR 0xA1] @ ''t ez az ellen'' @ [CHR 0xC5, CHR 0x91] @ ''rz'' @ [CHR 0xC3, CHR 0xA9] @
      ''s azonos'' @ [CHR 0xC3, CHR 0xAD] @ ''tja. Ellen'' @ [CHR 0xC5, CHR 0x91] @ ''rizd a napl'' @
      [CHR 0xC3, CHR 0xB3] @ ''meg'' @ [CHR 0xC5, CHR 0x91] @ ''rz'' @ [CHR 0xC3, CHR 0xA9] @ ''st vagy b'' @
      [CHR 0xC5, CHR 0x91] @ ''v'' @ [CHR 0xC3, CHR 0xAD] @ ''tsd a t'' @ [CHR 0xC3, CHR 0xA1] @ ''rhelyet.''"
  have "de_action (describe a) = ?x @ '' -- '' @ quote_path (al_resource a) @ ?y @ '' -- '' @ quote_path (al_resource a) @ ?z"
    if "al_rule_key a = ''disk_warning'' \<or> al_rule_key a = ''disk_critical''"
    using that by (elim disjE) (simp_all add: describe_def description_def Let_def)
  then show "al_rule_key a \<in> {''disk_warning'', ''disk_critical''} \<longrightarrow>
     (\<exists>x y z. de_action (describe a) =
        x @ '' -- '' @ quote_path (al_resource a) @ y @ '' -- '' @ quote_path (al_resource a) @ z)"
    by blast
qed


definition demo_disk_alert :: alert where
  "demo_disk_alert = scan_alert (new_row \<lparr>ev_agent_id = ''web'', ev_rule_key = ''disk_critical'',
     ev_resource = ''/srv/a b'', ev_severity = Critical, ev_value = Fin 97, ev_threshold = Fin 95,
     ev_violated = True, ev_for = 0, ev_consecutive = 0\<rparr> 0 1)"

theorem path_quoting_safe_witness:
  "\<exists>x y z. de_action (describe demo_disk_alert) =
     x @ '' -- '' @ quote_path (al_resource demo_disk_alert) @ y @ '' -- '' @ quote_path (al_resource demo_disk_alert) @ z"
  using path_quoting_safe [of "[]" demo_disk_alert] by (simp add: demo_disk_alert_def new_row_def)

end
