(* ===== verification/Server.thy ===== *)
theory Server
  imports Engine Web Broker Session Limiter Description
begin

text \<open>
  The HTTP handlers of the server and its notification loop (\<open>internal/server/server.go\<close>,
  \<open>notifications.go\<close>), as functions from a request and the state to a response and the new state.
  The readings of the clock, the faults of the database statements, the random strings and the outcome of
  sending a mail are inputs of each handler.  The JSON codec, Argon2 and the session HMAC are arguments.
  \<open>sv_outbox\<close> records the mails handed to the mail server, it has no counterpart in the code.
\<close>

subsection \<open>The state\<close>

text \<open>The alert of a mail, or the test message, with the address of the dashboard, the recipient and whether
  the mail server took it.\<close>

datatype mail_subject = AlertMail alert | TestMail gotime

record mail =
  ml_subject :: mail_subject
  ml_url :: string
  ml_recipient :: string
  ml_accepted :: bool

record server =
  sv_cfg :: server_config
  sv_engine :: server_config
  sv_db :: db
  sv_sessions :: sessions
  sv_login_limiter :: limiter
  sv_api_limiter :: limiter
  sv_email_limiter :: limiter
  sv_proxy :: "(nat list \<times> nat list) option"
  sv_events :: broker
  sv_notify_wake :: bool
  sv_outbox :: "mail list"

record server_lib =
  sl_lib :: go_lib
  sl_idkey :: "string \<Rightarrow> string \<Rightarrow> string"
  sl_mac :: "string \<Rightarrow> string \<Rightarrow> string"
  sl_decode_strict :: "string \<Rightarrow> (report \<times> string) option"
  sl_encode :: "report \<Rightarrow> string option"
  sl_decode :: "string \<Rightarrow> report option"
  sl_event :: "string \<Rightarrow> gotime \<Rightarrow> string"
  sl_avg :: "float64 list \<Rightarrow> float64"
  sl_hour_text :: "stamp \<Rightarrow> stamp"

definition session_mac :: "server_lib \<Rightarrow> server \<Rightarrow> string \<Rightarrow> string" where
  "session_mac p s = sl_mac p (sc_session_secret (sv_cfg s))"

definition new_server :: "go_lib \<Rightarrow> server_config \<Rightarrow> db \<Rightarrow> gotime \<Rightarrow> server option" where
  "new_server lib c d now =
     (let s = \<lparr>sv_cfg = c, sv_engine = new_engine c, sv_db = d,
           sv_sessions = new_sessions (sc_session_idle_timeout c) (sc_session_max_lifetime c) (sc_secure_cookies c),
           sv_login_limiter = new_limiter 5 (15 * minute) now, sv_api_limiter = new_limiter 120 minute now,
           sv_email_limiter = new_limiter 3 minute now, sv_proxy = None, sv_events = new_broker,
           sv_notify_wake = False, sv_outbox = []\<rparr> in
      if sc_trusted_proxy c \<noteq> [] then
        (case gl_parse_cidr lib (sc_trusted_proxy c) of None \<Rightarrow> None
         | Some network \<Rightarrow> Some (s\<lparr>sv_proxy := Some network\<rparr>))
      else Some s)"

subsection \<open>Responses\<close>

datatype body =
    NoBody | Message string | Invalid validate_error | LoginForm string | DashboardHtml string
  | HistoryBody string string "history_point list" | Aborted

record response =
  rs_status :: int
  rs_location :: string
  rs_cookie :: "cookie option"
  rs_body :: body

definition respond :: "int \<Rightarrow> body \<Rightarrow> response" where
  "respond status b = \<lparr>rs_status = status, rs_location = [], rs_cookie = None, rs_body = b\<rparr>"

definition http_error :: "int \<Rightarrow> string \<Rightarrow> response" where
  "http_error status message = respond status (Message message)"

definition see_other :: "string \<Rightarrow> response" where
  "see_other location = (respond 303 NoBody)\<lparr>rs_location := location\<rparr>"

definition max_report_body :: nat where "max_report_body = 262144"

subsection \<open>Reports from agents\<close>

text \<open>The body must be one JSON value without unknown fields, followed by white space only, and fit the
  limit.\<close>

definition json_space :: "char \<Rightarrow> bool" where
  "json_space c \<longleftrightarrow> c \<in> {CHR 0x20, CHR 0x09, CHR 0x0A, CHR 0x0D}"

definition decode_body :: "server_lib \<Rightarrow> string \<Rightarrow> report option" where
  "decode_body p text =
     (if max_report_body < length text then None
      else case sl_decode_strict p text of
          None \<Rightarrow> None
        | Some (r, rest) \<Rightarrow> if list_all json_space rest then Some r else None)"

record ingest_io =
  ii_now :: gotime
  ii_received :: gotime
  ii_seen :: gotime
  ii_saved :: gotime
  ii_fails :: faults
  ii_engine :: store_io

definition authorised :: "server_lib \<Rightarrow> ingest_io \<Rightarrow> request \<Rightarrow> report \<Rightarrow> db \<Rightarrow> bool" where
  "authorised p io r rep d =
     (let token = bearer_token (rq_authorization r) in
      case token_hashes (ii_fails io) (rep_agent_id rep) d of
        Inl _ \<Rightarrow> False
      | Inr hashes \<Rightarrow> token \<noteq> [] \<and> verify_any_token (sl_idkey p) token hashes)"

text \<open>What follows a stored report: the evaluation (its error is only logged), the wake-up of the
  notification loop and the event for the dashboards.\<close>

definition after_save :: "server_lib \<Rightarrow> ingest_io \<Rightarrow> report \<Rightarrow> server \<Rightarrow> server" where
  "after_save p io rep s =
     (let received = ii_received io;
          (_, d) = (if \<not> rep_timestamp rep < time_add received (- sc_agent_offline_after (sv_cfg s))
             then evaluate_report (sv_engine s) (ii_engine io) rep received (sv_db s)
             else resolve_online (sv_engine s) (ii_engine io) (rep_agent_id rep) received (sv_db s)) in
      s\<lparr>sv_db := d, sv_notify_wake := True,
        sv_events := publish (sl_event p (rep_agent_id rep) (rep_timestamp rep)) (sv_events s)\<rparr>)"

definition ingest :: "server_lib \<Rightarrow> ingest_io \<Rightarrow> request \<Rightarrow> server \<Rightarrow> response \<times> server" where
  "ingest p io r s =
     (let lib = sl_lib p; c = sv_cfg s;
          (allowed, limiter1) = allow (ii_now io) (client_ip lib (sv_proxy s) r) (sv_api_limiter s);
          s1 = s\<lparr>sv_api_limiter := limiter1\<rparr> in
      if \<not> allowed then (http_error 429 ''rate limit exceeded'', s1)
      else case decode_body p (rq_body r) of
          None \<Rightarrow> (http_error 400 ''invalid report'', s1)
        | Some rep \<Rightarrow>
            (case validate (gl_request_uri lib) rep (ii_received io) (sc_max_clock_skew c) (sc_max_report_age c) of
               Some e \<Rightarrow> (respond 422 (Invalid e), s1)
             | None \<Rightarrow>
                 if \<not> authorised p io r rep (sv_db s1) then (http_error 401 ''unauthorized'', s1)
                 else
                   (case save_report (ii_fails io) (sl_encode p) rep (ii_seen io) (ii_saved io) (sv_db s1) of
                      (Some Replay, d) \<Rightarrow> (http_error 409 ''sequence replay rejected'', s1\<lparr>sv_db := d\<rparr>)
                    | (Some _, d) \<Rightarrow> (http_error 500 ''internal error'', s1\<lparr>sv_db := d\<rparr>)
                    | (None, d) \<Rightarrow> (respond 202 (Message ''accepted''), after_save p io rep (s1\<lparr>sv_db := d\<rparr>)))))"

subsection \<open>Logging in and out\<close>

record login_io =
  li_now :: gotime
  li_session_now :: gotime
  li_token :: "string option"
  li_csrf :: "string option"

definition login_page :: "server_lib \<Rightarrow> gotime \<Rightarrow> request \<Rightarrow> server \<Rightarrow> response \<times> server" where
  "login_page p now r s =
     (case get_session (session_mac p s) now (rq_cookie r) (sv_sessions s) of
        (Some _, ss) \<Rightarrow> (see_other ''/'', s\<lparr>sv_sessions := ss\<rparr>)
      | (None, ss) \<Rightarrow> (respond 200 (LoginForm []), s\<lparr>sv_sessions := ss\<rparr>))"

definition login :: "server_lib \<Rightarrow> login_io \<Rightarrow> request \<Rightarrow> server \<Rightarrow> response \<times> server" where
  "login p io r s =
     (let lib = sl_lib p; ip = client_ip lib (sv_proxy s) r;
          (allowed, limiter1) = allow (li_now io) ip (sv_login_limiter s);
          s1 = s\<lparr>sv_login_limiter := limiter1\<rparr> in
      if \<not> allowed then (http_error 429 (''t'' @ [CHR 0xC3, CHR 0xBA] @ ''l sok bejelentkez'' @ [CHR 0xC3, CHR 0xA9] @ ''si pr'' @
              [CHR 0xC3, CHR 0xB3] @ ''b'' @ [CHR 0xC3, CHR 0xA1] @ ''lkoz'' @
              [CHR 0xC3, CHR 0xA1] @ ''s''), s1)
      else if \<not> valid_origin lib (sc_public_url (sv_cfg s)) r then (http_error 403 ([CHR 0xC3, CHR 0xA9] @ ''rv'' @ [CHR 0xC3, CHR 0xA9] @ ''nytelen eredet''), s1)
      else case rq_form r of
          None \<Rightarrow> (http_error 400 ''invalid form'', s1)
        | Some form \<Rightarrow>
            if \<not> gl_bcrypt_match lib (sc_admin_password_hash (sv_cfg s)) (form ''password'') then
              (respond 401 (LoginForm (''Hib'' @ [CHR 0xC3, CHR 0xA1] @ ''s jelsz'' @ [CHR 0xC3, CHR 0xB3])), s1)
            else
              (case create_session (session_mac p s) (li_session_now io) (li_token io) (li_csrf io) (sv_sessions s1) of
                 (Inl _, ss) \<Rightarrow> (http_error 500 ''internal error'', s1\<lparr>sv_sessions := ss\<rparr>)
               | (Inr (_, ck), ss) \<Rightarrow>
                   ((see_other ''/'')\<lparr>rs_cookie := Some ck\<rparr>,
                    s1\<lparr>sv_sessions := ss, sv_login_limiter := reset_key ip (sv_login_limiter s1)\<rparr>)))"

text \<open>The wrapper of the protected handlers; it looks the session up itself, before the handler does.\<close>

definition require_auth :: "server_lib \<Rightarrow> gotime \<Rightarrow> request \<Rightarrow> (server \<Rightarrow> response \<times> server) \<Rightarrow> server \<Rightarrow> response \<times> server" where
  "require_auth p now r handler s =
     (case get_session (session_mac p s) now (rq_cookie r) (sv_sessions s) of
        (None, ss) \<Rightarrow> (see_other ''/login'', s\<lparr>sv_sessions := ss\<rparr>)
      | (Some _, ss) \<Rightarrow> handler (s\<lparr>sv_sessions := ss\<rparr>))"

text \<open>The check of every form that changes something: a session, a request from the server's own pages, and
  the session's token in the form.\<close>

definition csrf_form :: "server_lib \<Rightarrow> gotime \<Rightarrow> request \<Rightarrow> server \<Rightarrow> (string \<Rightarrow> string) option \<times> server" where
  "csrf_form p now r s =
     (let (session, ss) = get_session (session_mac p s) now (rq_cookie r) (sv_sessions s);
          s1 = s\<lparr>sv_sessions := ss\<rparr> in
      case session of
        None \<Rightarrow> (None, s1)
      | Some x \<Rightarrow>
          if \<not> valid_origin (sl_lib p) (sc_public_url (sv_cfg s)) r then (None, s1)
          else (case rq_form r of
              None \<Rightarrow> (None, s1)
            | Some form \<Rightarrow> if se_csrf x = form ''csrf_token'' then (Some form, s1) else (None, s1)))"

definition logout :: "server_lib \<Rightarrow> gotime \<Rightarrow> request \<Rightarrow> server \<Rightarrow> response \<times> server" where
  "logout p now r s =
     (case csrf_form p now r s of
        (None, s1) \<Rightarrow> (http_error 403 ([CHR 0xC3, CHR 0xA9] @ ''rv'' @ [CHR 0xC3, CHR 0xA9] @ ''nytelen CSRF token''), s1)
      | (Some _, s1) \<Rightarrow>
          (case delete_session (session_mac p s1) (rq_cookie r) (sv_sessions s1) of
             (ck, ss) \<Rightarrow> ((see_other ''/login'')\<lparr>rs_cookie := Some ck\<rparr>, s1\<lparr>sv_sessions := ss\<rparr>)))"

subsection \<open>Alerts and history\<close>

record store_call =
  st_now :: gotime
  st_clock :: gotime
  st_fails :: faults

text \<open>\<open>acknowledgeAlert\<close> answers 403 for each of the reasons \<open>csrf_form\<close> refuses, with two texts.\<close>

definition acknowledge_handler :: "server_lib \<Rightarrow> gotime \<Rightarrow> store_call \<Rightarrow> request \<Rightarrow> server \<Rightarrow> response \<times> server" where
  "acknowledge_handler p now io r s =
     (case csrf_form p now r s of
        (None, s1) \<Rightarrow>
          (if fst (get_session (session_mac p s) now (rq_cookie r) (sv_sessions s)) = None \<or>
              \<not> valid_origin (sl_lib p) (sc_public_url (sv_cfg s)) r
           then http_error 403 ''invalid session or origin''
           else http_error 403 ([CHR 0xC3, CHR 0xA9] @ ''rv'' @ [CHR 0xC3, CHR 0xA9] @ ''nytelen CSRF token''), s1)
      | (Some _, s1) \<Rightarrow>
          (case atoi (rq_path_id r) of
             None \<Rightarrow> (http_error 400 ''invalid alert id'', s1)
           | Some n \<Rightarrow>
               if n < 1 then (http_error 400 ''invalid alert id'', s1)
               else
                 (case acknowledge_alert (st_fails io) (nat n) ''admin'' (st_now io) (st_clock io) (sv_db s1) of
                    (Some NoRows, d) \<Rightarrow> (http_error 404 ''alert not found or already acknowledged'', s1\<lparr>sv_db := d\<rparr>)
                  | (Some _, d) \<Rightarrow> (http_error 500 ''internal error'', s1\<lparr>sv_db := d\<rparr>)
                  | (None, d) \<Rightarrow> (see_other ''/'', s1\<lparr>sv_db := d\<rparr>))))"

text \<open>\<open>history\<close>; \<open>now\<close> is its own reading of the clock, the second one is the store's.  \<open>Aborted\<close> is a
  panic, after which the connection is closed.\<close>

definition history_handler :: "store_call \<Rightarrow> request \<Rightarrow> server \<Rightarrow> response" where
  "history_handler io r s =
     (let agent = rq_query r ''agent_id'';
          range = (if rq_query r ''range'' = [] then ''24h'' else rq_query r ''range'') in
      if \<not> valid_agent_name agent then http_error 400 ''invalid agent_id''
      else case history_ranges range of
          None \<Rightarrow> http_error 400 ''invalid range''
        | Some d \<Rightarrow>
            (case history (st_fails io) agent (time_add (st_now io) (- d)) (sc_raw_retention (sv_cfg s)) 720
                 (st_clock io) (sv_db s) of
               Inl _ \<Rightarrow> http_error 500 ''internal error''
             | Inr None \<Rightarrow> respond 0 Aborted
             | Inr (Some points) \<Rightarrow> respond 200 (HistoryBody agent range points)))"

subsection \<open>Notification settings\<close>

definition default_preferences :: "server_config \<Rightarrow> preferences" where
  "default_preferences c = \<lparr>pr_enabled = sm_enabled (sc_smtp c), pr_recipient = sm_to (sc_smtp c),
     pr_warnings = False, pr_recovery = True\<rparr>"

definition server_preferences :: "faults \<Rightarrow> server \<Rightarrow> db_error + preferences" where
  "server_preferences fails s = notification_preferences fails (default_preferences (sv_cfg s)) (sv_db s)"

definition notification_form :: "server_lib \<Rightarrow> gotime \<Rightarrow> request \<Rightarrow> server \<Rightarrow> (response + preferences) \<times> server" where
  "notification_form p now r s =
     (case csrf_form p now r s of
        (None, s1) \<Rightarrow>
          (Inl (http_error 403 (''A munkamenet vagy a biztons'' @ [CHR 0xC3, CHR 0xA1] @ ''gi token '' @ [CHR 0xC3, CHR 0xA9] @
              ''rv'' @ [CHR 0xC3, CHR 0xA9] @ ''nytelen. Jelentkezz be '' @ [CHR 0xC3, CHR 0xBA] @
              ''jra.'')), s1)
      | (Some form, s1) \<Rightarrow>
          (let q = \<lparr>pr_enabled = (form ''enabled'' = ''on''), pr_recipient = trim_space (form ''recipient''),
                 pr_warnings = (form ''warnings'' = ''on''), pr_recovery = (form ''recovery'' = ''on'')\<rparr>;
               recipient = pr_recipient q in
           if 254 < length recipient \<or> contains_any recipient [CHR 0x0D, CHR 0x0A] \<or>
              gl_mail_address (sl_lib p) recipient \<noteq> Some recipient
           then (Inl (http_error 422 (''Adj meg egy '' @ [CHR 0xC3, CHR 0xA9] @ ''rv'' @ [CHR 0xC3, CHR 0xA9] @ ''nyes email-c'' @
              [CHR 0xC3, CHR 0xAD] @ ''met, n'' @ [CHR 0xC3, CHR 0xA9] @ ''v '' @
              [CHR 0xC3, CHR 0xA9] @ ''s vessz'' @ [CHR 0xC5, CHR 0x91] @ '' n'' @
              [CHR 0xC3, CHR 0xA9] @ ''lk'' @ [CHR 0xC3, CHR 0xBC] @ ''l.'')), s1)
           else (Inr q, s1)))"

definition save_notifications :: "server_lib \<Rightarrow> gotime \<Rightarrow> store_call \<Rightarrow> request \<Rightarrow> server \<Rightarrow> response \<times> server" where
  "save_notifications p now io r s =
     (case notification_form p now r s of
        (Inl e, s1) \<Rightarrow> (e, s1)
      | (Inr q, s1) \<Rightarrow>
          if pr_enabled q \<and> \<not> sm_enabled (sc_smtp (sv_cfg s1)) then
            (http_error 409 (''Az SMTP-k'' @ [CHR 0xC3, CHR 0xBC] @ ''ld'' @ [CHR 0xC3, CHR 0xA9] @ ''s nincs enged'' @
              [CHR 0xC3, CHR 0xA9] @ ''lyezve. A server.yaml smtp be'' @ [CHR 0xC3, CHR 0xA1] @
              ''ll'' @ [CHR 0xC3, CHR 0xAD] @ ''t'' @ [CHR 0xC3, CHR 0xA1] @
              ''sait kell megadni '' @ [CHR 0xC3, CHR 0xA9] @ ''s a szervert '' @
              [CHR 0xC3, CHR 0xBA] @ ''jraind'' @ [CHR 0xC3, CHR 0xAD] @ ''tani.''), s1)
          else
            (case save_notification_preferences (st_fails io) q (sv_db s1) of
               (Some _, d) \<Rightarrow> (http_error 500 (''Nem siker'' @ [CHR 0xC3, CHR 0xBC] @ ''lt menteni a be'' @ [CHR 0xC3, CHR 0xA1] @ ''ll'' @
              [CHR 0xC3, CHR 0xAD] @ ''t'' @ [CHR 0xC3, CHR 0xA1] @ ''sokat. Pr'' @
              [CHR 0xC3, CHR 0xB3] @ ''b'' @ [CHR 0xC3, CHR 0xA1] @ ''ld '' @ [CHR 0xC3, CHR 0xBA] @
              ''jra.''), s1\<lparr>sv_db := d\<rparr>)
             | (None, d) \<Rightarrow> (respond 200 (Message (''Az '' @ [CHR 0xC3, CHR 0xA9] @ ''rtes'' @ [CHR 0xC3, CHR 0xAD] @ ''t'' @ [CHR 0xC3, CHR 0xA9] @
              ''si be'' @ [CHR 0xC3, CHR 0xA1] @ ''ll'' @ [CHR 0xC3, CHR 0xAD] @ ''t'' @
              [CHR 0xC3, CHR 0xA1] @ ''sokat elmentett'' @ [CHR 0xC3, CHR 0xBC] @ ''k.'')), s1\<lparr>sv_db := d\<rparr>)))"

definition contains_text :: "string \<Rightarrow> string \<Rightarrow> bool" where
  "contains_text s t = list_ex (\<lambda>i. has_prefix (drop i s) t) [0..<Suc (length s)]"

text \<open>The advice for a failed test mail; later tests overrule earlier ones.\<close>

definition mail_advice :: "string \<Rightarrow> string" where
  "mail_advice e =
     (if contains_text e ''TLS'' \<or> contains_text e ''x509'' then (''Az SMTP TLS-kapcsolat sikertelen. Ellen'' @ [CHR 0xC5, CHR 0x91] @ ''rizd a tan'' @
              [CHR 0xC3, CHR 0xBA] @ ''s'' @ [CHR 0xC3, CHR 0xAD] @ ''tv'' @ [CHR 0xC3, CHR 0xA1] @
              ''nyt '' @ [CHR 0xC3, CHR 0xA9] @ ''s a STARTTLS-t t'' @ [CHR 0xC3, CHR 0xA1] @
              ''mogat'' @ [CHR 0xC3, CHR 0xB3] @ '' portot ('' @ [CHR 0xC3, CHR 0xA1] @ ''ltal'' @
              [CHR 0xC3, CHR 0xA1] @ ''ban 587).'')
      else if contains_text e ''authentication'' then (''Az SMTP-hiteles'' @ [CHR 0xC3, CHR 0xAD] @ ''t'' @ [CHR 0xC3, CHR 0xA9] @
              ''s sikertelen. Ellen'' @ [CHR 0xC5, CHR 0x91] @ ''rizd az SMTP-felhaszn'' @
              [CHR 0xC3, CHR 0xA1] @ ''l'' @ [CHR 0xC3, CHR 0xB3] @ ''nevet '' @
              [CHR 0xC3, CHR 0xA9] @ ''s a MONITOROZO_SMTP_PASSWORD '' @ [CHR 0xC3, CHR 0xA9] @
              ''rt'' @ [CHR 0xC3, CHR 0xA9] @ ''k'' @ [CHR 0xC3, CHR 0xA9] @ ''t.'')
      else if contains_text e ''recipient rejected'' then (''Az SMTP-kiszolg'' @ [CHR 0xC3, CHR 0xA1] @ ''l'' @ [CHR 0xC3, CHR 0xB3] @ '' elutas'' @
              [CHR 0xC3, CHR 0xAD] @ ''totta a c'' @ [CHR 0xC3, CHR 0xAD] @ ''mzettet. Ellen'' @
              [CHR 0xC5, CHR 0x91] @ ''rizd az email-c'' @ [CHR 0xC3, CHR 0xAD] @ ''met '' @
              [CHR 0xC3, CHR 0xA9] @ ''s a szolg'' @ [CHR 0xC3, CHR 0xA1] @ ''ltat'' @
              [CHR 0xC3, CHR 0xB3] @ '' k'' @ [CHR 0xC3, CHR 0xBC] @ ''ld'' @ [CHR 0xC3, CHR 0xA9] @
              ''si korl'' @ [CHR 0xC3, CHR 0xA1] @ ''toz'' @ [CHR 0xC3, CHR 0xA1] @ ''sait.'')
      else if contains_text e ''sender rejected'' then (''Az SMTP-kiszolg'' @ [CHR 0xC3, CHR 0xA1] @ ''l'' @ [CHR 0xC3, CHR 0xB3] @ '' elutas'' @
              [CHR 0xC3, CHR 0xAD] @ ''totta a felad'' @ [CHR 0xC3, CHR 0xB3] @ ''t. Ellen'' @
              [CHR 0xC5, CHR 0x91] @ ''rizd a server.yaml smtp.from c'' @ [CHR 0xC3, CHR 0xAD] @
              ''m'' @ [CHR 0xC3, CHR 0xA9] @ ''t '' @ [CHR 0xC3, CHR 0xA9] @ ''s a szolg'' @
              [CHR 0xC3, CHR 0xA1] @ ''ltat'' @ [CHR 0xC3, CHR 0xB3] @ ''n'' @
              [CHR 0xC3, CHR 0xA1] @ ''l enged'' @ [CHR 0xC3, CHR 0xA9] @ ''lyezett felad'' @
              [CHR 0xC3, CHR 0xB3] @ ''t.'')
      else (''Az SMTP-k'' @ [CHR 0xC3, CHR 0xBC] @ ''ld'' @ [CHR 0xC3, CHR 0xA9] @ ''s sikertelen. Ellen'' @
              [CHR 0xC5, CHR 0x91] @ ''rizd a kiszolg'' @ [CHR 0xC3, CHR 0xA1] @ ''l'' @
              [CHR 0xC3, CHR 0xB3] @ '' c'' @ [CHR 0xC3, CHR 0xAD] @ ''m'' @ [CHR 0xC3, CHR 0xA9] @
              ''t, portj'' @ [CHR 0xC3, CHR 0xA1] @ ''t '' @ [CHR 0xC3, CHR 0xA9] @ ''s a t'' @
              [CHR 0xC5, CHR 0xB1] @ ''zfalat.''))"

text \<open>\<open>sent\<close> is the outcome of \<open>SendTo\<close>: the text of its error, if any.\<close>

definition test_notification :: "server_lib \<Rightarrow> gotime \<Rightarrow> gotime \<Rightarrow> gotime \<Rightarrow> string option \<Rightarrow> request \<Rightarrow> server \<Rightarrow> response \<times> server" where
  "test_notification p now limiter_now mail_now sent r s =
     (case notification_form p now r s of
        (Inl e, s1) \<Rightarrow> (e, s1)
      | (Inr q, s1) \<Rightarrow>
          if \<not> sm_enabled (sc_smtp (sv_cfg s1)) then
            (http_error 409 (''Az SMTP nincs enged'' @ [CHR 0xC3, CHR 0xA9] @ ''lyezve. '' @ [CHR 0xC3, CHR 0x81] @ ''ll'' @
              [CHR 0xC3, CHR 0xAD] @ ''tsd be a server.yaml smtp mez'' @ [CHR 0xC5, CHR 0x91] @
              ''it (enabled, address, from, username), '' @ [CHR 0xC3, CHR 0xA9] @
              ''s a MONITOROZO_SMTP_PASSWORD k'' @ [CHR 0xC3, CHR 0xB6] @ ''rnyezeti v'' @
              [CHR 0xC3, CHR 0xA1] @ ''ltoz'' @ [CHR 0xC3, CHR 0xB3] @ ''t, majd ind'' @
              [CHR 0xC3, CHR 0xAD] @ ''tsd '' @ [CHR 0xC3, CHR 0xBA] @ ''jra a szervert.''), s1)
          else
            (let (allowed, l) = allow limiter_now ''test-email'' (sv_email_limiter s1);
                 s2 = s1\<lparr>sv_email_limiter := l\<rparr> in
             if \<not> allowed then
               (http_error 429 (''Legfeljebb h'' @ [CHR 0xC3, CHR 0xA1] @ ''rom teszt k'' @ [CHR 0xC3, CHR 0xBC] @ ''ldhet'' @
              [CHR 0xC5, CHR 0x91] @ '' percenk'' @ [CHR 0xC3, CHR 0xA9] @ ''nt. V'' @
              [CHR 0xC3, CHR 0xA1] @ ''rj egy percet.''), s2)
             else
               (let s3 = s2\<lparr>sv_outbox := sv_outbox s2 @ [\<lparr>ml_subject = TestMail mail_now,
                      ml_url = sc_public_url (sv_cfg s2), ml_recipient = pr_recipient q,
                      ml_accepted = (sent = None)\<rparr>]\<rparr> in
                case sent of
                  Some e \<Rightarrow> (http_error 502 (mail_advice e @ ('' A pontos hiba a monitorozo-server napl'' @ [CHR 0xC3, CHR 0xB3] @ ''j'' @ [CHR 0xC3, CHR 0xA1] @
              ''ban tal'' @ [CHR 0xC3, CHR 0xA1] @ ''lhat'' @ [CHR 0xC3, CHR 0xB3] @ ''.'')), s3)
                | None \<Rightarrow> (respond 200 (Message ((''Az SMTP-kiszolg'' @ [CHR 0xC3, CHR 0xA1] @ ''l'' @ [CHR 0xC3, CHR 0xB3] @
              '' elfogadta a tesztlevelet erre a c'' @ [CHR 0xC3, CHR 0xAD] @ ''mre: '') @ pr_recipient q @
                    (''. Ellen'' @ [CHR 0xC5, CHR 0x91] @ ''rizd a be'' @ [CHR 0xC3, CHR 0xA9] @ ''rkez'' @
              [CHR 0xC5, CHR 0x91] @ '' '' @ [CHR 0xC3, CHR 0xA9] @ ''s a spam mapp'' @
              [CHR 0xC3, CHR 0xA1] @ ''t. A teszt nem menti a be'' @ [CHR 0xC3, CHR 0xA1] @ ''ll'' @
              [CHR 0xC3, CHR 0xAD] @ ''t'' @ [CHR 0xC3, CHR 0xA1] @ ''sokat.''))), s3))))"

end
