(* ===== verification/Mailer.thy ===== *)
theory Mailer
  imports Server Config_Sound GoEncode
begin

text \<open>
  Sending a mail (\<open>internal/email/smtp.go\<close>): the text of the message and the dialogue with the mail server.
  What the server answers at each step is the input \<open>smtp_io\<close>, an error or none; the result is the error
  \<open>SendTo\<close> returns and the steps taken up to there.  The client of \<open>net/smtp\<close>, TLS and the network are
  behind the steps.
\<close>

subsection \<open>The message\<close>

text \<open>The alert \<open>SendTo\<close> is given.  The one of a test message has no severity and a state of its own, for which
  the model's types have no value; it is told apart by its rule.\<close>

definition subject_alert :: "mail_subject \<Rightarrow> alert" where
  "subject_alert s =
     (case s of AlertMail a \<Rightarrow> a
      | TestMail t \<Rightarrow> \<lparr>al_hostname = [], al_target = [], al_id = 0, al_agent_id = ''Monitorozo'', al_rule_key = ''test_email'',
          al_resource = [], al_severity = Critical, al_state = Firing, al_value = Fin 0, al_threshold = Fin 0,
          al_started_at = t, al_firing_at = None, al_resolved_at = None, al_acknowledged_at = None,
          al_acknowledged_by = [], al_notification = NotNone, al_last_notified_at = None, al_violation_count = 0\<rparr>)"

definition mail_state :: "alert \<Rightarrow> string" where
  "mail_state a =
     (if al_rule_key a = ''test_email'' then ''TESZT''
      else if al_state a = Resolved then (''HELYRE'' @ [CHR 0xC3, CHR 0x81] @ ''LLT'')
      else if al_severity a = Warning then (''FIGYELMEZTET'' @ [CHR 0xC3, CHR 0x89] @ ''S'')
      else ''KRITIKUS'')"

text \<open>The alert with its target and host name filled in.\<close>

definition named_alert :: "alert \<Rightarrow> alert" where
  "named_alert a0 =
     (let a = (if al_target a0 = [] then a0\<lparr>al_target := al_resource a0\<rparr> else a0) in
      if al_hostname a = [] then a\<lparr>al_hostname := al_agent_id a\<rparr> else a)"

definition mail_header_subject :: "alert \<Rightarrow> string" where
  "mail_header_subject a0 =
     (let a = named_alert a0 in
      replace_all ''?= =?'' (''?='' @ [CHR 0x0D, CHR 0x0A] @ '' =?'')
        (q_encode (''[Monitorozo] '' @ mail_state a @ '': '' @ al_hostname a @ ('' '' @ [CHR 0xC2, CHR 0xB7] @ '' '') @ de_title (describe a0) @ ('' '' @ [CHR 0xC2, CHR 0xB7] @ '' '') @ al_target a)))"

definition mail_body :: "alert \<Rightarrow> string \<Rightarrow> string" where
  "mail_body a0 dashboard_url =
     (let a = named_alert a0; d = describe a0; nl = [CHR 0x0A];
          duration = (case al_resolved_at a of None \<Rightarrow> []
            | Some t \<Rightarrow> nl @ (''Hiba id'' @ [CHR 0xC5, CHR 0x91] @ ''tartama: '') @ duration_text (duration_round (time_sub t (al_started_at a)) second));
          action = (if al_state a = Resolved then (''Az '' @ [CHR 0xC3, CHR 0xA1] @ ''llapot helyre'' @ [CHR 0xC3, CHR 0xA1] @ ''llt. Ellen'' @ [CHR 0xC5, CHR 0x91] @ ''rizd, hogy a javul'' @ [CHR 0xC3, CHR 0xA1] @ ''s tart'' @ [CHR 0xC3, CHR 0xB3] @ ''s-e. '') @ de_action d else de_action d) in
      mail_state a @ '': '' @ de_title d @ nl @ ''Szerver: '' @ al_hostname a @ nl @ (''Agent azonos'' @ [CHR 0xC3, CHR 0xAD] @ ''t'' @ [CHR 0xC3, CHR 0xB3] @ '': '') @ al_agent_id a @ nl @
      ([CHR 0xC3, CHR 0x89] @ ''rintett er'' @ [CHR 0xC5, CHR 0x91] @ ''forr'' @ [CHR 0xC3, CHR 0xA1] @ ''s / '' @ [CHR 0xC3, CHR 0xBA] @ ''tvonal: '') @ al_target a @ nl @ de_measurement d @ nl @ ''Kezdete: '' @ time_text (al_started_at a) @ duration @
      nl @ nl @ (''Teend'' @ [CHR 0xC5, CHR 0x91]) @ nl @ action @ nl @ nl @ ([CHR 0xC3, CHR 0x81] @ ''llapot '' @ [CHR 0xC3, CHR 0xA9] @ ''s r'' @ [CHR 0xC3, CHR 0xA9] @ ''szletek: '') @ dashboard_url @ nl)"

definition crlf :: string where "crlf = [CHR 0x0D, CHR 0x0A]"

definition mail_message :: "smtp_config \<Rightarrow> alert \<Rightarrow> string \<Rightarrow> string \<Rightarrow> string" where
  "mail_message c a dashboard_url recipient =
     ''From: '' @ sm_from c @ crlf @ ''To: '' @ recipient @ crlf @ ''Subject: '' @ mail_header_subject a @ crlf @
     ''MIME-Version: 1.0'' @ crlf @ ''Content-Type: text/plain; charset=UTF-8'' @ crlf @
     ''Content-Transfer-Encoding: quoted-printable'' @ crlf @ crlf @ quoted_printable (mail_body a dashboard_url)"

subsection \<open>The dialogue\<close>

datatype smtp_step =
    Dial string | Greet string | AskStartTls | StartTls string | Authenticate string string string
  | MailFrom string | RcptTo string | StartData | WriteData string | EndData | Quit

record smtp_io =
  so_dial :: "string option"
  so_greet :: "string option"
  so_offers_starttls :: bool
  so_starttls :: "string option"
  so_auth :: "string option"
  so_mail :: "string option"
  so_rcpt :: "string option"
  so_data :: "string option"
  so_write :: "string option"
  so_end :: "string option"
  so_quit :: "string option"

text \<open>The first error ends the sequence.\<close>

fun run_steps :: "(smtp_step \<times> string option) list \<Rightarrow> string option \<times> smtp_step list" where
  "run_steps [] = (None, [])"
| "run_steps ((st, r) # xs) =
     (case r of Some e \<Rightarrow> (Some e, [st]) | None \<Rightarrow> (case run_steps xs of (e, sts) \<Rightarrow> (e, st # sts)))"

definition wrapped :: "string \<Rightarrow> string option \<Rightarrow> string option" where
  "wrapped context r = map_option ((@) context) r"

definition dialogue :: "smtp_config \<Rightarrow> smtp_io \<Rightarrow> string \<Rightarrow> string \<Rightarrow> string \<Rightarrow> (smtp_step \<times> string option) list" where
  "dialogue c io host recipient message =
     [(Dial (sm_address c), wrapped ''connect SMTP: '' (so_dial io)),
      (Greet host, wrapped ''start SMTP: '' (so_greet io)),
      (AskStartTls, if so_offers_starttls io then None else Some ''SMTP server does not offer STARTTLS''),
      (StartTls host, wrapped ''SMTP STARTTLS: '' (so_starttls io))] @
     (if sm_username c \<noteq> [] then
        [(Authenticate (sm_username c) (sm_password c) host, wrapped ''SMTP authentication: '' (so_auth io))] else []) @
     [(MailFrom (sm_from c), wrapped ''SMTP sender rejected: '' (so_mail io)),
      (RcptTo recipient, wrapped ''SMTP recipient rejected: '' (so_rcpt io)),
      (StartData, so_data io), (WriteData message, so_write io), (EndData, so_end io),
      (Quit, case so_quit io of None \<Rightarrow> None | Some e \<Rightarrow> if contains_text e ''connection'' then None else Some e)]"

definition send_to :: "go_lib \<Rightarrow> smtp_config \<Rightarrow> smtp_io \<Rightarrow> alert \<Rightarrow> string \<Rightarrow> string \<Rightarrow> string option \<times> smtp_step list" where
  "send_to lib c io a dashboard_url recipient =
     (if \<not> sm_enabled c then (Some (''SMTP nincs enged'' @ [CHR 0xC3, CHR 0xA9] @ ''lyezve a szerver konfigur'' @ [CHR 0xC3, CHR 0xA1] @ ''ci'' @ [CHR 0xC3, CHR 0xB3] @ ''j'' @ [CHR 0xC3, CHR 0xA1] @ ''ban''), [])
      else if gl_mail_address lib recipient \<noteq> Some recipient \<or> contains_any recipient [CHR 0x0D, CHR 0x0A] then
        (Some ([CHR 0xC3, CHR 0xA9] @ ''rv'' @ [CHR 0xC3, CHR 0xA9] @ ''nytelen c'' @ [CHR 0xC3, CHR 0xAD] @ ''mzett''), [])
      else case split_host_port (sm_address c) of
          None \<Rightarrow> (Some ''invalid SMTP address'', [])
        | Some (host, _) \<Rightarrow> run_steps (dialogue c io host recipient (mail_message c a dashboard_url recipient)))"

definition send_mail :: "go_lib \<Rightarrow> smtp_config \<Rightarrow> smtp_io \<Rightarrow> alert \<Rightarrow> string \<Rightarrow> string option \<times> smtp_step list" where
  "send_mail lib c io a dashboard_url = send_to lib c io a dashboard_url (sm_to c)"

subsection \<open>Nothing before TLS\<close>

definition confidential :: "smtp_step \<Rightarrow> bool" where
  "confidential st \<longleftrightarrow> (case st of Dial _ \<Rightarrow> False | Greet _ \<Rightarrow> False | AskStartTls \<Rightarrow> False | StartTls _ \<Rightarrow> False | _ \<Rightarrow> True)"

lemma run_steps_prefix: "run_steps xs = (e, sts) \<Longrightarrow> \<exists>n. sts = map fst (take n xs) \<and> (e = None \<longrightarrow> sts = map fst xs)"
proof (induction xs arbitrary: e sts rule: run_steps.induct)
  case (2 st r xs)
  show ?case
  proof (cases r)
    case None
    obtain e' sts' where r: "run_steps xs = (e', sts')" by force
    then obtain n where "sts' = map fst (take n xs) \<and> (e' = None \<longrightarrow> sts' = map fst xs)" using "2.IH" None by blast
    then show ?thesis using "2.prems" None r by (intro exI [of _ "Suc n"]) auto
  next
    case (Some x)
    then show ?thesis using "2.prems" by (intro exI [of _ 1]) auto
  qed
qed simp

text \<open>A step is taken only when all before it succeeded.\<close>

lemma run_steps_ok:
  "run_steps xs = (e, sts) \<Longrightarrow> sts = pre @ st # post \<Longrightarrow>
    \<exists>before later r. xs = before @ (st, r) # later \<and> map fst before = pre \<and> (\<forall>x \<in> set before. snd x = None)"
proof (induction xs arbitrary: e sts pre rule: run_steps.induct)
  case (2 s r xs)
  obtain e' sts' where r: "run_steps xs = (e', sts')" by force
  show ?case
  proof (cases pre)
    case Nil
    then have "s = st" using "2.prems" r by (auto split: option.splits)
    then show ?thesis using Nil by (intro exI [of _ "[]"] exI [of _ xs] exI [of _ r]) simp
  next
    case (Cons p ps)
    then have "r = None" "s = p" "sts' = ps @ st # post" using "2.prems" r by (auto split: option.splits)
    then obtain don rst r' where "xs = don @ (st, r') # rst" "map fst don = ps" "\<forall>x \<in> set don. snd x = None"
      using "2.IH" [of e' sts' ps] r by auto
    then show ?thesis using \<open>r = None\<close> \<open>s = p\<close> Cons
      by (intro exI [of _ "(s, r) # don"] exI [of _ rst] exI [of _ r']) simp
  qed
qed simp

lemma run_steps_none: "run_steps xs = (None, sts) \<Longrightarrow> sts = map fst xs \<and> (\<forall>x \<in> set xs. snd x = None)"
  by (induction xs arbitrary: sts rule: run_steps.induct) (auto split: option.splits prod.splits)

lemma wrapped_None [simp]: "wrapped context r = None \<longleftrightarrow> r = None"
  by (simp add: wrapped_def)

lemma not_in_front: "xs @ y # zs = as @ bs \<Longrightarrow> y \<notin> set as \<Longrightarrow> \<exists>b2. xs = as @ b2"
  by (auto simp: append_eq_append_conv2 Cons_eq_append_conv)

text \<open>The steps before the confidential ones, and those before the message.\<close>

definition handshake :: "smtp_config \<Rightarrow> smtp_io \<Rightarrow> string \<Rightarrow> (smtp_step \<times> string option) list" where
  "handshake c io host =
     [(Dial (sm_address c), wrapped ''connect SMTP: '' (so_dial io)), (Greet host, wrapped ''start SMTP: '' (so_greet io)),
      (AskStartTls, if so_offers_starttls io then None else Some ''SMTP server does not offer STARTTLS''),
      (StartTls host, wrapped ''SMTP STARTTLS: '' (so_starttls io))]"

definition envelope :: "smtp_config \<Rightarrow> smtp_io \<Rightarrow> string \<Rightarrow> string \<Rightarrow> (smtp_step \<times> string option) list" where
  "envelope c io host recipient =
     (if sm_username c \<noteq> [] then
        [(Authenticate (sm_username c) (sm_password c) host, wrapped ''SMTP authentication: '' (so_auth io))] else []) @
     [(MailFrom (sm_from c), wrapped ''SMTP sender rejected: '' (so_mail io)),
      (RcptTo recipient, wrapped ''SMTP recipient rejected: '' (so_rcpt io)), (StartData, so_data io)]"

lemma dialogue_parts: "\<exists>q. dialogue c io host recipient message = handshake c io host @ envelope c io host recipient @
    [(WriteData message, so_write io), (EndData, so_end io), q]"
  by (simp add: dialogue_def handshake_def envelope_def)

text \<open>What a dialogue has done before it sends a secret or the message, and what its success means.\<close>

lemma secret_after_tls:
  assumes run: "run_steps (dialogue c io host recipient m) = (err, steps)"
    and st: "steps = pre @ st # post" "confidential st"
  shows "so_offers_starttls io \<and> so_starttls io = None \<and> StartTls host \<in> set pre"
proof -
  obtain q where d: "dialogue c io host recipient m = handshake c io host @ envelope c io host recipient @
      [(WriteData m, so_write io), (EndData, so_end io), q]"
    using dialogue_parts by blast
  obtain before later r where b: "dialogue c io host recipient m = before @ (st, r) # later" "map fst before = pre"
      "\<forall>x \<in> set before. snd x = None"
    using run_steps_ok [OF run st(1)] by blast
  have "\<forall>x \<in> set (handshake c io host). \<not> confidential (fst x)" by (simp add: handshake_def confidential_def)
  then have "(st, r) \<notin> set (handshake c io host)" using st(2) by fastforce
  then obtain b2 where b2: "before = handshake c io host @ b2" using not_in_front [OF trans [OF b(1) [symmetric] d]] by blast
  then have "\<forall>x \<in> set (handshake c io host). snd x = None" using b(3) by simp
  then have "so_offers_starttls io \<and> so_starttls io = None" by (auto simp: handshake_def split: if_splits)
  moreover have "StartTls host \<in> set (map fst (handshake c io host))" by (simp add: handshake_def)
  moreover have "pre = map fst (handshake c io host) @ map fst b2" using b(2) b2 by simp
  ultimately show ?thesis by (simp del: set_map)
qed

lemma message_after_recipient:
  assumes run: "run_steps (dialogue c io host recipient m) = (err, steps)" and st: "steps = pre @ WriteData body # post"
  shows "RcptTo recipient \<in> set pre \<and> so_rcpt io = None \<and> (sm_username c \<noteq> [] \<longrightarrow> so_auth io = None)"
proof -
  obtain q where d: "dialogue c io host recipient m = handshake c io host @ envelope c io host recipient @
      [(WriteData m, so_write io), (EndData, so_end io), q]"
    using dialogue_parts by blast
  obtain before later r where b: "dialogue c io host recipient m = before @ (WriteData body, r) # later" "map fst before = pre"
      "\<forall>x \<in> set before. snd x = None"
    using run_steps_ok [OF run st] by blast
  have "(WriteData body, r) \<notin> set (handshake c io host @ envelope c io host recipient)"
    by (auto simp: handshake_def envelope_def)
  then obtain b2 where b2: "before = (handshake c io host @ envelope c io host recipient) @ b2"
    using not_in_front [OF trans [OF b(1) [symmetric] d, folded append_assoc], unfolded append_assoc] by auto
  then have "\<forall>x \<in> set (envelope c io host recipient). snd x = None" using b(3) by simp
  then have "so_rcpt io = None \<and> (sm_username c \<noteq> [] \<longrightarrow> so_auth io = None)" by (simp add: envelope_def)
  moreover have "RcptTo recipient \<in> set (map fst (envelope c io host recipient))" by (simp add: envelope_def)
  moreover have "pre = map fst (handshake c io host) @ map fst (envelope c io host recipient) @ map fst b2"
    using b(2) b2 by simp
  ultimately show ?thesis by (simp del: set_map)
qed

lemma success_means_taken:
  assumes run: "run_steps (dialogue c io host recipient m) = (None, steps)"
  shows "WriteData m \<in> set steps \<and> so_write io = None \<and> so_end io = None"
proof -
  have all: "steps = map fst (dialogue c io host recipient m)" "\<forall>x \<in> set (dialogue c io host recipient m). snd x = None"
    using run_steps_none [OF run] by blast+
  have w: "(WriteData m, so_write io) \<in> set (dialogue c io host recipient m)"
      "(EndData, so_end io) \<in> set (dialogue c io host recipient m)"
    using dialogue_parts [of c io host recipient m] by auto
  have "WriteData m \<in> set steps" using imageI [OF w(1), of fst] unfolding all(1) set_map by (metis fst_conv)
  then show ?thesis using bspec [OF all(2) w(1)] bspec [OF all(2) w(2)] by simp
qed

text \<open>C17. Mail goes over TLS or not at all: whatever the mail server answers, the password, the addresses and
  the message are sent only after it offered STARTTLS and the handshake for its configured name
  succeeded, and the credentials, if any, were accepted before the message; and \<open>SendTo\<close> reports success
  only when the server has taken the whole message for the recipient.\<close>

theorem mail_only_over_tls:
  assumes "send_to lib c io a url recipient = (err, steps)"
  shows "(\<forall>pre st post. steps = pre @ st # post \<and> confidential st \<longrightarrow>
      so_offers_starttls io \<and> so_starttls io = None \<and>
      (\<exists>host port. split_host_port (sm_address c) = Some (host, port) \<and> StartTls host \<in> set pre)) \<and>
    (\<forall>pre body post. steps = pre @ WriteData body # post \<longrightarrow> RcptTo recipient \<in> set pre \<and> so_rcpt io = None \<and>
      (sm_username c \<noteq> [] \<longrightarrow> so_auth io = None)) \<and>
    (err = None \<longrightarrow> WriteData (mail_message c a url recipient) \<in> set steps \<and> so_write io = None \<and> so_end io = None \<and>
      gl_mail_address lib recipient = Some recipient)"
proof (cases "\<exists>host port. split_host_port (sm_address c) = Some (host, port) \<and> gl_mail_address lib recipient = Some recipient \<and>
    run_steps (dialogue c io host recipient (mail_message c a url recipient)) = (err, steps)")
  case False
  then have "steps = [] \<and> err \<noteq> None" using assms by (auto simp: send_to_def split: if_splits option.splits)
  then show ?thesis by simp
next
  case True
  then obtain host port where h: "split_host_port (sm_address c) = Some (host, port)" "gl_mail_address lib recipient = Some recipient"
      "run_steps (dialogue c io host recipient (mail_message c a url recipient)) = (err, steps)"
    by blast
  show ?thesis
  proof (intro conjI)
    show "\<forall>pre st post. steps = pre @ st # post \<and> confidential st \<longrightarrow> so_offers_starttls io \<and> so_starttls io = None \<and>
        (\<exists>host port. split_host_port (sm_address c) = Some (host, port) \<and> StartTls host \<in> set pre)"
      using secret_after_tls [OF h(3)] h(1) by metis
    show "\<forall>pre body post. steps = pre @ WriteData body # post \<longrightarrow> RcptTo recipient \<in> set pre \<and> so_rcpt io = None \<and>
        (sm_username c \<noteq> [] \<longrightarrow> so_auth io = None)"
      using message_after_recipient [OF h(3)] by metis
    show "err = None \<longrightarrow> WriteData (mail_message c a url recipient) \<in> set steps \<and> so_write io = None \<and> so_end io = None \<and>
        gl_mail_address lib recipient = Some recipient"
      using success_means_taken h(2,3) by metis
  qed
qed

text \<open>A configuration, an alert, and a server that answers every step.\<close>

definition demo_smtp :: smtp_config where
  "demo_smtp = \<lparr>sm_enabled = True, sm_address = ''mail.example:587'', sm_username = ''mon'', sm_password = ''pw'',
     sm_from = ''mon@example.org'', sm_to = ''ops@example.org''\<rparr>"

definition willing_server :: smtp_io where
  "willing_server = \<lparr>so_dial = None, so_greet = None, so_offers_starttls = True, so_starttls = None, so_auth = None,
     so_mail = None, so_rcpt = None, so_data = None, so_write = None, so_end = None, so_quit = None\<rparr>"

lemma run_steps_all: "\<forall>x \<in> set xs. snd x = None \<Longrightarrow> run_steps xs = (None, map fst xs)"
  by (induction xs rule: run_steps.induct) auto

lemma demo_mail_sent:
  "send_to demo_lib demo_smtp willing_server a url ''ops@example.org'' =
    (None, map fst (dialogue demo_smtp willing_server ''mail.example'' ''ops@example.org''
       (mail_message demo_smtp a url ''ops@example.org'')))"
proof -
  have split: "split_host_port ''mail.example:587'' = Some (''mail.example'', ''587'')" by code_simp
  have plain: "\<not> contains_any ''ops@example.org'' [CHR 0x0D, CHR 0x0A]" by code_simp
  have "\<forall>x \<in> set (dialogue demo_smtp willing_server ''mail.example'' ''ops@example.org''
      (mail_message demo_smtp a url ''ops@example.org'')). snd x = None"
    by (simp add: dialogue_def willing_server_def wrapped_def demo_smtp_def)
  from run_steps_all [OF this] show ?thesis
    using split plain by (simp add: send_to_def demo_smtp_def demo_lib_def)
qed

theorem mail_only_over_tls_witness:
  "WriteData (mail_message demo_smtp (subject_alert (TestMail 0)) ''https://mon.example/'' ''ops@example.org'') \<in>
    set (snd (send_to demo_lib demo_smtp willing_server (subject_alert (TestMail 0)) ''https://mon.example/'' ''ops@example.org''))"
  using mail_only_over_tls [OF demo_mail_sent [of "subject_alert (TestMail 0)" "''https://mon.example/''"]]
  unfolding demo_mail_sent snd_conv by blast

subsection \<open>Header lines\<close>

definition one_line :: "string \<Rightarrow> bool" where
  "one_line s \<longleftrightarrow> CHR 0x0D \<notin> set s \<and> CHR 0x0A \<notin> set s"

lemma one_line_append [simp]: "one_line (s @ t) \<longleftrightarrow> one_line s \<and> one_line t"
  by (auto simp: one_line_def)

lemma hex_upper_plain: "d < 16 \<Longrightarrow> 33 \<le> code (hex_upper d) \<and> code (hex_upper d) \<le> 126"
proof (cases "d < 10")
  case True
  then show ?thesis by (simp add: hex_upper_def code_digit_char)
next
  case False
  assume "d < 16"
  then show ?thesis using False by (simp add: hex_upper_def code_def)
qed

lemma high_code_one_line: "(\<forall>c \<in> set s. 32 \<le> code c) \<Longrightarrow> one_line s"
  by (auto simp: one_line_def code_def)

lemma all_concat: "(\<And>x. \<forall>c \<in> set (g x). P c) \<Longrightarrow> \<forall>c \<in> set (concat (map g s)). P c"
  by auto

lemma q_string_one_line: "one_line (q_string s)"
proof -
  have "code c div 16 < 16" for c using nat_of_char_less_256 [of c] by (simp add: code_def less_mult_imp_div_less)
  then have hex: "32 \<le> code (hex_upper (code c div 16))" "32 \<le> code (hex_upper (code c mod 16))" for c
    using hex_upper_plain [of "code c div 16"] hex_upper_plain [of "code c mod 16"] by simp_all
  have lit: "32 \<le> code CHR ''=''" "32 \<le> code CHR ''_''" by (simp_all add: code_def)
  have esc: "\<forall>x \<in> set (escaped_byte c). 32 \<le> code x" for c
    using hex lit(1) by (simp add: escaped_byte_def)
  have plain: "q_plain c \<Longrightarrow> 32 \<le> code c" for c by (simp add: q_plain_def)
  have "\<forall>x \<in> set (if c = CHR '' '' then ''_'' else if q_plain c then [c] else escaped_byte c). 32 \<le> code x" for c
    using esc lit(2) plain by simp
  then have "\<forall>c \<in> set (q_string s). 32 \<le> code c"
    unfolding q_string_def by (intro all_concat) blast
  then show ?thesis by (rule high_code_one_line)
qed

lemma q_words_one_line: "one_line (q_words used s)"
proof (induction used s rule: q_words.induct)
  case (2 used c cs)
  then show ?case using q_string_one_line by (simp add: Let_def) (simp add: one_line_def)
qed (simp add: one_line_def)

lemma q_encode_one_line: "one_line (q_encode s)"
proof (cases "needs_encoding s")
  case True
  then show ?thesis using q_words_one_line by (simp add: q_encode_def) (simp add: one_line_def)
next
  case False
  then have "\<forall>c \<in> set s. 32 \<le> code c \<or> code c = 9" by (auto simp: needs_encoding_def list_ex_iff)
  then have "one_line s" by (auto simp: one_line_def code_def)
  then show ?thesis using False by (simp add: q_encode_def)
qed

text \<open>The folded subject: lines joined by a line break and a space.\<close>

fun folded :: "string list \<Rightarrow> string" where
  "folded [] = []"
| "folded [l] = l"
| "folded (l # ls) = l @ crlf @ '' '' @ folded ls"

lemma folded_Cons: "ls \<noteq> [] \<Longrightarrow> folded (l # ls) = l @ crlf @ '' '' @ folded ls"
  by (cases ls) simp_all

lemma folded_front: "ls \<noteq> [] \<Longrightarrow> folded ((c # hd ls) # tl ls) = c # folded ls"
  by (cases ls; cases "tl ls") simp_all

lemma folding_lines:
  "one_line s \<Longrightarrow> \<exists>ls. ls \<noteq> [] \<and> (\<forall>l \<in> set ls. one_line l) \<and>
    replace_all ''?= =?'' (''?='' @ [CHR 0x0D, CHR 0x0A] @ '' =?'') s = folded ls"
proof (induction "''?= =?''" "''?='' @ [CHR 0x0D, CHR 0x0A] @ '' =?''" s rule: replace_all.induct)
  case 1
  show ?case by (intro exI [of _ "[[]]"]) (simp add: one_line_def)
next
  case (2 c cs)
  show ?case
  proof (cases "has_prefix (c # cs) ''?= =?''")
    case True
    have "one_line (drop (length ''?= =?'' - 1) cs)" using "2.prems" by (auto simp: one_line_def dest: in_set_dropD)
    then obtain ls where ls: "ls \<noteq> []" "\<forall>l \<in> set ls. one_line l"
        "replace_all ''?= =?'' (''?='' @ [CHR 0x0D, CHR 0x0A] @ '' =?'') (drop (length ''?= =?'' - 1) cs) = folded ls"
      using "2.hyps"(1) True by blast
    have "folded (''?='' # (CHR ''='' # (CHR ''?'' # hd ls)) # tl ls) = ''?='' @ crlf @ '' '' @ ''=?'' @ folded ls"
      using ls(1) folded_front [of "(CHR ''?'' # hd ls) # tl ls" "CHR ''=''"] folded_front [of ls "CHR ''?''"] by simp
    then show ?thesis using True ls
      by (intro exI [of _ "''?='' # (CHR ''='' # (CHR ''?'' # hd ls)) # tl ls"])
        (auto simp: one_line_def crlf_def dest: list.set_sel)
  next
    case False
    have "one_line cs" "one_line [c]" using "2.prems" by (auto simp: one_line_def)
    then obtain ls where ls: "ls \<noteq> []" "\<forall>l \<in> set ls. one_line l"
        "replace_all ''?= =?'' (''?='' @ [CHR 0x0D, CHR 0x0A] @ '' =?'') cs = folded ls"
      using "2.hyps"(2) False by auto
    then show ?thesis using False \<open>one_line [c]\<close> folded_front [OF ls(1), of c]
      by (intro exI [of _ "(c # hd ls) # tl ls"]) (auto simp: one_line_def dest: list.set_sel)
  qed
qed

fun header_text :: "string list \<Rightarrow> string" where
  "header_text [] = []"
| "header_text (l # ls) = l @ crlf @ header_text ls"

lemma header_text_append: "header_text (as @ bs) = header_text as @ header_text bs"
  by (induction as) simp_all

lemma header_text_folded: "ls \<noteq> [] \<Longrightarrow> header_text (hd ls # map ((@) '' '') (tl ls)) = folded ls @ crlf"
proof (induction ls rule: folded.induct)
  case (3 l l' ls)
  then show ?case by (cases ls) simp_all
qed simp_all



end
