(* ===== verification/GoMux.thy ===== *)
theory GoMux
  imports GoPath
begin

text \<open>
  What the program uses of \<open>net/http\<close>'s \<open>ServeMux\<close>: patterns of a method and a path whose segments are literal
  or match any one segment, and which may end in a slash to match everything below; the most specific
  matching pattern handles a request.  Paths are cleaned first, with a redirect; a path whose pattern with a
  slash at its end is registered is redirected there.  The path of a request is the escaped one.
\<close>

subsection \<open>Paths\<close>

definition hex_digit :: "char \<Rightarrow> nat option" where
  "hex_digit c =
     (if is_digit c then Some (code c - 48)
      else if 97 \<le> code c \<and> code c \<le> 102 then Some (code c - 87)
      else if 65 \<le> code c \<and> code c \<le> 70 then Some (code c - 55) else None)"

text \<open>\<open>url.PathUnescape\<close>.\<close>

fun unescape_from :: "string \<Rightarrow> string option" where
  "unescape_from [] = Some []"
| "unescape_from (c # cs) =
     (if c = CHR ''%'' then
        (case cs of
           a # b # rest \<Rightarrow>
             (case (hex_digit a, hex_digit b) of
                (Some x, Some y) \<Rightarrow> map_option ((#) (char_of (16 * x + y))) (unescape_from rest)
              | _ \<Rightarrow> None)
         | _ \<Rightarrow> None)
      else map_option ((#) c) (unescape_from cs))"

definition path_unescape :: "string \<Rightarrow> string" where
  "path_unescape s = (case unescape_from s of None \<Rightarrow> s | Some t \<Rightarrow> t)"

text \<open>The segments of a path that starts with a slash; a slash at the end is a segment of its own.\<close>

function path_segments :: "string \<Rightarrow> string list" where
  "path_segments [] = []"
| "path_segments (c # p) =
     (if p = [] then [''/'']
      else path_unescape (takeWhile (\<lambda>x. x \<noteq> CHR ''/'') p) # path_segments (dropWhile (\<lambda>x. x \<noteq> CHR ''/'') p))"
  by pat_completeness auto
termination
  by (relation "measure length") (auto simp: less_Suc_eq_le intro: length_dropWhile_le)

text \<open>The mux's \<open>cleanPath\<close>, which keeps a slash at the end.\<close>

definition mux_clean :: "string \<Rightarrow> string" where
  "mux_clean p0 =
     (if p0 = [] then ''/''
      else (let p = (if hd p0 = CHR ''/'' then p0 else CHR ''/'' # p0); np = path_text (clean_path p) in
        if last p = CHR ''/'' \<and> np \<noteq> ''/'' then np @ ''/'' else np))"

subsection \<open>Patterns\<close>

datatype segment = Lit string | Wild

record 'h route =
  rt_method :: string
  rt_segments :: "segment list"
  rt_below :: bool
  rt_handler :: 'h

fun match_segments :: "segment list \<Rightarrow> bool \<Rightarrow> string list \<Rightarrow> string list option" where
  "match_segments [] below rest = (if (rest = []) = below then None else Some [])"
| "match_segments (Lit l # ss) below (x # xs) = (if x = l then match_segments ss below xs else None)"
| "match_segments (Wild # ss) below (x # xs) =
     (if x \<noteq> ''/'' then map_option ((#) x) (match_segments ss below xs) else None)"
| "match_segments (s # ss) below [] = None"

text \<open>The order in which the routing tree is searched: a literal before a wildcard before the slash at the end.\<close>

definition route_rank :: "'h route \<Rightarrow> nat list" where
  "route_rank r = map (\<lambda>s. case s of Lit _ \<Rightarrow> 0 | Wild \<Rightarrow> 1) (rt_segments r) @ (if rt_below r then [2] else [])"

definition route_matches :: "string \<Rightarrow> 'h route \<Rightarrow> bool" where
  "route_matches path r \<longleftrightarrow> match_segments (rt_segments r) (rt_below r) (path_segments path) \<noteq> None"

definition best_route :: "'h route list \<Rightarrow> string \<Rightarrow> string \<Rightarrow> 'h route option" where
  "best_route routes meth path =
     (case sort_key route_rank (filter (\<lambda>r. rt_method r = meth \<and> route_matches path r) routes) of
        [] \<Rightarrow> None | r # _ \<Rightarrow> Some r)"

definition find_route :: "'h route list \<Rightarrow> string \<Rightarrow> string \<Rightarrow> 'h route option" where
  "find_route routes meth path =
     (case best_route routes meth path of
        Some r \<Rightarrow> Some r
      | None \<Rightarrow> if meth = ''HEAD'' then best_route routes ''GET'' path else None)"

definition exact_match :: "'h route option \<Rightarrow> string \<Rightarrow> bool" where
  "exact_match found path =
     (case found of
        None \<Rightarrow> False
      | Some r \<Rightarrow>
          if \<not> rt_below r then True
          else if \<not> has_suffix path ''/'' then False
          else Suc (length (rt_segments r)) = length (filter (\<lambda>c. c = CHR ''/'') path))"

datatype 'h mux_answer = BadRequestUri | MovedTo string | Handled 'h "string list" | MethodNotAllowed | PageNotFound

definition mux_route :: "'h route list \<Rightarrow> string \<Rightarrow> string \<Rightarrow> 'h mux_answer" where
  "mux_route routes meth escaped =
     (if escaped = ''*'' then BadRequestUri
      else
        (let path = (if meth = ''CONNECT'' then escaped else mux_clean escaped);
             found = find_route routes meth path; slash = path @ ''/'' in
         if \<not> exact_match found path \<and> \<not> has_suffix path ''/'' \<and> exact_match (find_route routes meth slash) slash
         then MovedTo (mux_clean (path_unescape escaped) @ ''/'')
         else if path \<noteq> escaped then MovedTo path
         else case found of
             Some r \<Rightarrow> Handled (rt_handler r) (the (match_segments (rt_segments r) (rt_below r) (path_segments path)))
           | None \<Rightarrow>
               if list_ex (route_matches path) routes \<or> \<not> has_suffix path ''/'' \<and> list_ex (route_matches slash) routes
               then MethodNotAllowed else PageNotFound))"

subsection \<open>Lemmas\<close>

lemma best_route_mem:
  assumes "best_route routes meth path = Some r"
  shows "r \<in> set routes \<and> rt_method r = meth \<and> route_matches path r"
proof -
  let ?l = "filter (\<lambda>r. rt_method r = meth \<and> route_matches path r) routes"
  obtain rs where "sort_key route_rank ?l = r # rs"
    using assms by (auto simp: best_route_def split: list.splits)
  then have "r \<in> set (sort_key route_rank ?l)" by simp
  then show ?thesis by simp
qed

lemma find_route_mem:
  assumes "find_route routes meth path = Some r"
  shows "r \<in> set routes \<and> (rt_method r = meth \<or> meth = ''HEAD'' \<and> rt_method r = ''GET'') \<and> route_matches path r"
  using assms best_route_mem by (fastforce simp: find_route_def split: option.splits if_splits)

lemma handled_route:
  assumes "mux_route routes meth path = Handled h values"
  shows "\<exists>r \<in> set routes. rt_handler r = h \<and> (rt_method r = meth \<or> meth = ''HEAD'' \<and> rt_method r = ''GET'') \<and>
    match_segments (rt_segments r) (rt_below r) (path_segments path) = Some values \<and> (meth = ''CONNECT'' \<or> mux_clean path = path)"
proof -
  have p: "(if meth = ''CONNECT'' then path else mux_clean path) = path"
    using assms by (auto simp: mux_route_def Let_def split: if_splits option.splits)
  obtain r where r: "find_route routes meth path = Some r" "rt_handler r = h"
      "values = the (match_segments (rt_segments r) (rt_below r) (path_segments path))"
    using assms p by (auto simp: mux_route_def Let_def split: if_splits option.splits)
  have "match_segments (rt_segments r) (rt_below r) (path_segments path) = Some values"
    using find_route_mem [OF r(1)] r(3) by (auto simp: route_matches_def)
  then show ?thesis using find_route_mem [OF r(1)] r(2) p by (auto split: if_splits)
qed

end
