(* ===== verification/Notify.thy ===== *)
theory Notify
  imports Server Store Config_Sound Alert_Life
begin

text \<open>
  The notification loop of the server (\<open>processNotifications\<close> and \<open>Run\<close> in
  \<open>internal/server/server.go\<close>), which alone delivers the outbox of alerts.  The handlers run beside it, so
  other operations of the store may come before an alert's turn (\<open>mi_before\<close>) and while its mail is under
  way (\<open>mi_during\<close>).  The time limit of a pass may strike before any alert (\<open>mi_cancelled\<close>).
\<close>

subsection \<open>One alert\<close>

record mail_io =
  mi_cancelled :: bool
  mi_before :: "(faults \<times> store_op) list"
  mi_during :: "(faults \<times> store_op) list"
  mi_fails :: faults
  mi_cooldown_now :: gotime
  mi_mark_now :: gotime
  mi_accepted :: bool

definition in_context :: "report list \<Rightarrow> alert \<Rightarrow> alert" where
  "in_context reports a =
     (case find (\<lambda>r. rep_agent_id r = al_agent_id a) reports of None \<Rightarrow> a | Some r \<Rightarrow> with_report a r)"

definition unwanted :: "server_config \<Rightarrow> preferences \<Rightarrow> alert \<Rightarrow> bool" where
  "unwanted c q a \<longleftrightarrow> \<not> sm_enabled (sc_smtp c) \<or> \<not> pr_enabled q \<or>
     (al_severity a = Warning \<and> \<not> pr_warnings q) \<or> (al_state a = Resolved \<and> \<not> pr_recovery q)"

definition alert_mail :: "server_config \<Rightarrow> preferences \<Rightarrow> bool \<Rightarrow> alert \<Rightarrow> mail" where
  "alert_mail c q accepted a = \<lparr>ml_subject = AlertMail a, ml_url = sc_public_url c,
     ml_recipient = pr_recipient q, ml_accepted = accepted\<rparr>"

definition notify_one :: "store_env \<Rightarrow> server_config \<Rightarrow> preferences \<Rightarrow> report list \<Rightarrow> mail_io \<Rightarrow> alert \<Rightarrow>
    db \<times> mail list \<Rightarrow> db \<times> mail list" where
  "notify_one env c q reports io a0 st =
     (case st of (d0, out) \<Rightarrow>
       (let d = store_run env (mi_before io) d0;
            a = in_context reports a0 in
        if unwanted c q a then (snd (mark_alert_delivery (mi_fails io) a NotSuppressed (mi_mark_now io) d), out)
        else
          (case notification_in_cooldown (mi_fails io) a (sc_alert_cooldown c) (mi_cooldown_now io) d of
             Inl _ \<Rightarrow> (d, out)
           | Inr in_cooldown \<Rightarrow>
               if in_cooldown then
                 (snd (mark_alert_delivery (mi_fails io) a NotSuppressed (mi_mark_now io) d), out)
               else
                 (let out1 = out @ [alert_mail c q (mi_accepted io) a];
                      d1 = store_run env (mi_during io) d in
                  if \<not> mi_accepted io then (d1, out1)
                  else (snd (mark_alert_delivery (mi_fails io) a NotSent (mi_mark_now io) d1), out1)))))"

subsection \<open>One pass\<close>

text \<open>The loop over the pending alerts; \<open>io\<close> gives the circumstances of each by its id.\<close>

fun notify_alerts :: "store_env \<Rightarrow> server_config \<Rightarrow> preferences \<Rightarrow> report list \<Rightarrow> (nat \<Rightarrow> mail_io) \<Rightarrow>
    alert list \<Rightarrow> db \<times> mail list \<Rightarrow> db \<times> mail list" where
  "notify_alerts env c q reports io [] st = st"
| "notify_alerts env c q reports io (a # as) st =
     (if mi_cancelled (io (al_id a)) then st
      else notify_alerts env c q reports io as (notify_one env c q reports (io (al_id a)) a st))"

record pass_io =
  pi_fails :: faults
  pi_alert :: "nat \<Rightarrow> mail_io"

definition process_notifications :: "store_env \<Rightarrow> server_lib \<Rightarrow> pass_io \<Rightarrow> server \<Rightarrow> server" where
  "process_notifications env p io s =
     (case server_preferences (pi_fails io) s of
        Inl _ \<Rightarrow> s
      | Inr q \<Rightarrow>
          (case pending_notifications (pi_fails io) 50 (sv_db s) of
             Inl _ \<Rightarrow> s
           | Inr pending \<Rightarrow>
               (case (if pending \<noteq> [] \<and> pr_enabled q \<and> sm_enabled (sc_smtp (sv_cfg s))
                      then latest_reports (pi_fails io) (sl_decode p) (sv_db s) else Inr []) of
                  Inl _ \<Rightarrow> s
                | Inr reports \<Rightarrow>
                    (case notify_alerts env (sv_cfg s) q reports (pi_alert io) pending (sv_db s, sv_outbox s) of
                       (d, out) \<Rightarrow> s\<lparr>sv_db := d, sv_outbox := out\<rparr>))))"

subsection \<open>The loop\<close>

text \<open>What wakes the loop; a wake-up needs the token \<open>ingest\<close> leaves.\<close>

datatype run_event = Started pass_io | Woken pass_io | RetryTick pass_io | OfflineTick gotime store_io pass_io

fun run_event_do :: "store_env \<Rightarrow> server_lib \<Rightarrow> run_event \<Rightarrow> server \<Rightarrow> server" where
  "run_event_do env p (Started io) s = process_notifications env p io s"
| "run_event_do env p (Woken io) s =
     (if sv_notify_wake s then process_notifications env p io (s\<lparr>sv_notify_wake := False\<rparr>) else s)"
| "run_event_do env p (RetryTick io) s = process_notifications env p io s"
| "run_event_do env p (OfflineTick now sio io) s =
     process_notifications env p io (s\<lparr>sv_db := snd (evaluate_offline (sv_engine s) sio now (sv_db s))\<rparr>)"

subsection \<open>Mails back what is marked as sent\<close>

text \<open>While the server runs, only the loop marks deliveries, and nobody synchronises tokens.\<close>

definition others_op :: "store_op \<Rightarrow> bool" where
  "others_op x \<longleftrightarrow> (case x of MarkDelivery _ _ _ \<Rightarrow> False | SyncAgents _ \<Rightarrow> False | _ \<Rightarrow> True)"

definition others_only :: "mail_io \<Rightarrow> bool" where
  "others_only io \<longleftrightarrow> (\<forall>(_, x) \<in> set (mi_before io) \<union> set (mi_during io). others_op x)"

definition mail_for :: "alert_row \<Rightarrow> mail \<Rightarrow> bool" where
  "mail_for r m \<longleftrightarrow> ml_accepted m \<and> (case ml_subject m of TestMail _ \<Rightarrow> False
     | AlertMail a \<Rightarrow> al_id a = ar_id r \<and> al_state a = ar_state r \<and>
         (ar_severity r = Critical \<longrightarrow> al_severity a = Critical))"

definition mail_backed :: "mail list \<Rightarrow> db \<Rightarrow> bool" where
  "mail_backed out d \<longleftrightarrow> (\<forall>r \<in> set (db_alerts d). ar_notification r = NotSent \<longrightarrow> (\<exists>m \<in> set out. mail_for r m))"

lemma mail_backed_more: "mail_backed out d \<Longrightarrow> mail_backed (out @ ms) d"
  by (fastforce simp: mail_backed_def)

text \<open>An operation keeps the sent rows sent: each one comes from a sent row with the same id and state.\<close>

definition sent_from :: "alert_row \<Rightarrow> alert_row \<Rightarrow> bool" where
  "sent_from r q \<longleftrightarrow> ar_notification r = NotSent \<and> ar_id q = ar_id r \<and> ar_state q = ar_state r \<and>
     (ar_severity q = Critical \<longrightarrow> ar_severity r = Critical)"

definition sent_kept :: "db \<Rightarrow> db \<Rightarrow> bool" where
  "sent_kept d d' \<longleftrightarrow> (\<forall>q \<in> set (db_alerts d'). ar_notification q = NotSent \<longrightarrow>
     (\<exists>r \<in> set (db_alerts d). sent_from r q))"

lemma sent_kept_same: "db_alerts d' = db_alerts d \<Longrightarrow> sent_kept d d'"
  by (auto simp: sent_kept_def sent_from_def)

lemma mail_backed_kept: "sent_kept d d' \<Longrightarrow> mail_backed out d \<Longrightarrow> mail_backed out d'"
  unfolding mail_backed_def sent_kept_def sent_from_def mail_for_def
  by (fastforce split: mail_subject.splits)

lemma sent_kept_update:
  assumes "\<And>r. r \<in> set (db_alerts d) \<Longrightarrow> P r \<Longrightarrow> ar_notification (f r) = NotSent \<Longrightarrow> sent_from r (f r)"
  shows "sent_kept d (update_alerts P f d)"
proof -
  have "sent_from r r" if "ar_notification r = NotSent" for r using that by (simp add: sent_from_def)
  then show ?thesis using assms by (fastforce simp: sent_kept_def update_alerts_def)
qed

lemma sent_kept_audit: "sent_kept d (d'\<lparr>db_audit := l\<rparr>) = sent_kept d d'"
  by (simp add: sent_kept_def)

lemma apply_rule_tx_sent:
  assumes ok: "alerts_ok d" and run: "apply_rule_tx fails e now clock d = Inr (changed, d')"
  shows "sent_kept d d'"
proof (cases "select_active e d")
  case None
  then consider "d' = d" | d1 l where "insert_alert (new_row e now (db_next_alert d)) d = Some d1"
      "d' = d1\<lparr>db_audit := l\<rparr>"
    using run by (auto simp: apply_rule_tx_def split: if_splits option.splits dest!: audited_Inr)
  then show ?thesis
  proof cases
    case 2
    have "ar_notification (new_row e now n) \<noteq> NotSent" for n by (simp add: new_row_def Let_def)
    then show ?thesis using 2
      by (auto simp: sent_kept_def sent_from_def insert_alert_def split: if_splits)
  qed (simp add: sent_kept_same)
next
  case (Some r)
  have mem: "r \<in> set (db_alerts d)" "active_row r"
    using Some active_at_iff [OF ok] by (simp_all add: select_active_at)
  have uniq: "q \<in> set (db_alerts d) \<Longrightarrow> ar_id q = ar_id r \<Longrightarrow> q = r" for q
    using row_by_id [OF ok _ mem(1)] by blast
  have pending: "ar_state r = Pending \<Longrightarrow> ar_notification r = NotNone"
    using ok mem by (auto simp: alerts_ok_def row_ok_def)
  have st: "ar_state r = Pending \<or> ar_state r = Firing" using mem(2) by (simp add: active_row_def)
  have one: "(ar_notification (f r) = NotSent \<Longrightarrow> sent_from r (f r)) \<Longrightarrow>
      sent_kept d (update_alerts (\<lambda>q. ar_id q = ar_id r) f d)" for f
    by (rule sent_kept_update) (use uniq in blast)
  have some_l: "audited fails e s clock d1 = Inr (changed, d') \<Longrightarrow> \<exists>l. d' = d1\<lparr>db_audit := l\<rparr>" for s d1
    by (auto dest!: audited_Inr)
  let ?n = "ar_violation_count r + 1"
  let ?here = "\<lambda>q. ar_id q = ar_id r"
  consider (resolve) m s where "m \<noteq> NotSent"
      "audited fails e s clock (update_alerts ?here (resolve_row e now m) d) = Inr (changed, d')"
    | (fire) s where "audited fails e s clock (update_alerts ?here (fire_row e now ?n) d) = Inr (changed, d')"
    | (escalate) s where "audited fails e s clock (update_alerts ?here (escalate_row e ?n) d) = Inr (changed, d')"
    | (refresh) "\<not> (ar_state r = Firing \<and> ar_severity r \<noteq> Critical \<and> ev_severity e = Critical)"
      "d' = update_alerts ?here (refresh_row e ?n) d"
  proof (cases "ev_violated e")
    case False
    let ?m = "if ar_state r = Firing then (if ar_notification r = NotSuppressed then NotSuppressed else NotPending) else NotNone"
    have "audited fails e ''resolved'' clock (update_alerts ?here (resolve_row e now ?m) d) = Inr (changed, d')"
      using run Some False by (auto simp: apply_rule_tx_def Let_def split: if_splits)
    then show ?thesis by (intro resolve [of ?m]) auto
  next
    case True
    then show ?thesis using run Some fire escalate refresh
      by (simp add: apply_rule_tx_def Let_def split: if_splits)
  qed
  then show ?thesis
  proof cases
    case resolve
    then show ?thesis using some_l [OF resolve(2)] one [of "resolve_row e now m"]
      by (auto simp: sent_kept_audit resolve_row_def)
  next
    case fire
    then show ?thesis using some_l [OF fire] one [of "fire_row e now ?n"] by (auto simp: sent_kept_audit fire_row_def)
  next
    case escalate
    then show ?thesis using some_l [OF escalate] one [of "escalate_row e ?n"]
      by (auto simp: sent_kept_audit escalate_row_def)
  next
    case refresh
    have "ar_notification (refresh_row e ?n r) = NotSent \<Longrightarrow> sent_from r (refresh_row e ?n r)"
      using refresh(1) pending st by (cases "ar_severity r") (auto simp: sent_from_def refresh_row_def)
    then show ?thesis using one [of "refresh_row e ?n"] refresh(2) by simp
  qed
qed

lemma apply_rule_sent: "alerts_ok d \<Longrightarrow> sent_kept d (snd (apply_rule fails e now clock d))"
  using apply_rule_tx_sent [of d fails e now clock]
  by (auto simp: apply_rule_def sent_kept_same split: sum.splits prod.splits)

lemma store_do_sent:
  assumes "alerts_ok d" and "others_op x"
  shows "sent_kept d (store_do env fails x d)"
proof (cases x)
  case (SyncAgents tokens)
  obtain err d' where s: "sync_agents fails tokens d = (err, d')" by force
  show ?thesis using sync_agents_cases [OF s] s SyncAgents by (auto intro: sent_kept_same)
next
  case (SaveReport r seen received)
  obtain err d' where s: "save_report fails (sv_encode env) r seen received d = (err, d')" by force
  then have "sent_kept d d'" by (cases rule: save_report_cases) (simp_all add: sent_kept_same)
  then show ?thesis using s SaveReport by simp
next
  case (ApplyRule e now clock)
  then show ?thesis using apply_rule_sent [OF assms(1)] by simp
next
  case (MarkDelivery a state now)
  then show ?thesis using assms(2) by (simp add: others_op_def)
next
  case (Acknowledge n actor now clock)
  have "sent_kept d (update_alerts P (\<lambda>r. r\<lparr>ar_acknowledged_at := t, ar_acknowledged_by := b\<rparr>) d)" for P t b
    by (rule sent_kept_update) (simp add: sent_from_def)
  then show ?thesis using Acknowledge
    by (auto simp: acknowledge_alert_def audit_tx_def Let_def sent_kept_audit sent_kept_same split: sum.splits)
next
  case (Maintain now raw agg)
  then show ?thesis by (simp add: maintain_def Let_def sent_kept_same)
next
  case (SavePreferences q)
  then show ?thesis by (simp add: save_notification_preferences_def sent_kept_same)
qed

text \<open>A series of operations of others.\<close>

definition others_all :: "(faults \<times> store_op) list \<Rightarrow> bool" where
  "others_all xs \<longleftrightarrow> (\<forall>(_, x) \<in> set xs. others_op x)"

definition other_steps :: "store_env \<Rightarrow> db \<Rightarrow> db \<Rightarrow> bool" where
  "other_steps env d d' \<longleftrightarrow> (\<exists>xs. others_all xs \<and> d' = store_run env xs d)"

lemma store_run_simps [simp]:
  "store_run env [] d = d" "store_run env ((f, x) # xs) d = store_run env xs (store_do env f x d)"
  "store_run env (xs @ ys) d = store_run env ys (store_run env xs d)"
  by (simp_all add: store_run_def)

lemma store_run_ok [inv_intros]: "db_ok d \<Longrightarrow> db_ok (store_run env xs d)"
  by (induction xs arbitrary: d) (simp_all add: store_do_ok split_paired_all)

lemma other_steps_refl [simp, intro]: "other_steps env d d"
  unfolding other_steps_def by (rule exI [of _ "[]"]) (simp add: others_all_def)

lemma other_steps_do: "others_op x \<Longrightarrow> other_steps env d (store_do env f x d)"
  unfolding other_steps_def by (rule exI [of _ "[(f, x)]"]) (simp add: others_all_def)

lemma other_steps_trans: "other_steps env d d' \<Longrightarrow> other_steps env d' d'' \<Longrightarrow> other_steps env d d''"
  unfolding other_steps_def
proof (elim exE)
  fix xs ys
  assume "others_all xs \<and> d' = store_run env xs d" "others_all ys \<and> d'' = store_run env ys d'"
  then show "\<exists>zs. others_all zs \<and> d'' = store_run env zs d"
    by (intro exI [of _ "xs @ ys"]) (auto simp: others_all_def)
qed

lemma mail_backed_run: "db_ok d \<Longrightarrow> others_all xs \<Longrightarrow> mail_backed out d \<Longrightarrow> mail_backed out (store_run env xs d)"
proof (induction xs arbitrary: d)
  case (Cons y xs)
  obtain f x where y: "y = (f, x)" by force
  have "mail_backed out (store_do env f x d)"
    using Cons.prems y mail_backed_kept [OF store_do_sent] by (auto simp: others_all_def db_ok_def)
  then show ?case using Cons y store_do_ok by (simp add: others_all_def)
qed simp

lemma other_steps_backed:
  "other_steps env d d' \<Longrightarrow> db_ok d \<Longrightarrow> db_ok d' \<and> (mail_backed out d \<longrightarrow> mail_backed out d')"
  by (auto simp: other_steps_def intro: mail_backed_run store_run_ok)

text \<open>The engine works through the store.\<close>

lemma apply_each_steps: "other_steps env d (snd (apply_each apply_rule io n es now d))"
proof (induction es arbitrary: n d)
  case (Cons e es)
  obtain r d' where a: "apply_rule (fst (io n)) e now (snd (io n)) d = (r, d')" by force
  have "other_steps env d d'"
    using other_steps_do [of "ApplyRule e now (snd (io n))" env d "fst (io n)"] a by (simp add: others_op_def)
  then show ?case using Cons.IH [where d = d'] a other_steps_trans by (auto split: sum.splits)
qed simp

lemma engine_steps:
  "other_steps env d (snd (evaluate_report c io r now d))"
  "other_steps env d (snd (evaluate_offline c io now d))"
  "other_steps env d (snd (resolve_online c io agent now d))"
proof -
  have missing: "other_steps env d (snd (resolve_missing io n r seen now d))" for n seen d
    by (simp add: resolve_missing_def apply_each_steps split: sum.splits)
  show "other_steps env d (snd (evaluate_report c io r now d))"
  proof (cases "apply_each apply_rule io 0 (report_rules c r) now d")
    case (Pair err d')
    then have "other_steps env d d'" using apply_each_steps [of env d io 0 "report_rules c r" now] by simp
    then show ?thesis using Pair missing other_steps_trans
      by (auto simp: evaluate_report_def Let_def split: option.splits)
  qed
  show "other_steps env d (snd (evaluate_offline c io now d))"
    by (simp add: evaluate_offline_def apply_each_steps split: sum.splits)
  show "other_steps env d (snd (resolve_online c io agent now d))"
    unfolding resolve_online_def by (rule apply_each_steps)
qed

subsection \<open>A pass keeps the mails behind the marks\<close>

lemma mark_ok: "db_ok d \<Longrightarrow> db_ok (snd (mark_alert_delivery fails a state now d))"
  using store_do_ok [of d _ fails "MarkDelivery a state now"] by simp

lemma mark_suppressed_backed:
  "mail_backed out d \<Longrightarrow> mail_backed out (snd (mark_alert_delivery fails a NotSuppressed now d))"
  by (auto simp: mark_alert_delivery_def mark_alert_notification_if_def mail_backed_def update_alerts_def
      mark_row_def split: if_splits)

lemma mark_sent_backed:
  assumes "mail_backed out d" and "m \<in> set out" and "ml_accepted m" and "ml_subject m = AlertMail a"
  shows "mail_backed out (snd (mark_alert_delivery fails a NotSent now d))"
proof -
  let ?P = "\<lambda>r. ar_id r = al_id a \<and> ar_state r = al_state a \<and> ar_severity r = al_severity a \<and> ar_notification r = NotPending"
  have "mail_backed out (update_alerts ?P (mark_row NotSent t) d)" for t
  proof -
    have "\<exists>m \<in> set out. mail_for q m" if q: "q = (if ?P r then mark_row NotSent t r else r)"
      "r \<in> set (db_alerts d)" "ar_notification q = NotSent" for q r
    proof (cases "?P r")
      case True
      then have "mail_for q m" using assms(3,4) q(1) by (simp add: mail_for_def mark_row_def)
      then show ?thesis using assms(2) by blast
    next
      case False
      then have "q = r" unfolding q(1) by (rule if_not_P)
      then show ?thesis using assms(1) q(2,3) by (simp add: mail_backed_def)
    qed
    then have "\<forall>q \<in> set (map (\<lambda>r. if ?P r then mark_row NotSent t r else r) (db_alerts d)).
        ar_notification q = NotSent \<longrightarrow> (\<exists>m \<in> set out. mail_for q m)" by (simp only: set_map) blast
    then show ?thesis by (simp add: mail_backed_def update_alerts_def)
  qed
  then show ?thesis using assms(1) by (auto simp: mark_alert_delivery_def mark_alert_notification_if_def)
qed

lemma notify_one_backed:
  assumes "db_ok d" "mail_backed out d" "others_only io" "notify_one env c q reports io a (d, out) = (d', out')"
  shows "db_ok d' \<and> mail_backed out' d'"
proof -
  let ?d = "store_run env (mi_before io) d"
  let ?a = "in_context reports a"
  let ?d1 = "store_run env (mi_during io) ?d"
  let ?out = "out @ [alert_mail c q (mi_accepted io) ?a]"
  have io: "others_all (mi_before io)" "others_all (mi_during io)"
    using assms(3) by (auto simp: others_only_def others_all_def)
  have d: "db_ok ?d" "mail_backed out ?d"
    using assms(1,2) io by (auto intro: mail_backed_run store_run_ok)
  have d1: "db_ok ?d1" "mail_backed ?out ?d1"
    using d io by (auto intro!: mail_backed_run store_run_ok mail_backed_more)
  consider "(d', out') = (snd (mark_alert_delivery (mi_fails io) ?a NotSuppressed (mi_mark_now io) ?d), out)"
    | "(d', out') = (?d, out)" | "(d', out') = (?d1, ?out)"
    | "mi_accepted io" "(d', out') = (snd (mark_alert_delivery (mi_fails io) ?a NotSent (mi_mark_now io) ?d1), ?out)"
    using assms(4) by (auto simp: notify_one_def Let_def split: if_splits sum.splits)
  then show ?thesis
  proof cases
    case 4
    have "mail_backed ?out (snd (mark_alert_delivery (mi_fails io) ?a NotSent (mi_mark_now io) ?d1))"
      by (rule mark_sent_backed [OF d1(2), of "alert_mail c q (mi_accepted io) ?a"])
        (use 4(1) in \<open>simp_all add: alert_mail_def\<close>)
    then show ?thesis using d1(1) 4(2) mark_ok by simp
  qed (use d d1 mark_ok mark_suppressed_backed in simp_all)
qed

lemma notify_alerts_backed:
  assumes "db_ok (fst st)" "mail_backed (snd st) (fst st)" "\<forall>n. others_only (io n)"
  shows "db_ok (fst (notify_alerts env c q reports io as st)) \<and>
    mail_backed (snd (notify_alerts env c q reports io as st)) (fst (notify_alerts env c q reports io as st))"
  using assms(1,2)
proof (induction as arbitrary: st)
  case (Cons a as)
  obtain d out d' out' where st: "st = (d, out)" "notify_one env c q reports (io (al_id a)) a st = (d', out')"
    by (metis surj_pair)
  have "db_ok d' \<and> mail_backed out' d'"
    using notify_one_backed [of d out "io (al_id a)" env c q reports a d' out'] Cons.prems assms(3) st by simp
  then show ?case using Cons.IH [of "(d', out')"] Cons.prems st by simp
qed simp

definition pass_others :: "pass_io \<Rightarrow> bool" where
  "pass_others io \<longleftrightarrow> (\<forall>n. others_only (pi_alert io n))"

fun event_others :: "run_event \<Rightarrow> bool" where
  "event_others (Started io) = pass_others io"
| "event_others (Woken io) = pass_others io"
| "event_others (RetryTick io) = pass_others io"
| "event_others (OfflineTick now sio io) = pass_others io"

definition delivery_ok :: "server \<Rightarrow> bool" where
  "delivery_ok s \<longleftrightarrow> db_ok (sv_db s) \<and> mail_backed (sv_outbox s) (sv_db s)"

lemma process_notifications_ok [inv_intros]:
  assumes "delivery_ok s" and "pass_others io"
  shows "delivery_ok (process_notifications env p io s)"
proof -
  have step: "delivery_ok (s\<lparr>sv_db := d, sv_outbox := out\<rparr>)"
    if "notify_alerts env (sv_cfg s) q reports (pi_alert io) pending (sv_db s, sv_outbox s) = (d, out)" for q reports pending d out
    using notify_alerts_backed [of "(sv_db s, sv_outbox s)" "pi_alert io" env "sv_cfg s" q reports pending] that assms
    by (simp add: delivery_ok_def pass_others_def)
  show ?thesis
    using assms(1) step by (auto simp: process_notifications_def split: sum.splits prod.splits)
qed

lemma run_event_ok [inv_intros]:
  assumes "delivery_ok s" and "event_others e"
  shows "delivery_ok (run_event_do env p e s)"
proof (cases e)
  case (OfflineTick now sio io)
  have "delivery_ok (s\<lparr>sv_db := snd (evaluate_offline (sv_engine s) sio now (sv_db s))\<rparr>)"
    using assms(1) other_steps_backed [OF engine_steps(2)] by (simp add: delivery_ok_def)
  then show ?thesis using assms(2) OfflineTick by (simp add: process_notifications_ok)
next
  case (Woken io)
  have "delivery_ok (s\<lparr>sv_notify_wake := False\<rparr>)" using assms(1) by (simp add: delivery_ok_def)
  then show ?thesis using assms Woken by (simp add: process_notifications_ok)
qed (use assms process_notifications_ok in simp_all)

subsection \<open>An undisturbed pass\<close>

text \<open>No faults, no other operations, enough time, and a mail server that takes every mail.\<close>

definition quiet_mail :: "mail_io \<Rightarrow> bool" where
  "quiet_mail io \<longleftrightarrow> \<not> mi_cancelled io \<and> mi_before io = [] \<and> mi_during io = [] \<and>
     (\<forall>c. \<not> mi_fails io c) \<and> mi_accepted io"

definition quiet_pass :: "pass_io \<Rightarrow> bool" where
  "quiet_pass io \<longleftrightarrow> (\<forall>c. \<not> pi_fails io c) \<and> (\<forall>n. quiet_mail (pi_alert io n))"

definition due_rows :: "db \<Rightarrow> alert_row list" where
  "due_rows d = sort_key ar_id (filter due_row (db_alerts d))"

lemma in_context_simps [simp]:
  "al_id (in_context reports a) = al_id a" "al_state (in_context reports a) = al_state a"
  "al_severity (in_context reports a) = al_severity a" "al_agent_id (in_context reports a) = al_agent_id a"
  "al_rule_key (in_context reports a) = al_rule_key a" "al_resource (in_context reports a) = al_resource a"
  by (auto simp: in_context_def with_report_def Let_def split: option.splits)

lemma unwanted_in_context [simp]: "unwanted c q (in_context reports a) = unwanted c q a"
  by (simp add: unwanted_def)

text \<open>The row of an alert takes the outcome of its notification.\<close>

definition marked :: "notification \<Rightarrow> stamp option \<Rightarrow> alert_row \<Rightarrow> db \<Rightarrow> db" where
  "marked v t r d = update_alerts (\<lambda>q. q = r) (mark_row v t) d"

lemma mark_delivery_marked:
  assumes ok: "alerts_ok d" and r: "r \<in> set (db_alerts d)" "due_row r" and calm: "\<forall>c. \<not> fails c"
    and a: "al_id a = ar_id r" "al_state a = ar_state r" "al_severity a = ar_severity r"
    and v: "v = NotSent \<or> v = NotSuppressed"
  shows "\<exists>t. snd (mark_alert_delivery fails a v now d) = marked v t r d"
proof -
  have "ar_id q = al_id a \<and> ar_state q = al_state a \<and> ar_severity q = al_severity a \<and> ar_notification q = NotPending
      \<longleftrightarrow> q = r" if "q \<in> set (db_alerts d)" for q
    using row_by_id [OF ok that r(1)] a r(2) by (auto simp: due_row_def)
  then have "update_alerts (\<lambda>q. ar_id q = al_id a \<and> ar_state q = al_state a \<and> ar_severity q = al_severity a \<and>
      ar_notification q = NotPending) f d = update_alerts (\<lambda>q. q = r) f d" for f
    by (simp add: update_alerts_def)
  then show ?thesis using v calm
    by (auto simp: mark_alert_delivery_def mark_alert_notification_if_def marked_def)
qed

lemma cooldown_quiet:
  assumes "\<forall>c. \<not> fails c"
  shows "\<exists>b. notification_in_cooldown fails a cooldown now d = Inr b \<and>
    (cooldown \<le> 0 \<or> al_state a = Resolved \<longrightarrow> \<not> b)"
  using assms by (cases "al_state a \<noteq> Firing \<or> cooldown \<le> 0") (auto simp: notification_in_cooldown_def)

lemma notify_one_quiet:
  assumes "alerts_ok d" "r \<in> set (db_alerts d)" "due_row r" "quiet_mail io"
  shows "\<exists>v t. notify_one env c q reports io (scan_alert r) (d, out) =
      (marked v t r d, out @ (if v = NotSent then [alert_mail c q True (in_context reports (scan_alert r))] else [])) \<and>
    (v = NotSent \<or> v = NotSuppressed) \<and> (unwanted c q (scan_alert r) \<longrightarrow> v = NotSuppressed) \<and>
    (\<not> unwanted c q (scan_alert r) \<and> (sc_alert_cooldown c \<le> 0 \<or> ar_state r = Resolved) \<longrightarrow> v = NotSent)"
proof -
  let ?a = "in_context reports (scan_alert r)"
  have io: "\<not> mi_cancelled io" "mi_before io = []" "mi_during io = []" "\<forall>c. \<not> mi_fails io c" "mi_accepted io"
    using assms(4) by (simp_all add: quiet_mail_def)
  have mark: "v = NotSent \<or> v = NotSuppressed \<Longrightarrow>
      \<exists>t. snd (mark_alert_delivery (mi_fails io) ?a v (mi_mark_now io) d) = marked v t r d" for v
    by (rule mark_delivery_marked [OF assms(1,2,3) io(4)]) simp_all
  obtain t1 where t1: "snd (mark_alert_delivery (mi_fails io) ?a NotSuppressed (mi_mark_now io) d) = marked NotSuppressed t1 r d"
    using mark [of NotSuppressed] by blast
  obtain t2 where t2: "snd (mark_alert_delivery (mi_fails io) ?a NotSent (mi_mark_now io) d) = marked NotSent t2 r d"
    using mark [of NotSent] by blast
  obtain b where b: "notification_in_cooldown (mi_fails io) ?a (sc_alert_cooldown c) (mi_cooldown_now io) d = Inr b"
      "sc_alert_cooldown c \<le> 0 \<or> ar_state r = Resolved \<longrightarrow> \<not> b"
    using cooldown_quiet [OF io(4), of ?a "sc_alert_cooldown c" "mi_cooldown_now io" d] by auto
  have eq: "notify_one env c q reports io (scan_alert r) (d, out) =
      (if unwanted c q (scan_alert r) \<or> b then (marked NotSuppressed t1 r d, out)
       else (marked NotSent t2 r d, out @ [alert_mail c q True ?a]))"
    using io t1 t2 b(1) by (simp add: notify_one_def Let_def)
  show ?thesis
  proof (cases "unwanted c q (scan_alert r) \<or> b")
    case True
    then show ?thesis using b(2) unfolding eq by (intro exI [of _ NotSuppressed] exI [of _ t1]) auto
  next
    case False
    then show ?thesis unfolding eq by (intro exI [of _ NotSent] exI [of _ t2]) auto
  qed
qed

lemma row_ok_marked: "row_ok r \<Longrightarrow> due_row r \<Longrightarrow> v \<noteq> NotNone \<Longrightarrow> row_ok (mark_row v t r)"
  by (cases "ar_state r") (auto simp: row_ok_def mark_row_def due_row_def)

lemma marked_ok:
  assumes "alerts_ok d" "due_row r" "v = NotSent \<or> v = NotSuppressed"
  shows "alerts_ok (marked v t r d)"
  unfolding marked_def
proof (rule alerts_ok_update_rows [OF assms(1)])
  fix q
  assume "q \<in> set (db_alerts d)" "q = r"
  then show "row_ok (mark_row v t q)" using assms by (intro row_ok_marked) (auto simp: alerts_ok_def)
qed (simp_all add: keeps_key_def mark_row_def)

lemma marked_others: "q \<in> set (db_alerts d) \<Longrightarrow> q \<noteq> r \<Longrightarrow> q \<in> set (db_alerts (marked v t r d))"
  by (force simp: marked_def update_alerts_def image_iff)

text \<open>The outcome of every alert of a list of due rows.\<close>

definition all_marked :: "(alert_row \<Rightarrow> notification \<times> stamp option) \<Rightarrow> alert_row list \<Rightarrow> db \<Rightarrow> db" where
  "all_marked f rs d = update_alerts (\<lambda>q. q \<in> set rs) (\<lambda>q. mark_row (fst (f q)) (snd (f q)) q) d"

definition outcome :: "server_config \<Rightarrow> preferences \<Rightarrow> alert_row \<Rightarrow> notification \<Rightarrow> bool" where
  "outcome c q r v \<longleftrightarrow> (v = NotSent \<or> v = NotSuppressed) \<and> (unwanted c q (scan_alert r) \<longrightarrow> v = NotSuppressed) \<and>
     (\<not> unwanted c q (scan_alert r) \<and> (sc_alert_cooldown c \<le> 0 \<or> ar_state r = Resolved) \<longrightarrow> v = NotSent)"

definition mails_of :: "server_config \<Rightarrow> preferences \<Rightarrow> report list \<Rightarrow> (alert_row \<Rightarrow> notification \<times> stamp option) \<Rightarrow>
    alert_row list \<Rightarrow> mail list" where
  "mails_of c q reports f rs =
     map (\<lambda>r. alert_mail c q True (in_context reports (scan_alert r))) (filter (\<lambda>r. fst (f r) = NotSent) rs)"

lemma notify_alerts_quiet:
  assumes "alerts_ok d" "distinct rs" "set rs \<subseteq> {r \<in> set (db_alerts d). due_row r}" "\<forall>n. quiet_mail (io n)"
  shows "\<exists>f. notify_alerts env c q reports io (map scan_alert rs) (d, out) =
      (all_marked f rs d, out @ mails_of c q reports f rs) \<and> (\<forall>r \<in> set rs. outcome c q r (fst (f r)))"
  using assms(1,2,3)
proof (induction rs arbitrary: d out)
  case Nil
  then show ?case by (simp add: all_marked_def mails_of_def update_alerts_def)
next
  case (Cons r rs)
  have r: "r \<in> set (db_alerts d)" "due_row r" "r \<notin> set rs" using Cons.prems by auto
  have io: "quiet_mail (io (ar_id r))" using assms(4) by blast
  obtain v t where vt: "notify_one env c q reports (io (ar_id r)) (scan_alert r) (d, out) =
      (marked v t r d, out @ (if v = NotSent then [alert_mail c q True (in_context reports (scan_alert r))] else []))"
      "outcome c q r v"
    using notify_one_quiet [OF Cons.prems(1) r(1,2) io, of env c q reports out] unfolding outcome_def by blast
  let ?out = "out @ (if v = NotSent then [alert_mail c q True (in_context reports (scan_alert r))] else [])"
  have ok: "alerts_ok (marked v t r d)" by (rule marked_ok [OF Cons.prems(1) r(2)]) (use vt(2) in \<open>simp add: outcome_def\<close>)
  have mem: "set rs \<subseteq> {x \<in> set (db_alerts (marked v t r d)). due_row x}"
  proof
    fix q
    assume q: "q \<in> set rs"
    then have "q \<in> set (db_alerts d)" "due_row q" "q \<noteq> r" using Cons.prems(3) r(3) by auto
    then show "q \<in> {x \<in> set (db_alerts (marked v t r d)). due_row x}" using marked_others by simp
  qed
  obtain f where f: "notify_alerts env c q reports io (map scan_alert rs) (marked v t r d, ?out) =
      (all_marked f rs (marked v t r d), ?out @ mails_of c q reports f rs)" "\<forall>r \<in> set rs. outcome c q r (fst (f r))"
    using Cons.IH [OF ok _ mem, of ?out] Cons.prems(2) by auto
  let ?f = "f(r := (v, t))"
  have fresh: "mark_row v t r \<notin> set rs"
  proof
    assume m: "mark_row v t r \<in> set rs"
    then have "due_row (mark_row v t r)" using Cons.prems(3) by auto
    then show False using vt(2) by (auto simp: due_row_def mark_row_def outcome_def)
  qed
  have "all_marked f rs (marked v t r d) = all_marked ?f (r # rs) d"
    using r(3) fresh by (auto simp: all_marked_def marked_def update_alerts_def)
  moreover have "mails_of c q reports ?f (r # rs) =
      (if v = NotSent then [alert_mail c q True (in_context reports (scan_alert r))] else []) @ mails_of c q reports f rs"
    using r(3) by (auto simp: mails_of_def intro!: arg_cong [where f = "map _"] filter_cong)
  moreover have "\<forall>r \<in> set (r # rs). outcome c q r (fst (?f r))" using f(2) vt(2) by auto
  moreover have "notify_alerts env c q reports io (map scan_alert (r # rs)) (d, out) =
      (all_marked f rs (marked v t r d), ?out @ mails_of c q reports f rs)"
    using f(1) vt(1) io by (simp add: quiet_mail_def)
  ultimately show ?case by (intro exI [of _ ?f]) (simp only: append_assoc)
qed

lemma filter_not_taken: "distinct xs \<Longrightarrow> filter (\<lambda>x. x \<notin> set (take n xs)) xs = drop n xs"
proof -
  assume d: "distinct xs"
  then have "set (take n xs) \<inter> set (drop n xs) = {}" by (rule set_take_disj_set_drop_if_distinct) simp
  then have "filter (\<lambda>x. x \<notin> set (take n xs)) (take n xs @ drop n xs) = drop n xs"
    unfolding filter_append by (auto simp: filter_empty_conv filter_id_conv)
  then show ?thesis by simp
qed

lemma due_rows_distinct: "alerts_ok d \<Longrightarrow> distinct (due_rows d)"
proof -
  assume "alerts_ok d"
  then have "distinct (map ar_id (db_alerts d))" by (simp add: alerts_ok_def)
  then show ?thesis by (simp add: due_rows_def distinct_map)
qed

lemma set_due_rows: "set (due_rows d) = {r \<in> set (db_alerts d). due_row r}"
  by (auto simp: due_rows_def)

lemma due_rows_marked:
  assumes "alerts_ok d" "\<forall>r \<in> set (take n (due_rows d)). fst (f r) \<noteq> NotPending"
  shows "due_rows (all_marked f (take n (due_rows d)) d) = drop n (due_rows d)"
proof -
  let ?T = "set (take n (due_rows d))"
  let ?g = "\<lambda>q. if q \<in> ?T then mark_row (fst (f q)) (snd (f q)) q else q"
  have nd: "q \<in> ?T \<Longrightarrow> \<not> due_row (?g q)" for q using assms(2) by (simp add: due_row_def mark_row_def)
  have gen: "filter due_row (map ?g xs) = filter (\<lambda>q. q \<notin> ?T) (filter due_row xs)" for xs
    using nd by (induction xs) auto
  have "due_rows (all_marked f (take n (due_rows d)) d) = filter (\<lambda>q. q \<notin> ?T) (due_rows d)"
  proof -
    have "due_rows (all_marked f (take n (due_rows d)) d) = sort_key ar_id (filter due_row (map ?g (db_alerts d)))"
      unfolding due_rows_def all_marked_def update_alerts_def by simp
    then show ?thesis unfolding gen by (simp only: due_rows_def filter_sort)
  qed
  then show ?thesis using filter_not_taken [OF due_rows_distinct [OF assms(1)]] by simp
qed

definition current_preferences :: "server \<Rightarrow> preferences" where
  "current_preferences s =
     (case db_preferences (sv_db s) of None \<Rightarrow> default_preferences (sv_cfg s) | Some q \<Rightarrow> q)"

definition reports_decode :: "server_lib \<Rightarrow> db \<Rightarrow> bool" where
  "reports_decode p d \<longleftrightarrow> (\<forall>r \<in> set (db_reports d). sl_decode p (rr_payload r) \<noteq> None)"

definition mailed_id :: "mail \<Rightarrow> nat" where
  "mailed_id m = (case ml_subject m of AlertMail a \<Rightarrow> al_id a | TestMail _ \<Rightarrow> 0)"

lemma decode_all_succeeds: "\<forall>x \<in> set xs. decode x \<noteq> None \<Longrightarrow> \<exists>rs. decode_all decode xs = Inr rs"
  by (induction xs) auto

lemma newest_member: "newest rows = Some r \<Longrightarrow> r \<in> set rows"
proof -
  assume "newest rows = Some r"
  then obtain rest where "rev (sort_key rr_id rows) = r # rest" by (auto simp: newest_def split: list.splits)
  then have "r \<in> set (rev (sort_key rr_id rows))" by simp
  then show ?thesis by simp
qed

lemma latest_reports_succeeds:
  assumes "reports_decode p d" "\<forall>c. \<not> fails c"
  shows "\<exists>rs. latest_reports fails (sl_decode p) d = Inr rs"
proof -
  have "r \<in> set (latest_rows d) \<Longrightarrow> r \<in> set (db_reports d)" for r
    by (auto simp: latest_rows_def dest!: newest_member [OF sym] split: option.splits)
  then show ?thesis using assms decode_all_succeeds [of "map rr_payload (latest_rows d)" "sl_decode p"]
    by (auto simp: latest_reports_def reports_decode_def)
qed

lemma quiet_pass_effect:
  assumes "alerts_ok (sv_db s)" "reports_decode p (sv_db s)" "quiet_pass io"
  shows "\<exists>f reports.
    process_notifications env p io s = s\<lparr>sv_db := all_marked f (take 50 (due_rows (sv_db s))) (sv_db s),
       sv_outbox := sv_outbox s @ mails_of (sv_cfg s) (current_preferences s) reports f (take 50 (due_rows (sv_db s)))\<rparr> \<and>
    (\<forall>r \<in> set (take 50 (due_rows (sv_db s))). outcome (sv_cfg s) (current_preferences s) r (fst (f r)))"
proof -
  let ?d = "sv_db s" and ?q = "current_preferences s" and ?T = "take 50 (due_rows (sv_db s))"
  have io: "\<forall>c. \<not> pi_fails io c" "\<forall>n. quiet_mail (pi_alert io n)" using assms(3) by (simp_all add: quiet_pass_def)
  have prefs: "server_preferences (pi_fails io) s = Inr ?q"
    using io(1) by (simp add: server_preferences_def notification_preferences_def current_preferences_def)
  have pending: "pending_notifications (pi_fails io) 50 ?d = Inr (map scan_alert ?T)"
    using io(1) by (simp add: pending_notifications_def query_alerts_def due_rows_def)
  obtain reports where reports: "(if map scan_alert ?T \<noteq> [] \<and> pr_enabled ?q \<and> sm_enabled (sc_smtp (sv_cfg s))
      then latest_reports (pi_fails io) (sl_decode p) ?d else Inr []) = Inr reports"
    using latest_reports_succeeds [OF assms(2) io(1)] by (cases "map scan_alert ?T \<noteq> [] \<and> pr_enabled ?q \<and>
      sm_enabled (sc_smtp (sv_cfg s))") auto
  have T: "distinct ?T" "set ?T \<subseteq> {r \<in> set (db_alerts ?d). due_row r}"
    using due_rows_distinct [OF assms(1)] set_take_subset [of 50 "due_rows ?d"] by (auto simp: set_due_rows)
  obtain f where f: "notify_alerts env (sv_cfg s) ?q reports (pi_alert io) (map scan_alert ?T) (?d, sv_outbox s) =
      (all_marked f ?T ?d, sv_outbox s @ mails_of (sv_cfg s) ?q reports f ?T)"
      "\<forall>r \<in> set ?T. outcome (sv_cfg s) ?q r (fst (f r))"
    using notify_alerts_quiet [OF assms(1) T io(2)] by blast
  have "process_notifications env p io s = s\<lparr>sv_db := all_marked f ?T ?d,
      sv_outbox := sv_outbox s @ mails_of (sv_cfg s) ?q reports f ?T\<rparr>"
    unfolding process_notifications_def prefs sum.case pending reports f(1) prod.case ..
  then show ?thesis using f(2) by blast
qed

lemma all_marked_ok:
  assumes "alerts_ok d" "set rs \<subseteq> {r \<in> set (db_alerts d). due_row r}" "\<forall>r \<in> set rs. outcome c q r (fst (f r))"
  shows "alerts_ok (all_marked f rs d)"
  unfolding all_marked_def
proof (rule alerts_ok_update_rows [OF assms(1)])
  fix r
  assume "r \<in> set (db_alerts d)" "r \<in> set rs"
  then show "row_ok (mark_row (fst (f r)) (snd (f r)) r)"
    using assms by (intro row_ok_marked) (auto simp: alerts_ok_def outcome_def)
qed (simp_all add: keeps_key_def mark_row_def)

text \<open>What a number of undisturbed passes makes of the alerts they serve.\<close>

definition served_by :: "server_config \<Rightarrow> preferences \<Rightarrow> alert_row list \<Rightarrow> mail list \<Rightarrow> db \<Rightarrow> bool" where
  "served_by c q served ms d \<longleftrightarrow>
     subseq (map mailed_id ms) (map ar_id served) \<and>
     (\<forall>m \<in> set ms. ml_accepted m \<and> ml_recipient m = pr_recipient q \<and> ml_url m = sc_public_url c) \<and>
     (\<forall>r \<in> set served.
        outcome c q r (if ar_id r \<in> mailed_id ` set ms then NotSent else NotSuppressed) \<and>
        (\<exists>r' \<in> set (db_alerts d). ar_id r' = ar_id r \<and> ar_state r' = ar_state r \<and>
           ar_notification r' = (if ar_id r \<in> mailed_id ` set ms then NotSent else NotSuppressed)))"

lemma subseq_set: "subseq xs ys \<Longrightarrow> set xs \<subseteq> set ys"
  by (induction rule: list_emb.induct) auto

lemma subseq_map_filter: "subseq (map g (filter P xs)) (map g xs)"
  by (rule subseq_map) (rule subseq_filter_left)

lemma served_one:
  assumes ok: "alerts_ok d" "set rs \<subseteq> {r \<in> set (db_alerts d). due_row r}"
    and f: "\<forall>r \<in> set rs. outcome c q r (fst (f r))"
  shows "served_by c q rs (mails_of c q reports f rs) (all_marked f rs d)"
proof -
  have ids: "map mailed_id (mails_of c q reports f rs) = map ar_id (filter (\<lambda>r. fst (f r) = NotSent) rs)"
    by (simp add: mails_of_def mailed_id_def alert_mail_def comp_def)
  have mem: "ar_id r \<in> mailed_id ` set (mails_of c q reports f rs) \<longleftrightarrow> fst (f r) = NotSent" if "r \<in> set rs" for r
  proof -
    have "mailed_id ` set (mails_of c q reports f rs) = ar_id ` {x \<in> set rs. fst (f x) = NotSent}"
      using arg_cong [OF ids, of set] by simp
    moreover have "x = r" if "x \<in> set rs" "ar_id x = ar_id r" for x
    proof (rule row_by_id [OF ok(1) _ _ that(2)])
      show "x \<in> set (db_alerts d)" "r \<in> set (db_alerts d)" using that(1) \<open>r \<in> set rs\<close> ok(2) by auto
    qed
    ultimately show ?thesis using that by (auto simp: image_iff)
  qed
  have row: "\<exists>r' \<in> set (db_alerts (all_marked f rs d)). ar_id r' = ar_id r \<and> ar_state r' = ar_state r \<and>
      ar_notification r' = fst (f r)" if "r \<in> set rs" for r
  proof (rule bexI)
    let ?m = "\<lambda>x. if x \<in> set rs then mark_row (fst (f x)) (snd (f x)) x else x"
    have "r \<in> set (db_alerts d)" using that ok(2) by blast
    then have "?m r \<in> ?m ` set (db_alerts d)" by (rule imageI)
    then show "mark_row (fst (f r)) (snd (f r)) r \<in> set (db_alerts (all_marked f rs d))"
      using that by (simp add: all_marked_def update_alerts_def)
  qed (simp add: mark_row_def)
  have v: "(if fst (f r) = NotSent then NotSent else NotSuppressed) = fst (f r)" if "r \<in> set rs" for r
    using f that by (auto simp: outcome_def)
  show ?thesis unfolding served_by_def
  proof (intro conjI ballI)
    show "subseq (map mailed_id (mails_of c q reports f rs)) (map ar_id rs)"
      unfolding ids by (rule subseq_map_filter)
    fix m
    assume "m \<in> set (mails_of c q reports f rs)"
    then show "ml_accepted m" "ml_recipient m = pr_recipient q" "ml_url m = sc_public_url c"
      by (auto simp: mails_of_def alert_mail_def)
  next
    fix r
    assume r: "r \<in> set rs"
    show "outcome c q r (if ar_id r \<in> mailed_id ` set (mails_of c q reports f rs) then NotSent else NotSuppressed)"
      using f r by (simp add: mem v)
    show "\<exists>r' \<in> set (db_alerts (all_marked f rs d)). ar_id r' = ar_id r \<and> ar_state r' = ar_state r \<and>
        ar_notification r' = (if ar_id r \<in> mailed_id ` set (mails_of c q reports f rs) then NotSent else NotSuppressed)"
      using row [OF r] r by (simp add: mem v)
  qed
qed

lemma served_ids: "served_by c q rs ms d \<Longrightarrow> mailed_id ` set ms \<subseteq> ar_id ` set rs"
  using subseq_set [of "map mailed_id ms" "map ar_id rs"] by (simp add: served_by_def)

lemma served_append:
  assumes one: "served_by c q rs ms d1" and two: "served_by c q rs2 ms2 d2"
    and kept: "\<forall>r \<in> set (db_alerts d1). ar_id r \<in> ar_id ` set rs \<longrightarrow> r \<in> set (db_alerts d2)"
    and ids: "ar_id ` set rs \<inter> ar_id ` set rs2 = {}"
  shows "served_by c q (rs @ rs2) (ms @ ms2) d2"
proof -
  have sub: "mailed_id ` set ms \<subseteq> ar_id ` set rs" "mailed_id ` set ms2 \<subseteq> ar_id ` set rs2"
    using served_ids [OF one] served_ids [OF two] .
  have left: "ar_id r \<in> mailed_id ` set (ms @ ms2) \<longleftrightarrow> ar_id r \<in> mailed_id ` set ms" if "r \<in> set rs" for r
  proof -
    have "ar_id r \<notin> mailed_id ` set ms2" using imageI [OF that, of ar_id] sub(2) ids by (meson disjoint_iff subsetD)
    then show ?thesis unfolding set_append image_Un by (simp only: Un_iff simp_thms)
  qed
  have right: "ar_id r \<in> mailed_id ` set (ms @ ms2) \<longleftrightarrow> ar_id r \<in> mailed_id ` set ms2" if "r \<in> set rs2" for r
  proof -
    have "ar_id r \<notin> mailed_id ` set ms" using imageI [OF that, of ar_id] sub(1) ids by (meson disjoint_iff subsetD)
    then show ?thesis unfolding set_append image_Un by (simp only: Un_iff simp_thms)
  qed
  let ?v = "\<lambda>ms r. if ar_id r \<in> mailed_id ` set ms then NotSent else NotSuppressed"
  let ?row = "\<lambda>d ms r r'. ar_id r' = ar_id r \<and> ar_state r' = ar_state r \<and> ar_notification r' = ?v ms r"
  show ?thesis unfolding served_by_def
  proof (intro conjI ballI)
    show "subseq (map mailed_id (ms @ ms2)) (map ar_id (rs @ rs2))"
      using one two unfolding served_by_def map_append by (intro list_emb_append_mono) blast+
    fix m
    assume "m \<in> set (ms @ ms2)"
    then show "ml_accepted m" "ml_recipient m = pr_recipient q" "ml_url m = sc_public_url c"
      using one two unfolding served_by_def by auto
  next
    fix r
    assume "r \<in> set (rs @ rs2)"
    then consider (old) "r \<in> set rs" | (new) "r \<in> set rs2" by auto
    then have "outcome c q r (?v (ms @ ms2) r) \<and> (\<exists>r' \<in> set (db_alerts d2). ?row d2 (ms @ ms2) r r')"
    proof cases
      case old
      then obtain r' where r': "outcome c q r (?v ms r)" "r' \<in> set (db_alerts d1)" "?row d1 ms r r'"
        using one unfolding served_by_def by blast
      then have "r' \<in> set (db_alerts d2)" using kept old by simp
      then show ?thesis using r'(1,3) unfolding left [OF old] by blast
    next
      case new
      then show ?thesis using two unfolding served_by_def right [OF new] by blast
    qed
    then show "outcome c q r (?v (ms @ ms2) r)" "\<exists>r' \<in> set (db_alerts d2). ?row d2 (ms @ ms2) r r'" by blast+
  qed
qed

text \<open>A pass leaves alone what is not due.\<close>

lemma all_marked_keeps: "r \<in> set (db_alerts d) \<Longrightarrow> r \<notin> set rs \<Longrightarrow> r \<in> set (db_alerts (all_marked f rs d))"
  by (force simp: all_marked_def update_alerts_def image_iff)

lemma all_marked_others [simp]:
  "db_preferences (all_marked f rs d) = db_preferences d" "db_reports (all_marked f rs d) = db_reports d"
  "reports_decode p (all_marked f rs d) = reports_decode p d"
  by (simp_all add: all_marked_def update_alerts_def reports_decode_def)

lemma quiet_passes:
  assumes "alerts_ok (sv_db s)" "reports_decode p (sv_db s)" "\<forall>io \<in> set ios. quiet_pass io"
  shows "let s' = fold (process_notifications env p) ios s; n = 50 * length ios in
    due_rows (sv_db s') = drop n (due_rows (sv_db s)) \<and>
    (\<forall>r \<in> set (db_alerts (sv_db s)). \<not> due_row r \<longrightarrow> r \<in> set (db_alerts (sv_db s'))) \<and>
    (\<exists>ms. sv_outbox s' = sv_outbox s @ ms \<and>
       served_by (sv_cfg s) (current_preferences s) (take n (due_rows (sv_db s))) ms (sv_db s'))"
  using assms
proof (induction ios arbitrary: s)
  case Nil
  then show ?case by (auto simp: served_by_def)
next
  case (Cons io ios)
  let ?d = "sv_db s" and ?c = "sv_cfg s" and ?q = "current_preferences s"
  let ?T = "take 50 (due_rows ?d)" and ?n = "50 * length ios"
  obtain f reports where pass: "process_notifications env p io s =
      s\<lparr>sv_db := all_marked f ?T ?d, sv_outbox := sv_outbox s @ mails_of ?c ?q reports f ?T\<rparr>"
      "\<forall>r \<in> set ?T. outcome ?c ?q r (fst (f r))"
    using quiet_pass_effect [OF Cons.prems(1,2), of io env] Cons.prems(3) by auto
  let ?d1 = "all_marked f ?T ?d" and ?ms = "mails_of ?c ?q reports f ?T"
  let ?s1 = "s\<lparr>sv_db := ?d1, sv_outbox := sv_outbox s @ ?ms\<rparr>"
  have T: "set ?T \<subseteq> {r \<in> set (db_alerts ?d). due_row r}"
    using set_take_subset [of 50 "due_rows ?d"] by (auto simp: set_due_rows)
  have ok1: "alerts_ok ?d1" by (rule all_marked_ok [OF Cons.prems(1) T pass(2)])
  have "\<forall>r \<in> set ?T. fst (f r) \<noteq> NotPending" using pass(2) by (auto simp: outcome_def)
  then have due1: "due_rows ?d1 = drop 50 (due_rows ?d)" by (rule due_rows_marked [OF Cons.prems(1)])
  have same: "sv_cfg ?s1 = ?c" "current_preferences ?s1 = ?q" by (simp_all add: current_preferences_def cong: option.case_cong)
  let ?s' = "fold (process_notifications env p) ios ?s1"
  have run: "fold (process_notifications env p) (io # ios) s = ?s'" by (simp add: pass(1))
  obtain ms2 where ih: "due_rows (sv_db ?s') = drop ?n (drop 50 (due_rows ?d))"
      "\<forall>r \<in> set (db_alerts ?d1). \<not> due_row r \<longrightarrow> r \<in> set (db_alerts (sv_db ?s'))"
      "sv_outbox ?s' = (sv_outbox s @ ?ms) @ ms2"
      "served_by ?c ?q (take ?n (drop 50 (due_rows ?d))) ms2 (sv_db ?s')"
    using Cons.IH [of ?s1] ok1 Cons.prems(2,3) unfolding same due1 [symmetric] Let_def by auto
  have one: "served_by ?c ?q ?T ?ms ?d1" by (rule served_one [OF Cons.prems(1) T pass(2)])
  have split: "take (50 * length (io # ios)) (due_rows ?d) = ?T @ take ?n (drop 50 (due_rows ?d))"
    by (simp add: take_add)
  have dist: "distinct (map ar_id (due_rows ?d))"
    using Cons.prems(1) by (auto simp: alerts_ok_def due_rows_def distinct_map intro: inj_on_subset)
  have disj: "ar_id ` set ?T \<inter> ar_id ` set (take ?n (drop 50 (due_rows ?d))) = {}"
  proof -
    have "set (take 50 (map ar_id (due_rows ?d))) \<inter> set (drop 50 (map ar_id (due_rows ?d))) = {}"
      by (rule set_take_disj_set_drop_if_distinct [OF dist]) simp
    then show ?thesis using set_take_subset [of ?n "drop 50 (due_rows ?d)"]
      by (simp add: take_map drop_map) blast
  qed
  have kept: "\<forall>r \<in> set (db_alerts ?d1). ar_id r \<in> ar_id ` set ?T \<longrightarrow> r \<in> set (db_alerts (sv_db ?s'))"
  proof (intro ballI impI)
    fix r
    assume r: "r \<in> set (db_alerts ?d1)" "ar_id r \<in> ar_id ` set ?T"
    then obtain t where t: "t \<in> set ?T" "ar_id r = ar_id t" by blast
    obtain r' where r': "r' \<in> set (db_alerts ?d1)" "ar_id r' = ar_id t" "ar_notification r' \<noteq> NotPending"
      using one t(1) unfolding served_by_def by (metis notification.distinct)
    have "r = r'" using row_by_id [OF ok1 r(1) r'(1)] t(2) r'(2) by simp
    then show "r \<in> set (db_alerts (sv_db ?s'))" using ih(2) r(1) r'(3) by (simp add: due_row_def)
  qed
  have "served_by ?c ?q (take (50 * length (io # ios)) (due_rows ?d)) (?ms @ ms2) (sv_db ?s')"
    unfolding split by (rule served_append [OF one ih(4) kept disj])
  moreover have "r \<in> set (db_alerts (sv_db ?s'))" if "r \<in> set (db_alerts ?d)" "\<not> due_row r" for r
    using ih(2) all_marked_keeps [OF that(1), of ?T f] that T by blast
  ultimately show ?case using ih(1,3) unfolding run Let_def
    by (auto simp: add.commute intro!: exI [of _ "?ms @ ms2"])
qed

subsection \<open>Properties\<close>

text \<open>C7. The outbox is drained: when nothing fails and nobody interferes, each pass of the notification loop
  serves the 50 oldest pending notifications, so after enough passes none is pending.  The served alerts
  are mailed in the order of their ids, each at most once and to the preferred recipient; what is not wanted
  (mail switched off, a warning or a recovery that is not asked for) is suppressed without a mail, every
  wanted recovery is mailed, and every wanted alert when there is no cooldown.  An alert ends as sent exactly
  when it was mailed, otherwise as suppressed.\<close>

theorem outbox_drains:
  assumes "db_ok (sv_db s)" and "reports_decode p (sv_db s)" and "\<forall>io \<in> set ios. quiet_pass io"
    and "s' = fold (process_notifications env p) ios s"
  shows "due_rows (sv_db s') = drop (50 * length ios) (due_rows (sv_db s)) \<and>
    (\<exists>ms. sv_outbox s' = sv_outbox s @ ms \<and>
       served_by (sv_cfg s) (current_preferences s) (take (50 * length ios) (due_rows (sv_db s))) ms (sv_db s'))"
  using quiet_passes [of s p ios env] assms by (simp add: Let_def db_ok_def)

subsection \<open>A concrete server\<close>

definition demo_preferences :: "bool \<Rightarrow> preferences" where
  "demo_preferences recovery = \<lparr>pr_enabled = True, pr_recipient = ''ops@example.com'', pr_warnings = True,
     pr_recovery = recovery\<rparr>"

definition demo_mail_config :: server_config where
  "demo_mail_config = server_defaults\<lparr>sc_public_url := ''https://mon.example'',
     sc_smtp := (sc_smtp server_defaults)\<lparr>sm_enabled := True\<rparr>\<rparr>"

definition demo_server :: "preferences \<Rightarrow> db \<Rightarrow> server" where
  "demo_server q d = \<lparr>sv_cfg = demo_mail_config, sv_engine = new_engine demo_mail_config,
     sv_db = d\<lparr>db_preferences := Some q\<rparr>, sv_sessions = new_sessions (30 * minute) (12 * hour) True,
     sv_login_limiter = new_limiter 5 (15 * minute) 0, sv_api_limiter = new_limiter 120 minute 0,
     sv_email_limiter = new_limiter 3 minute 0, sv_proxy = None, sv_events = new_broker,
     sv_notify_wake = False, sv_outbox = []\<rparr>"

definition calm_pass :: "gotime \<Rightarrow> pass_io" where
  "calm_pass now = \<lparr>pi_fails = (\<lambda>_. False), pi_alert = (\<lambda>_. \<lparr>mi_cancelled = False, mi_before = [],
     mi_during = [], mi_fails = (\<lambda>_. False), mi_cooldown_now = now, mi_mark_now = now, mi_accepted = True\<rparr>)\<rparr>"

lemma calm_pass_quiet: "quiet_pass (calm_pass now)"
  by (simp add: calm_pass_def quiet_pass_def quiet_mail_def)

definition demo_server_lib :: server_lib where
  "demo_server_lib = \<lparr>sl_lib = demo_lib, sl_idkey = (\<lambda>_ _. replicate 32 CHR 0x00), sl_mac = (@),
     sl_decode_strict = (\<lambda>_. None), sl_encode = (\<lambda>_. Some ''payload''), sl_decode = (\<lambda>_. None), sl_event = (\<lambda>_ _. []),
     sl_avg = hd, sl_hour_text = (\<lambda>(t, _). (t - t mod 3600, ''Z''))\<rparr>"

lemma demo_firing_db_ok: "db_ok (demo_firing\<lparr>db_preferences := Some q\<rparr>)"
proof -
  have "reports_ok demo_db" by (simp add: reports_ok_def demo_db_def)
  then have "reports_ok demo_firing" unfolding demo_firing_def by (rule apply_rule_reports_ok)
  then show ?thesis using demo_firing_eval(3) by (simp add: db_ok_def alerts_ok_def reports_ok_def)
qed

theorem outbox_drains_witness:
  "due_rows demo_firing \<noteq> [] \<and>
   due_rows (sv_db (process_notifications demo_env demo_server_lib (calm_pass 5)
     (demo_server (demo_preferences True) demo_firing))) = []"
proof -
  let ?s = "demo_server (demo_preferences True) demo_firing"
  have due: "due_rows demo_firing = [new_row (demo_rule True 0 0) 1000 1]" "due_rows (sv_db ?s) = due_rows demo_firing"
    by (simp_all add: due_rows_def demo_firing_eval demo_server_def due_row_def new_row_def)
  have "reports_decode demo_server_lib (sv_db ?s)"
    by (simp add: reports_decode_def demo_server_def demo_firing_def apply_rule_def apply_rule_tx_def select_active_def
      demo_db_def insert_alert_def audited_def audit_rule_tx_def audit_tx_def amap_get_def demo_rule_def new_row_def Let_def)
  moreover have "db_ok (sv_db ?s)" by (simp add: demo_server_def demo_firing_db_ok)
  ultimately show ?thesis
    using outbox_drains [of ?s demo_server_lib "[calm_pass 5]" _ demo_env] due by (simp add: calm_pass_quiet)
qed

text \<open>With recovery mails switched off the cooldown does not hold: the mail of an alert that has recovered is
  suppressed by overwriting the mark of its first mail, so the next failure of the same check is mailed
  at once, however recent that first mail is.\<close>

theorem recovery_off_defeats_cooldown:
  assumes "alerts_ok d" and "r \<in> set (db_alerts d)" and "due_row r" and "ar_state r = Resolved"
    and others: "\<forall>q \<in> set (db_alerts d). same_key r q \<and> q \<noteq> r \<longrightarrow> ar_notification q \<noteq> NotSent"
    and "quiet_mail io" and "\<not> pr_recovery q"
    and key: "al_agent_id n = ar_agent_id r" "al_rule_key n = ar_rule_key r" "al_resource n = ar_resource r"
    and "notify_one env c q reports io (scan_alert r) (d, out) = (d', out')"
  shows "out' = out \<and> notification_in_cooldown (\<lambda>_. False) n cooldown now d' = Inr False"
proof -
  have "unwanted c q (scan_alert r)" using assms(4,7) by (simp add: unwanted_def)
  then obtain t where d': "d' = marked NotSuppressed t r d" "out' = out"
    using notify_one_quiet [OF assms(1-3,6), of env c q reports out] assms(11) by auto
  have "ar_notification x \<noteq> NotSent" if mem: "x \<in> set (db_alerts d')" "same_key r x" for x
  proof -
    obtain y where y: "y \<in> set (db_alerts d)" "x = (if y = r then mark_row NotSuppressed t y else y)"
      using mem(1) by (auto simp: d'(1) marked_def update_alerts_def)
    show ?thesis
    proof (cases "y = r")
      case True
      then show ?thesis using y(2) by (simp add: mark_row_def)
    next
      case False
      then show ?thesis using y mem(2) others by simp
    qed
  qed
  then have "filter (\<lambda>x. row_of (al_agent_id n) (al_rule_key n) (al_resource n) x \<and> ar_id x \<noteq> al_id n \<and>
      ar_severity x = al_severity n \<and> ar_notification x = NotSent \<and> P x) (db_alerts d') = []" for P
    unfolding key filter_empty_conv same_key_def by blast
  then show ?thesis using d'(2) by (auto simp: notification_in_cooldown_def)
qed

end
