(* ===== verification/Dashboard.thy ===== *)
theory Dashboard
  imports Notify "HOL-Library.Multiset"
begin

text \<open>
  What the dashboard shows (\<open>internal/server/dashboard.go\<close> and the handler \<open>dashboard\<close> of
  \<open>internal/server/server.go\<close>).  \<open>sort.SliceStable\<close> is written as the insertion sort the library uses;
  for the orders of this file its result does not depend on the algorithm.  A map with boolean values that
  is only read and set to true is a list of its keys.
\<close>

subsection \<open>Stable sorting\<close>

text \<open>\<open>place\<close> moves a new element towards the front of the sorted part (kept in reverse) while it is less.\<close>

fun place :: "('a \<Rightarrow> 'a \<Rightarrow> bool) \<Rightarrow> 'a \<Rightarrow> 'a list \<Rightarrow> 'a list" where
  "place lt x [] = [x]"
| "place lt x (y # ys) = (if lt x y then y # place lt x ys else x # y # ys)"

definition slice_stable :: "('a \<Rightarrow> 'a \<Rightarrow> bool) \<Rightarrow> 'a list \<Rightarrow> 'a list" where
  "slice_stable lt xs = rev (fold (place lt) xs [])"

subsection \<open>The data of a page\<close>

record filesystem_view =
  fv_filesystem :: filesystem
  fv_level :: string
  fv_change :: string

record server_view =
  vw_report :: report
  vw_online :: bool
  vw_fresh :: bool
  vw_missing :: bool
  vw_files :: "filesystem_view list"
  vw_issues :: "string list"

record dashboard_data =
  dd_csrf :: string
  dd_reports :: "server_view list"
  dd_alerts :: "alert list"
  dd_alert_history :: "alert list"
  dd_preferences :: preferences
  dd_smtp_ready :: bool
  dd_smtp_address :: string
  dd_online_count :: int
  dd_critical_count :: int
  dd_disk_count :: int

definition alert_before :: "alert \<Rightarrow> alert \<Rightarrow> bool" where
  "alert_before a b =
     (if al_state a \<noteq> al_state b then al_state a = Firing
      else al_severity a = Critical \<and> al_severity b \<noteq> Critical)"

definition fuller :: "filesystem_view \<Rightarrow> filesystem_view \<Rightarrow> bool" where
  "fuller v w = flt (fs_used_percent (fv_filesystem w)) (fs_used_percent (fv_filesystem v))"

definition critical_count :: "alert list \<Rightarrow> int" where
  "critical_count active = int (length (filter (\<lambda>a. al_state a = Firing \<and> al_severity a = Critical) active))"

text \<open>The first report of the alert's agent adds its context.\<close>

definition with_reports :: "report list \<Rightarrow> alert \<Rightarrow> alert" where
  "with_reports reports a =
     (case find (\<lambda>r. al_agent_id a = rep_agent_id r) reports of None \<Rightarrow> a | Some r \<Rightarrow> with_report a r)"

subsection \<open>File systems\<close>

definition file_level :: "server_config \<Rightarrow> filesystem \<Rightarrow> string" where
  "file_level c f =
     (if flt (sc_disk_critical_threshold c) (fs_used_percent f) then ''critical''
      else if flt (sc_disk_warning_threshold c) (fs_used_percent f) then ''warning'' else ''ok'')"

definition same_volume :: "filesystem \<Rightarrow> filesystem \<Rightarrow> bool" where
  "same_volume f old \<longleftrightarrow> fs_mountpoint old = fs_mountpoint f \<and> fs_device old = fs_device f \<and>
     fs_total_bytes old = fs_total_bytes f"

text \<open>\<open>previous\<close> is \<open>None\<close> when there is no earlier report, whose list of file systems is empty then.\<close>

definition file_change :: "report \<Rightarrow> report option \<Rightarrow> filesystem \<Rightarrow> string" where
  "file_change r previous f =
     (case previous of
        None \<Rightarrow> (''Nincs '' @ [CHR 0xC3, CHR 0xB6] @ ''sszehasonl'' @ [CHR 0xC3, CHR 0xAD] @ ''that'' @ [CHR 0xC3, CHR 0xB3] @ '' kor'' @ [CHR 0xC3, CHR 0xA1] @ ''bbi m'' @ [CHR 0xC3, CHR 0xA9] @ ''r'' @ [CHR 0xC3, CHR 0xA9] @ ''s'')
      | Some p \<Rightarrow>
          (case find (same_volume f) (rep_filesystems p) of
             None \<Rightarrow> (''Nincs '' @ [CHR 0xC3, CHR 0xB6] @ ''sszehasonl'' @ [CHR 0xC3, CHR 0xAD] @ ''that'' @ [CHR 0xC3, CHR 0xB3] @ '' kor'' @ [CHR 0xC3, CHR 0xA1] @ ''bbi m'' @ [CHR 0xC3, CHR 0xA9] @ ''r'' @ [CHR 0xC3, CHR 0xA9] @ ''s'')
           | Some old \<Rightarrow>
               (let elapsed = format_hungarian_duration (time_sub (rep_timestamp r) (rep_timestamp p)) in
                if fs_used_bytes f < fs_used_bytes old then
                  ([CHR 0xE2, CHR 0x88, CHR 0x92]) @ format_bytes (fs_used_bytes old - fs_used_bytes f) @ ('' '' @ [CHR 0xC2, CHR 0xB7] @ '' '') @ elapsed
                else if fs_used_bytes old < fs_used_bytes f then
                  ''+'' @ format_bytes (fs_used_bytes f - fs_used_bytes old) @ ('' '' @ [CHR 0xC2, CHR 0xB7] @ '' '') @ elapsed
                else (''V'' @ [CHR 0xC3, CHR 0xA1] @ ''ltozatlan '' @ [CHR 0xC2, CHR 0xB7] @ '' '') @ elapsed)))"

definition file_view :: "server_config \<Rightarrow> report \<Rightarrow> report option \<Rightarrow> filesystem \<Rightarrow> filesystem_view" where
  "file_view c r previous f =
     \<lparr>fv_filesystem = f, fv_level = file_level c f, fv_change = file_change r previous f\<rparr>"

subsection \<open>Issues\<close>

definition service_issues :: "report \<Rightarrow> string list" where
  "service_issues r = map (\<lambda>x. (''Szolg'' @ [CHR 0xC3, CHR 0xA1] @ ''ltat'' @ [CHR 0xC3, CHR 0xA1] @ ''s: '') @ svc_name x @ ('' '' @ [CHR 0xC2, CHR 0xB7] @ '' '') @ label_service_state (svc_active_state x) @ '' '' @ svc_error x)
     (filter (\<lambda>x. svc_active_state x \<noteq> ''active'' \<or> svc_error x \<noteq> []) (rep_services r))"

definition docker_issues :: "report \<Rightarrow> string list" where
  "docker_issues r =
     (let d = rep_docker r in
      (if dk_enabled d \<and> \<not> dk_available d then
         [(''A Docker '' @ [CHR 0xC3, CHR 0xA1] @ ''llapota nem ellen'' @ [CHR 0xC5, CHR 0x91] @ ''rizhet'' @ [CHR 0xC5, CHR 0x91] @ ''. Ellen'' @ [CHR 0xC5, CHR 0x91] @ ''rizd az agent hozz'' @ [CHR 0xC3, CHR 0xA1] @ ''f'' @ [CHR 0xC3, CHR 0xA9] @ ''r'' @ [CHR 0xC3, CHR 0xA9] @ ''s'' @ [CHR 0xC3, CHR 0xA9] @ ''t a Docker sockethez. '') @ dk_error d]
       else []) @
      map (\<lambda>x. (''Kont'' @ [CHR 0xC3, CHR 0xA9] @ ''ner: '') @ ct_name x @ ('' '' @ [CHR 0xC2, CHR 0xB7] @ '' '') @ label_container_state (ct_state x) @ '' / '' @
          label_container_state (ct_health x))
        (filter (\<lambda>x. ct_state x \<noteq> ''running'' \<or> ct_health x = ''unhealthy'') (dk_containers d)))"

definition check_issues :: "report \<Rightarrow> string list" where
  "check_issues r =
     map (\<lambda>x. (''Webes v'' @ [CHR 0xC3, CHR 0xA9] @ ''gpont: '') @ hs_name x @ ('' '' @ [CHR 0xC2, CHR 0xB7] @ '' '') @ hs_url x @ ('' '' @ [CHR 0xC2, CHR 0xB7] @ '' '') @ hs_error x)
       (filter (\<lambda>x. \<not> hs_ok x) (rep_http_checks r)) @
     map (\<lambda>x. (''TCP-kapcsolat sikertelen: '') @ ts_address x @ (''. Ellen'' @ [CHR 0xC5, CHR 0x91] @ ''rizd a szolg'' @ [CHR 0xC3, CHR 0xA1] @ ''ltat'' @ [CHR 0xC3, CHR 0xA1] @ ''s portj'' @ [CHR 0xC3, CHR 0xA1] @ ''t '' @ [CHR 0xC3, CHR 0xA9] @ ''s a t'' @ [CHR 0xC5, CHR 0xB1] @ ''zfalat. '') @ ts_error x)
       (filter (\<lambda>x. \<not> ts_reachable x) (rep_tcp_checks r))"

subsection \<open>The page\<close>

text \<open>The readings of the clock and the faults of the statements; those of the loop by the report's index.\<close>

record dashboard_io =
  di_fails_reports :: faults
  di_fails_active :: faults
  di_fails_history :: faults
  di_fails_preferences :: faults
  di_fails_seen :: faults
  di_fails_previous :: "nat \<Rightarrow> faults"
  di_online_now :: "nat \<Rightarrow> gotime"
  di_fresh_now :: "nat \<Rightarrow> gotime"

definition last_seen_of :: "(string \<times> gotime) list \<Rightarrow> string \<Rightarrow> gotime" where
  "last_seen_of seen agent = (case map_of (rev seen) agent of None \<Rightarrow> 0 | Some t \<Rightarrow> t)"

definition server_view_of :: "server_config \<Rightarrow> dashboard_io \<Rightarrow> nat \<Rightarrow> (string \<times> gotime) list \<Rightarrow> report option \<Rightarrow>
    report \<Rightarrow> server_view" where
  "server_view_of c io i seen previous r =
     \<lparr>vw_report = r,
      vw_online = (time_sub (di_online_now io i) (last_seen_of seen (rep_agent_id r)) \<le> sc_agent_offline_after c),
      vw_fresh = (time_sub (di_fresh_now io i) (rep_timestamp r) \<le> sc_agent_offline_after c),
      vw_missing = False,
      vw_files = slice_stable fuller (map (file_view c r previous) (filter monitorable (rep_filesystems r))),
      vw_issues = service_issues r @ docker_issues r @ check_issues r\<rparr>"

definition missing_view :: "string \<Rightarrow> server_view" where
  "missing_view agent = \<lparr>vw_report = (zero_report agent 0 0)\<lparr>rep_hostname := agent\<rparr>, vw_online = False,
     vw_fresh = False, vw_missing = True, vw_files = [], vw_issues = []\<rparr>"

text \<open>The loop over the reports; any error but \<open>ErrNoRows\<close> ends it.\<close>

fun report_views :: "server_lib \<Rightarrow> server_config \<Rightarrow> dashboard_io \<Rightarrow> (string \<times> gotime) list \<Rightarrow> db \<Rightarrow> nat \<Rightarrow>
    report list \<Rightarrow> db_error + server_view list" where
  "report_views p c io seen d i [] = Inr []"
| "report_views p c io seen d i (r # rs) =
     (case previous_report (di_fails_previous io i) (sl_decode p) (rep_agent_id r) (rep_timestamp r) d of
        Inl e \<Rightarrow>
          if e \<noteq> NoRows then Inl e
          else map_sum id ((#) (server_view_of c io i seen None r)) (report_views p c io seen d (Suc i) rs)
      | Inr previous \<Rightarrow>
          map_sum id ((#) (server_view_of c io i seen (Some previous) r)) (report_views p c io seen d (Suc i) rs))"

text \<open>The loop over the configured agents; \<open>present\<close> holds the agents already shown.\<close>

fun missing_agents :: "string list \<Rightarrow> string list \<Rightarrow> string list" where
  "missing_agents present [] = []"
| "missing_agents present (agent # agents) =
     (if agent \<notin> set present then agent # missing_agents (agent # present) agents
      else missing_agents present agents)"

definition dashboard_view :: "server_lib \<Rightarrow> dashboard_io \<Rightarrow> report list \<Rightarrow> alert list \<Rightarrow> server \<Rightarrow>
    db_error + dashboard_data" where
  "dashboard_view p io reports active s =
     (let c = sv_cfg s in
      case server_preferences (di_fails_preferences io) s of
        Inl e \<Rightarrow> Inl e
      | Inr prefs \<Rightarrow>
          (case agent_last_seen (di_fails_seen io) (sv_db s) of
             Inl e \<Rightarrow> Inl e
           | Inr seen \<Rightarrow>
               (let shown = map (with_reports reports) active in
                case report_views p c io seen (sv_db s) 0 reports of
                  Inl e \<Rightarrow> Inl e
                | Inr views \<Rightarrow>
                    Inr \<lparr>dd_csrf = [],
                      dd_reports = views @ map missing_view
                        (missing_agents (map rep_agent_id reports) (map fst (sc_agent_tokens c))),
                      dd_alerts = slice_stable alert_before shown, dd_alert_history = [],
                      dd_preferences = prefs, dd_smtp_ready = sm_enabled (sc_smtp c),
                      dd_smtp_address = sm_address (sc_smtp c),
                      dd_online_count = int (length (filter vw_online views)),
                      dd_critical_count = critical_count shown,
                      dd_disk_count = int (sum_list (map (length \<circ> vw_files) views))\<rparr>)))"

text \<open>The handler: \<open>Inl\<close> is the text of an answer with status 500; \<open>session\<close> is the session it finds, whose
  CSRF token goes into the page's forms.\<close>

definition dashboard_page :: "server_lib \<Rightarrow> dashboard_io \<Rightarrow> session option \<Rightarrow> server \<Rightarrow> string + dashboard_data" where
  "dashboard_page p io session s =
     (let d = sv_db s in
      case latest_reports (di_fails_reports io) (sl_decode p) d of
        Inl _ \<Rightarrow> Inl ''internal error''
      | Inr reports \<Rightarrow>
          (case active_alerts (di_fails_active io) d of
             Inl _ \<Rightarrow> Inl ''internal error''
           | Inr active \<Rightarrow>
               (case alert_history (di_fails_history io) 50 d of
                  Inl _ \<Rightarrow> Inl ''internal error''
                | Inr old \<Rightarrow>
                    (case dashboard_view p io reports active s of
                       Inl _ \<Rightarrow> Inl (''Az '' @ [CHR 0xC3, CHR 0xA1] @ ''llapot nem t'' @ [CHR 0xC3, CHR 0xB6] @ ''lthet'' @ [CHR 0xC5, CHR 0x91] @ '' be.'')
                     | Inr data \<Rightarrow>
                         Inr (data\<lparr>dd_csrf := (case session of None \<Rightarrow> [] | Some x \<Rightarrow> se_csrf x),
                                   dd_alert_history := old\<rparr>)))))"

subsection \<open>The insertion sort is the stable sort\<close>

definition orders :: "('a \<Rightarrow> 'a \<Rightarrow> bool) \<Rightarrow> ('a \<Rightarrow> 'k::linorder) \<Rightarrow> 'a set \<Rightarrow> bool" where
  "orders lt k A \<longleftrightarrow> (\<forall>x \<in> A. \<forall>y \<in> A. lt x y \<longleftrightarrow> k x < k y)"

lemma set_place [simp]: "set (place lt x ys) = insert x (set ys)"
  by (induction ys) auto

lemma place_sorted:
  assumes "orders lt k (insert x (set ys))" "sorted (map k (rev ys))"
  shows "sorted (map k (rev (place lt x ys)))"
  using assms
proof (induction ys)
  case (Cons y ys)
  have o: "orders lt k (insert x (set ys))" "lt x y \<longleftrightarrow> k x < k y"
    using Cons.prems(1) by (auto simp: orders_def)
  have ys: "sorted (map k (rev ys))" "\<forall>z \<in> set ys. k z \<le> k y"
    using Cons.prems(2) by (auto simp: sorted_append)
  show ?case
  proof (cases "lt x y")
    case True
    then show ?thesis using Cons.IH [OF o(1) ys(1)] ys(2) o(2) by (auto simp: sorted_append)
  next
    case False
    then show ?thesis using ys o(2) by (auto simp: sorted_append intro: order_trans)
  qed
qed simp

lemma place_stable:
  assumes "orders lt k (insert x (set ys))" "sorted (map k (rev ys))"
  shows "filter (\<lambda>z. v = k z) (rev (place lt x ys)) = filter (\<lambda>z. v = k z) (rev ys @ [x])"
  using assms
proof (induction ys)
  case (Cons y ys)
  have o: "orders lt k (insert x (set ys))" "lt x y \<longleftrightarrow> k x < k y"
    using Cons.prems(1) by (auto simp: orders_def)
  have ys: "sorted (map k (rev ys))" using Cons.prems(2) by (simp add: sorted_append)
  show ?case using Cons.IH [OF o(1) ys] o(2) by auto
qed simp

lemma fold_place:
  assumes "orders lt k (set xs \<union> set ys)" "sorted (map k (rev ys))"
  shows "sorted (map k (rev (fold (place lt) xs ys))) \<and>
    mset (fold (place lt) xs ys) = mset xs + mset ys \<and>
    filter (\<lambda>z. v = k z) (rev (fold (place lt) xs ys)) = filter (\<lambda>z. v = k z) (rev ys @ xs)"
  using assms
proof (induction xs arbitrary: ys)
  case (Cons x xs)
  have o: "orders lt k (insert x (set ys))" "orders lt k (set xs \<union> set (place lt x ys))"
    using Cons.prems(1) by (auto simp: orders_def)
  have m: "mset (place lt x ys) = add_mset x (mset ys)" for ys
    by (induction ys) auto
  show ?case
    using Cons.IH [OF o(2) place_sorted [OF o(1) Cons.prems(2)]] place_stable [OF o(1) Cons.prems(2), of v] m [of ys]
    by simp
qed simp

lemma slice_stable_sort: "orders lt k (set xs) \<Longrightarrow> slice_stable lt xs = sort_key k xs"
  unfolding slice_stable_def
  by (rule properties_for_sort_key [symmetric]) (use fold_place [of lt k xs "[]"] in simp_all)

lemma length_slice_stable [simp]: "length (slice_stable lt xs) = length xs"
proof -
  have "length (place lt x ys) = Suc (length ys)" for x ys by (induction ys) auto
  then have "length (fold (place lt) xs ys) = length xs + length ys" for ys by (induction xs arbitrary: ys) auto
  then show ?thesis by (simp add: slice_stable_def)
qed

lemma missing_agents_spec:
  "distinct (missing_agents present agents) \<and>
   set (missing_agents present agents) = set agents - set present"
  by (induction agents arbitrary: present) auto

subsection \<open>Properties\<close>

definition alert_rank :: "alert \<Rightarrow> bool \<times> bool" where
  "alert_rank a = (al_state a \<noteq> Firing, al_severity a \<noteq> Critical)"

lemma alert_before_rank: "\<forall>a \<in> A. al_state a \<noteq> Resolved \<Longrightarrow> orders alert_before alert_rank A"
  by (auto simp: orders_def alert_before_def alert_rank_def) (metis alert_state.exhaust)+

definition fill :: "filesystem_view \<Rightarrow> rat" where
  "fill v = (case fs_used_percent (fv_filesystem v) of Fin x \<Rightarrow> - x | _ \<Rightarrow> 0)"

lemma fuller_fill: "\<forall>v \<in> A. \<exists>x. fs_used_percent (fv_filesystem v) = Fin x \<Longrightarrow> orders fuller fill A"
  unfolding orders_def
proof (intro ballI)
  fix v w
  assume fin: "\<forall>v \<in> A. \<exists>x. fs_used_percent (fv_filesystem v) = Fin x" and vw: "v \<in> A" "w \<in> A"
  obtain x where x: "fs_used_percent (fv_filesystem v) = Fin x" using fin vw(1) by blast
  obtain y where y: "fs_used_percent (fv_filesystem w) = Fin y" using fin vw(2) by blast
  show "fuller v w \<longleftrightarrow> fill v < fill w" unfolding fuller_def fill_def x y by simp
qed

lemma map_sum_Inr: "map_sum id f x = Inr y \<Longrightarrow> \<exists>z. x = Inr z \<and> y = f z"
  by (cases x) auto

lemma report_views_shape:
  "report_views p c io seen d i rs = Inr views \<Longrightarrow>
    list_all2 (\<lambda>r v. \<exists>j previous. v = server_view_of c io j seen previous r) rs views"
proof (induction rs arbitrary: i views)
  case (Cons r rs)
  then obtain previous views' where "views = server_view_of c io i seen previous r # views'"
      "report_views p c io seen d (Suc i) rs = Inr views'"
    by (auto split: sum.splits if_splits dest!: map_sum_Inr)
  then show ?case using Cons.IH by auto
qed simp

lemma views_agents:
  "list_all2 (\<lambda>r v. \<exists>j previous. v = server_view_of c io j seen previous r) rs views \<Longrightarrow>
    map (\<lambda>v. rep_agent_id (vw_report v)) views = map rep_agent_id rs"
  by (induction rule: list_all2_induct) (auto simp: server_view_of_def)

lemma view_files:
  assumes "\<forall>f \<in> set (rep_filesystems r). fs_used_percent f \<in> range Fin"
  shows "sorted (map fill (vw_files (server_view_of c io j seen previous r))) \<and>
    mset (map fv_filesystem (vw_files (server_view_of c io j seen previous r))) = mset (filter monitorable (rep_filesystems r))"
proof -
  let ?vs = "map (file_view c r previous) (filter monitorable (rep_filesystems r))"
  have "orders fuller fill (set ?vs)"
    by (rule fuller_fill) (use assms in \<open>auto simp: file_view_def\<close>)
  then have eq: "vw_files (server_view_of c io j seen previous r) = sort_key fill ?vs"
    by (simp add: server_view_of_def slice_stable_sort)
  have "map fv_filesystem ?vs = filter monitorable (rep_filesystems r)" by (simp add: file_view_def comp_def)
  then have m: "image_mset fv_filesystem (mset ?vs) = mset (filter monitorable (rep_filesystems r))"
    by (metis mset_map)
  have "mset (map fv_filesystem (sort_key fill ?vs)) = image_mset fv_filesystem (mset ?vs)"
    by (simp only: mset_map mset_sort)
  then show ?thesis unfolding eq m by simp
qed

text \<open>The parts of the page: the alerts and their count, and the file systems of each server.\<close>

lemma with_reports_same:
  "al_state (with_reports reports a) = al_state a" "al_severity (with_reports reports a) = al_severity a"
  by (auto simp: with_reports_def with_report_def Let_def split: option.splits)

lemma page_alerts:
  defines "rows \<equiv> \<lambda>d. descending ar_started_at (filter active_row (db_alerts d))"
  shows "slice_stable alert_before (map (with_reports reports) (map scan_alert (rows d))) =
      sort_key alert_rank (map (\<lambda>r. with_reports reports (scan_alert r)) (rows d))"
    and "critical_count (map (with_reports reports) (map scan_alert (rows d))) =
      int (length (filter (\<lambda>r. ar_state r = Firing \<and> ar_severity r = Critical) (db_alerts d)))"
proof -
  have set: "set (rows d) = {r \<in> set (db_alerts d). active_row r}" by (auto simp: rows_def descending_def)
  have "orders alert_before alert_rank (set (map (with_reports reports) (map scan_alert (rows d))))"
    by (rule alert_before_rank) (auto simp: with_reports_same set active_row_def)
  then show "slice_stable alert_before (map (with_reports reports) (map scan_alert (rows d))) =
      sort_key alert_rank (map (\<lambda>r. with_reports reports (scan_alert r)) (rows d))"
    by (simp add: slice_stable_sort comp_def)
  have "mset (rows d) = mset (filter active_row (db_alerts d))" by (simp add: rows_def descending_def)
  then have "length (filter P (rows d)) = length (filter P (filter active_row (db_alerts d)))" for P
    by (metis mset_filter size_mset)
  then show "critical_count (map (with_reports reports) (map scan_alert (rows d))) =
      int (length (filter (\<lambda>r. ar_state r = Firing \<and> ar_severity r = Critical) (db_alerts d)))"
    unfolding critical_count_def
    by (simp add: filter_map comp_def with_reports_same) (simp add: active_row_def conj_comms cong: conj_cong)
qed

lemma views_files:
  assumes "report_views p c io seen d 0 reports = Inr views"
    and "\<forall>r \<in> set reports. \<forall>f \<in> set (rep_filesystems r). fs_used_percent f \<in> range Fin" and "v \<in> set views"
  shows "sorted (map fill (vw_files v)) \<and>
    mset (map fv_filesystem (vw_files v)) = mset (filter monitorable (rep_filesystems (vw_report v)))"
proof -
  note shape = report_views_shape [OF assms(1)]
  obtain n where n: "n < length views" "v = views ! n" using assms(3) by (auto simp: in_set_conv_nth)
  then have "n < length reports" using list_all2_lengthD [OF shape] by simp
  then obtain r j previous where "r \<in> set reports" "v = server_view_of c io j seen previous r"
    using list_all2_nthD2 [OF shape n(1)] n(2) nth_mem by blast
  then show ?thesis using view_files [of r c io j seen previous] assms(2) by (simp add: server_view_of_def)
qed

text \<open>C18. The dashboard shows everything once and in order: after the agents with a stored report, in the order
  of \<open>LatestReports\<close>, come the configured agents without one, each once; the alerts are the open alerts of
  the database with the context of the reports, firing before pending and critical before warnings, equal
  ones newest first, so the insertion sort agrees with the stable sort by that key; the counters at the
  top are the numbers of agents shown as online, of firing critical alerts and of file systems shown; and
  the file systems of an agent are exactly the monitorable ones, the fullest first.\<close>

theorem dashboard_complete:
  assumes "dashboard_page p io session s = Inr data"
  shows "\<exists>reports. latest_reports (di_fails_reports io) (sl_decode p) (sv_db s) = Inr reports \<and>
    (\<exists>missing. map (\<lambda>v. rep_agent_id (vw_report v)) (dd_reports data) = map rep_agent_id reports @ missing \<and>
       distinct missing \<and> set missing = fst ` set (sc_agent_tokens (sv_cfg s)) - rep_agent_id ` set reports) \<and>
    dd_alerts data = sort_key alert_rank (map (\<lambda>r. with_reports reports (scan_alert r))
      (descending ar_started_at (filter active_row (db_alerts (sv_db s))))) \<and>
    dd_online_count data = int (length (filter vw_online (dd_reports data))) \<and>
    dd_critical_count data =
      int (length (filter (\<lambda>r. ar_state r = Firing \<and> ar_severity r = Critical) (db_alerts (sv_db s)))) \<and>
    dd_disk_count data = int (sum_list (map (\<lambda>v. length (vw_files v)) (dd_reports data))) \<and>
    ((\<forall>r \<in> set reports. \<forall>f \<in> set (rep_filesystems r). fs_used_percent f \<in> range Fin) \<longrightarrow>
      (\<forall>v \<in> set (dd_reports data). sorted (map fill (vw_files v)) \<and>
         mset (map fv_filesystem (vw_files v)) = mset (filter monitorable (rep_filesystems (vw_report v)))))"
proof -
  let ?c = "sv_cfg s" and ?d = "sv_db s"
  let ?rows = "descending ar_started_at (filter active_row (db_alerts ?d))"
  obtain reports seen views where r: "latest_reports (di_fails_reports io) (sl_decode p) ?d = Inr reports"
      "report_views p ?c io seen ?d 0 reports = Inr views"
      "dd_reports data = views @ map missing_view (missing_agents (map rep_agent_id reports) (map fst (sc_agent_tokens ?c)))"
      "dd_alerts data = slice_stable alert_before (map (with_reports reports) (map scan_alert ?rows))"
      "dd_online_count data = int (length (filter vw_online views))"
      "dd_critical_count data = critical_count (map (with_reports reports) (map scan_alert ?rows))"
      "dd_disk_count data = int (sum_list (map (length \<circ> vw_files) views))"
    using assms by (auto simp: dashboard_page_def dashboard_view_def active_alerts_def query_alerts_def Let_def
        split: sum.splits if_splits)
  note shape = report_views_shape [OF r(2)]
  have files: "sorted (map fill (vw_files v)) \<and>
      mset (map fv_filesystem (vw_files v)) = mset (filter monitorable (rep_filesystems (vw_report v)))"
    if fin: "\<forall>r \<in> set reports. \<forall>f \<in> set (rep_filesystems r). fs_used_percent f \<in> range Fin"
      and v: "v \<in> set (dd_reports data)" for v
    using views_files [OF r(2) fin] v unfolding r(3) by (auto simp: missing_view_def zero_report_def)
  let ?missing = "missing_agents (map rep_agent_id reports) (map fst (sc_agent_tokens ?c))"
  have agents: "map (\<lambda>v. rep_agent_id (vw_report v)) (dd_reports data) = map rep_agent_id reports @ ?missing"
    unfolding r(3) by (simp add: views_agents [OF shape] comp_def missing_view_def)
  have missing: "distinct ?missing" "set ?missing = fst ` set (sc_agent_tokens ?c) - rep_agent_id ` set reports"
    using missing_agents_spec [of "map rep_agent_id reports" "map fst (sc_agent_tokens ?c)"] by simp_all
  have online: "dd_online_count data = int (length (filter vw_online (dd_reports data)))"
    unfolding r(3,5) by (simp add: filter_map comp_def missing_view_def)
  have disk: "dd_disk_count data = int (sum_list (map (\<lambda>v. length (vw_files v)) (dd_reports data)))"
    unfolding r(3,7) by (simp add: comp_def missing_view_def)
  show ?thesis
  proof (intro exI [of _ reports] conjI impI ballI)
    show "\<exists>missing. map (\<lambda>v. rep_agent_id (vw_report v)) (dd_reports data) = map rep_agent_id reports @ missing \<and>
        distinct missing \<and> set missing = fst ` set (sc_agent_tokens ?c) - rep_agent_id ` set reports"
      using agents missing by blast
  qed (use r(1) page_alerts [of reports ?d] online disk files in \<open>simp_all add: r(4) r(6)\<close>)
qed

definition calm_dashboard :: "gotime \<Rightarrow> dashboard_io" where
  "calm_dashboard now = \<lparr>di_fails_reports = (\<lambda>_. False), di_fails_active = (\<lambda>_. False),
     di_fails_history = (\<lambda>_. False), di_fails_preferences = (\<lambda>_. False), di_fails_seen = (\<lambda>_. False),
     di_fails_previous = (\<lambda>_ _. False), di_online_now = (\<lambda>_. now), di_fresh_now = (\<lambda>_. now)\<rparr>"

theorem dashboard_complete_witness:
  "\<exists>data. dashboard_page demo_server_lib (calm_dashboard 2000) None (demo_server (demo_preferences True) demo_firing) = Inr data \<and>
     dd_critical_count data = 1 \<and> dd_online_count data = int (length (filter vw_online (dd_reports data)))"
proof -
  let ?s = "demo_server (demo_preferences True) demo_firing"
  have "db_reports demo_firing = []"
    by (simp add: demo_firing_def apply_rule_def apply_rule_tx_def select_active_def demo_db_def
      insert_alert_def audited_def audit_rule_tx_def audit_tx_def amap_get_def demo_rule_def new_row_def Let_def)
  then have "\<exists>data. dashboard_page demo_server_lib (calm_dashboard 2000) None ?s = Inr data"
    by (simp add: dashboard_page_def dashboard_view_def calm_dashboard_def latest_reports_def latest_rows_def
        active_alerts_def alert_history_def query_alerts_def server_preferences_def notification_preferences_def
        agent_last_seen_def demo_server_def Let_def)
  then obtain data where data: "dashboard_page demo_server_lib (calm_dashboard 2000) None ?s = Inr data" by blast
  have "db_alerts (sv_db ?s) = [new_row (demo_rule True 0 0) 1000 1]" by (simp add: demo_server_def demo_firing_eval)
  then have "length (filter (\<lambda>r. ar_state r = Firing \<and> ar_severity r = Critical) (db_alerts (sv_db ?s))) = 1"
    by (simp add: new_row_def)
  then show ?thesis using dashboard_complete [OF data] data by auto
qed

end
