(* ===== verification/System.thy ===== *)
theory System
  imports Dashboard Agent
begin

text \<open>
  The whole server as a transition function: the requests of agents and browsers (\<open>Handler\<close> and
  \<open>requireAuth\<close> in \<open>internal/server/server.go\<close>), the notification loop, and the maintenance loop
  (\<open>runMaintenance\<close> in \<open>cmd/server/main.go\<close>).  A handler runs in one step, except that the notification
  loop lets other operations of the store come between its own (\<open>mail_io\<close>).  Requests the state does not depend
  on (\<open>/healthz\<close>, \<open>/readyz\<close>, static files) come with the routes, in \<open>Routing\<close>.
\<close>

subsection \<open>Events\<close>

text \<open>A handler behind \<open>requireAuth\<close>.\<close>

datatype protected_call =
    Logout
  | AcknowledgeAlert store_call
  | SaveNotifications store_call
  | TestNotification gotime gotime "string option"
  | HistoryData store_call
  | DashboardPage dashboard_io
  | EventStream

text \<open>A protected request reads the clock in \<open>requireAuth\<close> and again in its handler.\<close>

datatype server_event =
    IngestReport ingest_io request
  | LoginPage gotime request
  | LoginAttempt login_io request
  | ProtectedRequest gotime gotime request protected_call
  | NotifyLoop run_event
  | MaintenanceRun faults gotime

definition lib_env :: "server_lib \<Rightarrow> store_env" where
  "lib_env p = \<lparr>sv_encode = sl_encode p, sv_avg = sl_avg p, sv_hour_text = sl_hour_text p\<rparr>"

text \<open>\<open>dashboard\<close> looks the session up again, for its CSRF token; \<open>eventStream\<close> subscribes.\<close>

definition dashboard_handler :: "server_lib \<Rightarrow> gotime \<Rightarrow> dashboard_io \<Rightarrow> request \<Rightarrow> server \<Rightarrow> response \<times> server" where
  "dashboard_handler p now io r s =
     (let (session, ss) = get_session (session_mac p s) now (rq_cookie r) (sv_sessions s) in
      ((case dashboard_page p io session s of
          Inl message \<Rightarrow> http_error 500 message
        | Inr data \<Rightarrow> respond 200 (DashboardHtml (dd_csrf data))),
       s\<lparr>sv_sessions := ss\<rparr>))"

definition event_stream :: "server \<Rightarrow> response \<times> server" where
  "event_stream s = (respond 200 NoBody, s\<lparr>sv_events := snd (subscribe (sv_events s))\<rparr>)"

fun protected_do :: "server_lib \<Rightarrow> gotime \<Rightarrow> request \<Rightarrow> protected_call \<Rightarrow> server \<Rightarrow> response \<times> server" where
  "protected_do p now r Logout s = logout p now r s"
| "protected_do p now r (AcknowledgeAlert io) s = acknowledge_handler p now io r s"
| "protected_do p now r (SaveNotifications io) s = save_notifications p now io r s"
| "protected_do p now r (TestNotification limiter_now mail_now sent) s =
     test_notification p now limiter_now mail_now sent r s"
| "protected_do p now r (HistoryData io) s = (history_handler io r s, s)"
| "protected_do p now r (DashboardPage io) s = dashboard_handler p now io r s"
| "protected_do p now r EventStream s = event_stream s"

definition run_maintenance :: "server_lib \<Rightarrow> faults \<Rightarrow> gotime \<Rightarrow> server \<Rightarrow> server" where
  "run_maintenance p fails now s = s\<lparr>sv_db := snd (maintain fails (sl_avg p) (sl_hour_text p) now
     (sc_raw_retention (sv_cfg s)) (sc_aggregate_retention (sv_cfg s)) (sv_db s))\<rparr>"

fun server_do :: "server_lib \<Rightarrow> server_event \<Rightarrow> server \<Rightarrow> response option \<times> server" where
  "server_do p (IngestReport io r) s = map_prod Some id (ingest p io r s)"
| "server_do p (LoginPage now r) s = map_prod Some id (login_page p now r s)"
| "server_do p (LoginAttempt io r) s = map_prod Some id (login p io r s)"
| "server_do p (ProtectedRequest auth_now now r c) s =
     map_prod Some id (require_auth p auth_now r (protected_do p now r c) s)"
| "server_do p (NotifyLoop e) s = (None, run_event_do (lib_env p) p e s)"
| "server_do p (MaintenanceRun fails now) s = (None, run_maintenance p fails now s)"

definition server_run :: "server_lib \<Rightarrow> server_event list \<Rightarrow> server \<Rightarrow> server" where
  "server_run p es s = fold (\<lambda>e s. snd (server_do p e s)) es s"

lemma server_run_simps [simp]:
  "server_run p [] s = s" "server_run p (e # es) s = server_run p es (snd (server_do p e s))"
  "server_run p (es @ fs) s = server_run p fs (server_run p es s)"
  by (simp_all add: server_run_def)

subsection \<open>What an event can change\<close>

text \<open>Splitting a handler into its branches.\<close>

lemmas handler_defs = ingest_def login_page_def login_def require_auth_def csrf_form_def logout_def
  acknowledge_handler_def notification_form_def save_notifications_def test_notification_def
  dashboard_handler_def event_stream_def Let_def

lemma after_save_fields [simp]:
  "sv_cfg (after_save p io rep s) = sv_cfg s" "sv_sessions (after_save p io rep s) = sv_sessions s"
  "sv_outbox (after_save p io rep s) = sv_outbox s"
  by (simp_all add: after_save_def Let_def split: prod.splits)

lemma csrf_form_fields:
  assumes "csrf_form p now r s = (f, s1)"
  shows "s1 = s\<lparr>sv_sessions := snd (get_session (session_mac p s) now (rq_cookie r) (sv_sessions s))\<rparr>"
  using assms by (auto simp: csrf_form_def Let_def split: prod.splits option.splits if_splits)

lemma notification_form_fields:
  assumes "notification_form p now r s = (q, s1)"
  shows "s1 = s\<lparr>sv_sessions := snd (get_session (session_mac p s) now (rq_cookie r) (sv_sessions s))\<rparr>"
  using assms csrf_form_fields
  by (auto simp: notification_form_def Let_def split: prod.splits option.splits if_splits)

lemma ingest_cases:
  assumes "ingest p io r s = (resp, s')"
  obtains (refused) l where "s' = s\<lparr>sv_api_limiter := l\<rparr>" "rs_status resp \<in> {400, 401, 422, 429}"
    | (unsaved) l rep err where "s' = s\<lparr>sv_api_limiter := l\<rparr>" "rs_status resp = (if err = Replay then 409 else 500)"
        "decode_body p (rq_body r) = Some rep"
        "validate (gl_request_uri (sl_lib p)) rep (ii_received io) (sc_max_clock_skew (sv_cfg s)) (sc_max_report_age (sv_cfg s)) = None"
        "authorised p io r rep (sv_db s)"
        "save_report (ii_fails io) (sl_encode p) rep (ii_seen io) (ii_saved io) (sv_db s) = (Some err, sv_db s)"
    | (saved) l rep d where "s' = after_save p io rep (s\<lparr>sv_api_limiter := l, sv_db := d\<rparr>)" "rs_status resp = 202"
        "decode_body p (rq_body r) = Some rep"
        "validate (gl_request_uri (sl_lib p)) rep (ii_received io) (sc_max_clock_skew (sv_cfg s)) (sc_max_report_age (sv_cfg s)) = None"
        "authorised p io r rep (sv_db s)"
        "save_report (ii_fails io) (sl_encode p) rep (ii_seen io) (ii_saved io) (sv_db s) = (None, d)"
proof -
  obtain ok l where allow: "allow (ii_now io) (client_ip (sl_lib p) (sv_proxy s) r) (sv_api_limiter s) = (ok, l)"
    by (metis prod.collapse)
  let ?s1 = "s\<lparr>sv_api_limiter := l\<rparr>"
  show thesis
  proof (cases "ok")
    case False
    then show ?thesis using assms allow refused [of l] by (auto simp: ingest_def Let_def http_error_def respond_def)
  next
    case ok: True
    show ?thesis
    proof (cases "decode_body p (rq_body r)")
      case None
      then show ?thesis using assms allow ok refused [of l] by (auto simp: ingest_def Let_def http_error_def respond_def)
    next
      case (Some rep)
      let ?v = "validate (gl_request_uri (sl_lib p)) rep (ii_received io) (sc_max_clock_skew (sv_cfg s)) (sc_max_report_age (sv_cfg s))"
      show ?thesis
      proof (cases "?v = None \<and> authorised p io r rep (sv_db s)")
        case False
        then show ?thesis using assms allow ok Some refused [of l]
          by (auto simp: ingest_def Let_def http_error_def respond_def split: option.splits if_splits)
      next
        case True
        obtain err d where sr: "save_report (ii_fails io) (sl_encode p) rep (ii_seen io) (ii_saved io) (sv_db s) = (err, d)"
          by force
        show ?thesis
        proof (cases err)
          case None
          then show ?thesis using assms allow ok Some True sr saved [where l = l and rep = rep and d = d]
            by (auto simp: ingest_def Let_def respond_def)
        next
          case (Some e)
          have d: "d = sv_db s" using sr Some by (cases rule: save_report_cases) auto
          have "s\<lparr>sv_api_limiter := l, sv_db := sv_db s\<rparr> = ?s1" by simp
          then show ?thesis using assms allow ok \<open>decode_body p (rq_body r) = Some rep\<close> True sr Some d unsaved [where l = l and rep = rep and err = e]
            by (cases e) (auto simp: ingest_def Let_def http_error_def respond_def)
        qed
      qed
    qed
  qed
qed

text \<open>What every event but the notification loop's respects: the configuration stays, the database moves by
  operations other than deliveries, and only test mails are added to the outbox.\<close>

definition tests_only :: "mail list \<Rightarrow> bool" where
  "tests_only ms \<longleftrightarrow> (\<forall>m \<in> set ms. \<exists>t. ml_subject m = TestMail t)"

definition change_ok :: "server_lib \<Rightarrow> server \<Rightarrow> server \<Rightarrow> bool" where
  "change_ok p s s' \<longleftrightarrow> sv_cfg s' = sv_cfg s \<and> other_steps (lib_env p) (sv_db s) (sv_db s') \<and>
     (\<exists>ms. tests_only ms \<and> sv_outbox s' = sv_outbox s @ ms)"

lemma change_same [simp]:
  "sv_cfg s' = sv_cfg s \<Longrightarrow> sv_db s' = sv_db s \<Longrightarrow> sv_outbox s' = sv_outbox s \<Longrightarrow> change_ok p s s'"
  by (auto simp: change_ok_def tests_only_def)

lemma change_db:
  "other_steps (lib_env p) (sv_db s) d \<Longrightarrow> sv_cfg s' = sv_cfg s \<Longrightarrow> sv_db s' = d \<Longrightarrow> sv_outbox s' = sv_outbox s \<Longrightarrow>
    change_ok p s s'"
  by (auto simp: change_ok_def tests_only_def)

lemma store_calls_steps:
  "save_report fails (sl_encode p) rep seen received d = (err, d') \<Longrightarrow> other_steps (lib_env p) d d'"
  "acknowledge_alert fails n actor now clock d = (err, d') \<Longrightarrow> other_steps (lib_env p) d d'"
  "save_notification_preferences fails q d = (err, d') \<Longrightarrow> other_steps (lib_env p) d d'"
  "other_steps (lib_env p) d (snd (maintain fails (sl_avg p) (sl_hour_text p) now raw agg d))"
  using other_steps_do [of "SaveReport rep seen received" "lib_env p" d fails]
    other_steps_do [of "Acknowledge n actor now clock" "lib_env p" d fails]
    other_steps_do [of "SavePreferences q" "lib_env p" d fails]
    other_steps_do [of "Maintain now raw agg" "lib_env p" d fails]
  by (auto simp: others_op_def lib_env_def)

lemma ingest_change:
  assumes "ingest p io r s = (resp, s')"
  shows "change_ok p s s'"
  using assms
proof (cases rule: ingest_cases)
  case (saved l rep d)
  let ?s1 = "s\<lparr>sv_api_limiter := l, sv_db := d\<rparr>"
  have "other_steps (lib_env p) (sv_db ?s1) (sv_db (after_save p io rep ?s1))"
    using engine_steps(1) [of "lib_env p" d "sv_engine s" "ii_engine io" rep "ii_received io"]
      engine_steps(3) [of "lib_env p" d "sv_engine s" "ii_engine io" "rep_agent_id rep" "ii_received io"]
    by (auto simp: after_save_def Let_def split: prod.splits)
  then have "other_steps (lib_env p) (sv_db s) (sv_db (after_save p io rep ?s1))"
    using other_steps_trans [OF store_calls_steps(1) [OF saved(6)]] by simp
  then show ?thesis unfolding saved(1) by (rule change_db) simp_all
qed simp_all

lemma acknowledge_change:
  assumes "acknowledge_handler p now io r s = (resp, s')"
  shows "change_ok p s s'"
proof -
  obtain f s1 where f: "csrf_form p now r s = (f, s1)" by force
  have s1: "sv_cfg s1 = sv_cfg s" "sv_db s1 = sv_db s" "sv_outbox s1 = sv_outbox s" by (simp_all add: csrf_form_fields [OF f])
  have "s' = s1 \<or> (\<exists>n err d. acknowledge_alert (st_fails io) n ''admin'' (st_now io) (st_clock io) (sv_db s1) = (err, d) \<and>
      s' = s1\<lparr>sv_db := d\<rparr>)"
  proof (cases "f = None \<or> atoi (rq_path_id r) = None \<or> the (atoi (rq_path_id r)) < 1")
    case True
    then show ?thesis using assms f by (cases f) (auto simp: acknowledge_handler_def split: option.splits)
  next
    case False
    then obtain x n where x: "f = Some x" "atoi (rq_path_id r) = Some n" "\<not> n < 1" by auto
    obtain err d where a: "acknowledge_alert (st_fails io) (nat n) ''admin'' (st_now io) (st_clock io) (sv_db s1) = (err, d)"
      by force
    have "s' = s1\<lparr>sv_db := d\<rparr>"
    proof (cases err)
      case (Some e)
      then show ?thesis using assms f x a by (cases e) (simp_all add: acknowledge_handler_def)
    qed (use assms f x a in \<open>simp add: acknowledge_handler_def\<close>)
    then show ?thesis using a by blast
  qed
  then show ?thesis by (auto simp: s1 intro: change_db store_calls_steps)
qed

lemma save_notifications_change:
  assumes "save_notifications p now io r s = (resp, s')"
  shows "change_ok p s s'"
proof -
  obtain q s1 where q: "notification_form p now r s = (q, s1)" by force
  have s1: "sv_cfg s1 = sv_cfg s" "sv_db s1 = sv_db s" "sv_outbox s1 = sv_outbox s"
    by (simp_all add: notification_form_fields [OF q])
  have "s' = s1 \<or> (\<exists>x err d. save_notification_preferences (st_fails io) x (sv_db s1) = (err, d) \<and> s' = s1\<lparr>sv_db := d\<rparr>)"
  proof (cases "\<exists>x. q = Inr x \<and> \<not> (pr_enabled x \<and> \<not> sm_enabled (sc_smtp (sv_cfg s1)))")
    case False
    then show ?thesis using assms q by (cases q) (simp_all add: save_notifications_def)
  next
    case True
    then obtain x where x: "q = Inr x" "\<not> (pr_enabled x \<and> \<not> sm_enabled (sc_smtp (sv_cfg s1)))" by blast
    obtain err d where a: "save_notification_preferences (st_fails io) x (sv_db s1) = (err, d)" by force
    have "s' = s1\<lparr>sv_db := d\<rparr>" using assms q x a by (cases err) (simp_all add: save_notifications_def)
    then show ?thesis using a by blast
  qed
  then show ?thesis by (auto simp: s1 intro: change_db store_calls_steps)
qed

lemma test_notification_change:
  assumes "test_notification p now limiter_now mail_now sent r s = (resp, s')"
  shows "change_ok p s s'"
proof -
  obtain q s1 where q: "notification_form p now r s = (q, s1)" by force
  have s1: "sv_cfg s1 = sv_cfg s" "sv_db s1 = sv_db s" "sv_outbox s1 = sv_outbox s"
    by (simp_all add: notification_form_fields [OF q])
  have "s' = s1 \<or> (\<exists>l ms. s' = s1\<lparr>sv_email_limiter := l, sv_outbox := sv_outbox s1 @ ms\<rparr> \<and> tests_only ms)"
  proof (cases "\<exists>x. q = Inr x \<and> sm_enabled (sc_smtp (sv_cfg s1))")
    case False
    then show ?thesis using assms q by (cases q) (simp_all add: test_notification_def)
  next
    case True
    then obtain x where x: "q = Inr x" "sm_enabled (sc_smtp (sv_cfg s1))" by blast
    obtain ok l where a: "allow limiter_now ''test-email'' (sv_email_limiter s1) = (ok, l)" by force
    let ?m = "\<lparr>ml_subject = TestMail mail_now, ml_url = sc_public_url (sv_cfg s1), ml_recipient = pr_recipient x,
       ml_accepted = (sent = None)\<rparr>"
    have "s' = s1\<lparr>sv_email_limiter := l, sv_outbox := sv_outbox s1 @ (if ok then [?m] else [])\<rparr>"
      using assms q x a by (cases sent) (simp_all add: test_notification_def Let_def split: if_splits)
    then show ?thesis
      by (intro disjI2 exI [of _ l] exI [of _ "if ok then [?m] else []"]) (simp add: tests_only_def)
  qed
  then show ?thesis by (auto simp: s1 change_ok_def) (auto simp: tests_only_def)
qed

lemma protected_change:
  assumes "protected_do p now r c s = (resp, s')"
  shows "change_ok p s s'"
proof (cases c)
  case Logout
  then show ?thesis using assms csrf_form_fields by (fastforce simp: logout_def delete_session_def split: prod.splits option.splits)
next
  case (AcknowledgeAlert io)
  then show ?thesis using assms acknowledge_change by simp
next
  case (SaveNotifications io)
  then show ?thesis using assms save_notifications_change by simp
next
  case (TestNotification limiter_now mail_now sent)
  then show ?thesis using assms test_notification_change by simp
next
  case (DashboardPage io)
  then show ?thesis using assms by (auto simp: dashboard_handler_def split: prod.splits)
qed (use assms in \<open>auto simp: event_stream_def\<close>)

lemma server_do_change:
  assumes "\<And>e'. e \<noteq> NotifyLoop e'"
  shows "change_ok p s (snd (server_do p e s))"
proof (cases e)
  case (IngestReport io r)
  obtain resp s' where i: "ingest p io r s = (resp, s')" by force
  show ?thesis using ingest_change [OF i] IngestReport i by simp
next
  case (LoginPage now r)
  then show ?thesis by (auto simp: login_page_def split: prod.splits option.splits)
next
  case (LoginAttempt io r)
  then show ?thesis by (auto simp: login_def Let_def split: prod.splits option.splits sum.splits)
next
  case (ProtectedRequest auth_now now r c)
  let ?s1 = "\<lambda>ss. s\<lparr>sv_sessions := ss\<rparr>"
  have "change_ok p s (snd (protected_do p now r c (?s1 ss)))" for ss
    using protected_change [of p now r c "?s1 ss"] by (cases "protected_do p now r c (?s1 ss)") (simp add: change_ok_def)
  then show ?thesis using ProtectedRequest by (auto simp: require_auth_def split: prod.splits option.splits)
next
  case (NotifyLoop e')
  then show ?thesis using assms by blast
next
  case (MaintenanceRun fails now)
  then show ?thesis by (auto simp: run_maintenance_def intro: change_db store_calls_steps)
qed

lemma process_notifications_cfg [simp]: "sv_cfg (process_notifications env p io s) = sv_cfg s"
  "sv_sessions (process_notifications env p io s) = sv_sessions s"
  by (auto simp: process_notifications_def split: sum.splits prod.splits)

lemma run_event_cfg [simp]: "sv_cfg (run_event_do env p e s) = sv_cfg s"
  "sv_sessions (run_event_do env p e s) = sv_sessions s"
  by (cases e; simp)+

lemma server_do_cfg [simp]: "sv_cfg (snd (server_do p e s)) = sv_cfg s"
proof (cases "\<exists>e'. e = NotifyLoop e'")
  case False
  then show ?thesis using server_do_change [of e p s] by (auto simp: change_ok_def)
qed auto

lemma server_run_cfg [simp]: "sv_cfg (server_run p es s) = sv_cfg s"
  by (induction es arbitrary: s) simp_all

subsection \<open>Deliveries\<close>

fun event_deliveries_ok :: "server_event \<Rightarrow> bool" where
  "event_deliveries_ok (NotifyLoop e) = event_others e"
| "event_deliveries_ok _ = True"

lemma server_do_delivery [inv_intros]:
  assumes "delivery_ok s" and "event_deliveries_ok e"
  shows "delivery_ok (snd (server_do p e s))"
proof (cases "\<exists>e'. e = NotifyLoop e'")
  case True
  then show ?thesis using assms run_event_ok by auto
next
  case False
  then obtain ms where c: "other_steps (lib_env p) (sv_db s) (sv_db (snd (server_do p e s)))"
      "sv_outbox (snd (server_do p e s)) = sv_outbox s @ ms"
    using server_do_change [of e p s] unfolding change_ok_def by blast
  then show ?thesis using assms(1) other_steps_backed [OF c(1)] mail_backed_more
    by (auto simp: delivery_ok_def)
qed

lemma server_run_delivery: "delivery_ok s \<Longrightarrow> \<forall>e \<in> set es. event_deliveries_ok e \<Longrightarrow> delivery_ok (server_run p es s)"
proof (induction es arbitrary: s)
  case (Cons e es)
  then show ?case using server_do_delivery [of s e p] by simp
qed simp

end
