(* ===== verification/System_Safety.thy ===== *)
theory System_Safety
  imports System
begin

text \<open>
  Safety of the whole server: who may change what, what becomes of a report, and how the server's answers
  and the agent's reactions fit together.
\<close>

subsection \<open>The sessions as a history of calls\<close>

definition login_accepted :: "server_lib \<Rightarrow> login_io \<Rightarrow> request \<Rightarrow> server \<Rightarrow> bool" where
  "login_accepted p io r s \<longleftrightarrow>
     fst (allow (li_now io) (client_ip (sl_lib p) (sv_proxy s) r) (sv_login_limiter s)) \<and>
     valid_origin (sl_lib p) (sc_public_url (sv_cfg s)) r \<and>
     (\<exists>form. rq_form r = Some form \<and> gl_bcrypt_match (sl_lib p) (sc_admin_password_hash (sv_cfg s)) (form ''password''))"

definition session_found :: "server_lib \<Rightarrow> gotime \<Rightarrow> request \<Rightarrow> server \<Rightarrow> bool" where
  "session_found p now r s \<longleftrightarrow> fst (get_session (session_mac p s) now (rq_cookie r) (sv_sessions s)) \<noteq> None"

text \<open>The state a protected handler starts from.\<close>

definition entered :: "server_lib \<Rightarrow> gotime \<Rightarrow> request \<Rightarrow> server \<Rightarrow> server" where
  "entered p now r s = s\<lparr>sv_sessions := snd (get_session (session_mac p s) now (rq_cookie r) (sv_sessions s))\<rparr>"

fun handler_calls :: "server_lib \<Rightarrow> gotime \<Rightarrow> request \<Rightarrow> protected_call \<Rightarrow> server \<Rightarrow> session_call list" where
  "handler_calls p now r Logout s = GetCall now (rq_cookie r) #
     (if fst (csrf_form p now r s) \<noteq> None then [DeleteCall now (rq_cookie r)] else [])"
| "handler_calls p now r (HistoryData io) s = []"
| "handler_calls p now r EventStream s = []"
| "handler_calls p now r c s = [GetCall now (rq_cookie r)]"

fun session_calls :: "server_lib \<Rightarrow> server_event \<Rightarrow> server \<Rightarrow> session_call list" where
  "session_calls p (LoginPage now r) s = [GetCall now (rq_cookie r)]"
| "session_calls p (LoginAttempt io r) s =
     (if login_accepted p io r s then [CreateCall (li_session_now io) (li_token io) (li_csrf io)] else [])"
| "session_calls p (ProtectedRequest auth_now now r c) s = GetCall auth_now (rq_cookie r) #
     (if session_found p auth_now r s then handler_calls p now r c (entered p auth_now r s) else [])"
| "session_calls p _ s = []"

fun run_calls :: "server_lib \<Rightarrow> server_event list \<Rightarrow> server \<Rightarrow> session_call list" where
  "run_calls p [] s = []"
| "run_calls p (e # es) s = session_calls p e s @ run_calls p es (snd (server_do p e s))"

lemma session_history_simps [simp]:
  "session_history mac [] s = s" "session_history mac (c # cs) s = session_history mac cs (session_do mac c s)"
  "session_history mac (cs @ ds) s = session_history mac ds (session_history mac cs s)"
  by (simp_all add: session_history_def)

lemma session_mac_cfg: "sv_cfg s' = sv_cfg s \<Longrightarrow> session_mac p s' = session_mac p s"
  by (simp add: session_mac_def)

lemma entered_fields [simp]:
  "sv_cfg (entered p now r s) = sv_cfg s" "sv_db (entered p now r s) = sv_db s"
  "sv_outbox (entered p now r s) = sv_outbox s" "session_mac p (entered p now r s) = session_mac p s"
  "sv_sessions (entered p now r s) = snd (get_session (session_mac p s) now (rq_cookie r) (sv_sessions s))"
  by (simp_all add: entered_def session_mac_def)

lemma csrf_form_state: "snd (csrf_form p now r s) = entered p now r s"
  using csrf_form_fields [of p now r s] by (cases "csrf_form p now r s") (simp add: entered_def)

lemma notification_form_state: "snd (notification_form p now r s) = entered p now r s"
  using notification_form_fields [of p now r s] by (cases "notification_form p now r s") (simp add: entered_def)

lemma require_auth_cases:
  "require_auth p now r handler s =
    (if session_found p now r s then handler (entered p now r s) else (see_other ''/login'', entered p now r s))"
  by (cases "get_session (session_mac p s) now (rq_cookie r) (sv_sessions s)")
    (auto simp: require_auth_def session_found_def entered_def split: option.splits)

text \<open>The handlers that change nothing but what they get from the session's lookup and the rest of the state.\<close>

lemma protected_sessions:
  "sv_sessions (snd (protected_do p now r c s)) = session_history (session_mac p s) (handler_calls p now r c s) (sv_sessions s)"
proof (cases c)
  case Logout
  obtain f s1 where f: "csrf_form p now r s = (f, s1)" by force
  then have s1: "s1 = entered p now r s" using csrf_form_state [of p now r s] by simp
  show ?thesis
  proof (cases f)
    case None
    then show ?thesis using Logout f s1 by (simp add: logout_def)
  next
    case (Some form)
    then show ?thesis using Logout f s1 by (simp add: logout_def split: prod.splits)
  qed
next
  case (AcknowledgeAlert io)
  have "sv_sessions (snd (acknowledge_handler p now io r s)) = sv_sessions (snd (csrf_form p now r s))"
    by (simp add: acknowledge_handler_def split: prod.splits option.splits db_error.splits)
  then show ?thesis using AcknowledgeAlert by (simp add: csrf_form_state)
next
  case (SaveNotifications io)
  have "sv_sessions (snd (save_notifications p now io r s)) = sv_sessions (snd (notification_form p now r s))"
    by (simp add: save_notifications_def split: prod.splits option.splits sum.splits)
  then show ?thesis using SaveNotifications by (simp add: notification_form_state)
next
  case (TestNotification limiter_now mail_now sent)
  have "sv_sessions (snd (test_notification p now limiter_now mail_now sent r s)) = sv_sessions (snd (notification_form p now r s))"
    by (simp add: test_notification_def Let_def split: prod.splits option.splits sum.splits)
  then show ?thesis using TestNotification by (simp add: notification_form_state)
next
  case (DashboardPage io)
  then show ?thesis by (simp add: dashboard_handler_def split: prod.splits)
qed (simp_all add: event_stream_def)

lemma server_do_sessions:
  "sv_sessions (snd (server_do p e s)) = session_history (session_mac p s) (session_calls p e s) (sv_sessions s)"
proof (cases e)
  case (IngestReport io r)
  obtain resp s' where i: "ingest p io r s = (resp, s')" by force
  then have "sv_sessions s' = sv_sessions s" by (cases rule: ingest_cases) simp_all
  then show ?thesis using IngestReport i by simp
next
  case (LoginPage now r)
  then show ?thesis by (simp add: login_page_def split: prod.splits option.splits)
next
  case (LoginAttempt io r)
  then show ?thesis
    by (simp add: login_def login_accepted_def Let_def split: prod.splits option.splits sum.splits)
next
  case (ProtectedRequest auth_now now r c)
  then show ?thesis using protected_sessions [of p now r c "entered p auth_now r s"]
    by (simp add: require_auth_cases)
qed (simp_all add: run_maintenance_def)

lemma server_run_sessions:
  "sv_sessions (server_run p es s) = session_history (session_mac p s) (run_calls p es s) (sv_sessions s)"
proof (induction es arbitrary: s)
  case (Cons e es)
  have "session_mac p (snd (server_do p e s)) = session_mac p s" by (rule session_mac_cfg) simp
  then show ?case using Cons server_do_sessions [of p e s] by simp
qed simp

lemma run_calls_append: "run_calls p (es @ fs) s = run_calls p es s @ run_calls p fs (server_run p es s)"
  by (induction es arbitrary: s) simp_all

text \<open>A call of a run belongs to one of its events.\<close>

lemma run_calls_split:
  "run_calls p es s = xs @ c # ys \<Longrightarrow> \<exists>pre e post u v. es = pre @ e # post \<and>
    session_calls p e (server_run p pre s) = u @ c # v \<and>
    ys = v @ run_calls p post (server_run p (pre @ [e]) s)"
proof (induction es arbitrary: s xs)
  case (Cons e es)
  let ?A = "session_calls p e s" and ?B = "run_calls p es (snd (server_do p e s))"
  consider (here) v where "?A = xs @ c # v" "ys = v @ ?B" | (later) u where "xs = ?A @ u" "?B = u @ c # ys"
    using Cons.prems by (auto simp: append_eq_append_conv2 append_eq_Cons_conv Cons_eq_append_conv)
  then show ?case
  proof cases
    case here
    then show ?thesis by (intro exI [of _ "[]"] exI [of _ e] exI [of _ es] exI [of _ xs] exI [of _ v]) simp
  next
    case later
    obtain pre e' post u' v where ih: "es = pre @ e' # post"
        "session_calls p e' (server_run p pre (snd (server_do p e s))) = u' @ c # v"
        "ys = v @ run_calls p post (server_run p (pre @ [e']) (snd (server_do p e s)))"
      using Cons.IH [OF later(2)] by blast
    then show ?thesis
      by (intro exI [of _ "e # pre"] exI [of _ e'] exI [of _ post] exI [of _ u'] exI [of _ v]) simp
  qed
qed simp

text \<open>Only an accepted login creates a session.\<close>

lemma create_call_origin:
  assumes "CreateCall t token csrf \<in> set (session_calls p e s)"
  shows "\<exists>io r. e = LoginAttempt io r \<and> login_accepted p io r s \<and> t = li_session_now io \<and> token = li_token io \<and>
    csrf = li_csrf io"
proof -
  have "CreateCall t token csrf \<notin> set (handler_calls p now r c s')" for now r c s' by (cases c) simp_all
  then show ?thesis using assms by (cases e) (auto split: if_splits)
qed

lemma logout_deletes:
  assumes "fst (server_do p (ProtectedRequest auth_now now r Logout) s) = Some resp" and "rs_cookie resp \<noteq> None"
  shows "DeleteCall now (rq_cookie r) \<in> set (session_calls p (ProtectedRequest auth_now now r Logout) s)"
proof -
  have found: "session_found p auth_now r s"
    using assms by (auto simp: require_auth_cases see_other_def respond_def split: if_splits)
  then have "fst (logout p now r (entered p auth_now r s)) = resp" using assms(1) by (simp add: require_auth_cases)
  then have "fst (csrf_form p now r (entered p auth_now r s)) \<noteq> None"
    using assms(2) by (auto simp: logout_def http_error_def respond_def split: prod.splits option.splits)
  then show ?thesis using found by simp
qed

subsection \<open>Access\<close>

text \<open>Where a recognised session comes from: an accepted login among the earlier events, with no deletion of
  the session's key since.\<close>

lemma session_origin:
  assumes "new_server (sl_lib p) c d t0 = Some s0" and "session_found p now r (server_run p es s0)"
  obtains given pre io lr post token where "rq_cookie r = Some given" "es = pre @ LoginAttempt io lr # post"
    "login_accepted p io lr (server_run p pre s0)" "li_token io = Some token"
    "sl_mac p (sc_session_secret c) token = sl_mac p (sc_session_secret c) given"
    "time_sub now (li_session_now io) \<le> sc_session_max_lifetime c"
    "never_deleted (sl_mac p (sc_session_secret c)) (sl_mac p (sc_session_secret c) given)
       (run_calls p post (server_run p (pre @ [LoginAttempt io lr]) s0))"
proof -
  let ?s = "server_run p es s0" and ?mac = "sl_mac p (sc_session_secret c)"
  have s0: "sv_cfg s0 = c" "sv_sessions s0 = new_sessions (sc_session_idle_timeout c) (sc_session_max_lifetime c) (sc_secure_cookies c)"
    using assms(1) by (auto simp: new_server_def Let_def split: if_splits option.splits)
  have mac: "session_mac p s0 = ?mac" "session_mac p ?s = ?mac"
    by (simp_all add: session_mac_def s0(1))
  obtain given where ck: "rq_cookie r = Some given"
    using assms(2) by (auto simp: session_found_def get_session_def split: option.splits)
  let ?calls = "run_calls p es s0"
  have ss: "sv_sessions ?s = session_history ?mac ?calls (sv_sessions s0)" using server_run_sessions [of p es s0] by (simp add: mac)
  obtain x where x: "amap_get (ss_items (sv_sessions ?s)) (?mac given) = Some x" "\<not> session_expired now (sv_sessions ?s) x"
    using assms(2) ck by (auto simp: session_found_def mac get_session_def Let_def split: option.splits if_splits)
  obtain cpre token cpost where o: "?calls = cpre @ CreateCall (se_created_at x) (Some token) (Some (se_csrf x)) # cpost"
      "?mac token = ?mac given" "never_deleted ?mac (?mac given) cpost"
    using history_origin [of "sv_sessions s0" ?mac ?calls "?mac given" x] x(1) new_sessions_wf
    unfolding ss s0(2) by (auto simp: new_sessions_def)
  obtain pre e post u v where sp: "es = pre @ e # post"
      "session_calls p e (server_run p pre s0) = u @ CreateCall (se_created_at x) (Some token) (Some (se_csrf x)) # v"
      "cpost = v @ run_calls p post (server_run p (pre @ [e]) s0)"
    using run_calls_split [OF o(1)] by blast
  obtain io lr where e: "e = LoginAttempt io lr" "login_accepted p io lr (server_run p pre s0)"
      "se_created_at x = li_session_now io" "Some token = li_token io"
    using create_call_origin [of "se_created_at x" "Some token" "Some (se_csrf x)" p e "server_run p pre s0"] sp(2) by auto
  have "ss_lifetime (sv_sessions ?s) = sc_session_max_lifetime c" unfolding ss by (simp add: s0(2) new_sessions_def)
  then have "time_sub now (li_session_now io) \<le> sc_session_max_lifetime c" using x(2) e(3) by (simp add: session_expired_def)
  moreover have "never_deleted ?mac (?mac given) (run_calls p post (server_run p (pre @ [LoginAttempt io lr]) s0))"
    using o(3) sp(3) e(1) by (simp add: never_deleted_def list_all_iff)
  ultimately show thesis using that [OF ck sp(1) [unfolded e(1)] e(2) e(4) [symmetric] o(2)] by blast
qed


subsection \<open>Forged requests\<close>

definition genuine :: "server_lib \<Rightarrow> gotime \<Rightarrow> request \<Rightarrow> server \<Rightarrow> bool" where
  "genuine p now r s \<longleftrightarrow> (\<exists>given x form. rq_cookie r = Some given \<and>
     amap_get (ss_items (sv_sessions s)) (session_mac p s given) = Some x \<and> \<not> session_expired now (sv_sessions s) x \<and>
     valid_origin (sl_lib p) (sc_public_url (sv_cfg s)) r \<and> rq_form r = Some form \<and> form ''csrf_token'' = se_csrf x)"

lemma csrf_form_genuine:
  assumes "session_found p auth_now r s" and "fst (csrf_form p now r (entered p auth_now r s)) = Some form"
  shows "genuine p auth_now r s"
proof -
  obtain given x where x: "rq_cookie r = Some given"
      "amap_get (ss_items (sv_sessions s)) (session_mac p s given) = Some x" "\<not> session_expired auth_now (sv_sessions s) x"
    using assms(1) by (auto simp: session_found_def get_session_def Let_def split: option.splits if_splits)
  have "amap_get (ss_items (sv_sessions (entered p auth_now r s))) (session_mac p s given) = Some (x\<lparr>se_last_active := auth_now\<rparr>)"
    using x by (simp add: get_session_def amap.get_put Let_def)
  then have "fst (get_session (session_mac p s) now (rq_cookie r) (sv_sessions (entered p auth_now r s))) \<in>
      {None, Some (x\<lparr>se_last_active := now\<rparr>)}"
    using x(1) by (simp add: get_session_def Let_def)
  then have "rq_form r = Some form \<and> valid_origin (sl_lib p) (sc_public_url (sv_cfg s)) r \<and> form ''csrf_token'' = se_csrf x"
    using assms(2) by (auto simp: csrf_form_def Let_def split: prod.splits option.splits if_splits)
  then show ?thesis using x unfolding genuine_def by blast
qed

lemma refused_form:
  assumes "fst (csrf_form p now r s) = None" and "protected_do p now r c s = (resp, s')"
  shows "sv_db s' = sv_db s \<and> sv_outbox s' = sv_outbox s \<and> rs_cookie resp = None"
proof -
  have f: "csrf_form p now r s = (None, entered p now r s)" using assms(1) csrf_form_state by (metis prod.collapse)
  then have q: "\<exists>e. notification_form p now r s = (Inl (http_error 403 e), entered p now r s)"
    unfolding notification_form_def by simp blast
  show ?thesis
  proof (cases c)
    case Logout
    then show ?thesis using assms(2) f by (auto simp: logout_def http_error_def respond_def)
  next
    case (AcknowledgeAlert io)
    then show ?thesis using assms(2) f by (auto simp: acknowledge_handler_def http_error_def respond_def)
  next
    case (SaveNotifications io)
    then show ?thesis using assms(2) q by (auto simp: save_notifications_def http_error_def respond_def)
  next
    case (TestNotification limiter_now mail_now sent)
    then show ?thesis using assms(2) q by (auto simp: test_notification_def http_error_def respond_def)
  next
    case (HistoryData io)
    then show ?thesis using assms(2)
      by (auto simp: history_handler_def http_error_def respond_def Let_def split: option.splits sum.splits if_splits)
  next
    case (DashboardPage io)
    then show ?thesis using assms(2)
      by (auto simp: dashboard_handler_def http_error_def respond_def split: prod.splits sum.splits)
  next
    case EventStream
    then show ?thesis using assms(2) by (auto simp: event_stream_def respond_def)
  qed
qed

text \<open>C8. A forged request changes nothing: a protected request that changes the database, sends a mail, or
  logs a session out carries the cookie of a live session, the CSRF token of that very session, and no
  origin other than the server's own; every other protected request leaves the database and the outbox
  as they are and sets no cookie.\<close>

theorem forged_requests_change_nothing:
  assumes "server_do p (ProtectedRequest auth_now now r c) s = (Some resp, s')" and "\<not> genuine p auth_now r s"
  shows "sv_db s' = sv_db s \<and> sv_outbox s' = sv_outbox s \<and> rs_cookie resp = None"
proof (cases "session_found p auth_now r s")
  case False
  then show ?thesis using assms(1) by (auto simp: require_auth_cases see_other_def respond_def)
next
  case True
  obtain resp2 s2 where h: "protected_do p now r c (entered p auth_now r s) = (resp2, s2)" by force
  then have "resp2 = resp" "s2 = s'" using assms(1) True by (simp_all add: require_auth_cases)
  moreover have "fst (csrf_form p now r (entered p auth_now r s)) = None"
    using csrf_form_genuine [OF True, of now] assms(2) by (cases "fst (csrf_form p now r (entered p auth_now r s))") auto
  ultimately show ?thesis using refused_form [OF _ h] by simp
qed

subsection \<open>Reports\<close>

lemma apply_each_reports:
  "db_reports (snd (apply_each apply_rule io n es now d)) = db_reports d \<and>
   db_agents (snd (apply_each apply_rule io n es now d)) = db_agents d"
proof (induction es arbitrary: n d)
  case (Cons e es)
  obtain x d' where a: "apply_rule (fst (io n)) e now (snd (io n)) d = (x, d')" by force
  have "db_agents d' = db_agents d" using apply_rule_agents [of "fst (io n)" e now "snd (io n)" d] a by simp
  moreover have "db_reports d' = db_reports d"
    using a apply_rule_tx_reports [of "fst (io n)" e now "snd (io n)" d]
    by (auto simp: apply_rule_def split: if_splits sum.splits prod.splits)
  ultimately show ?case using Cons a by (auto split: sum.splits)
qed simp

lemma engine_reports:
  "db_reports (snd (evaluate_report c io r now d)) = db_reports d \<and> db_agents (snd (evaluate_report c io r now d)) = db_agents d"
  "db_reports (snd (resolve_online c io agent now d)) = db_reports d \<and> db_agents (snd (resolve_online c io agent now d)) = db_agents d"
proof -
  obtain err d1 where a: "apply_each apply_rule io 0 (report_rules c r) now d = (err, d1)" by force
  have "db_reports d1 = db_reports d \<and> db_agents d1 = db_agents d"
    using apply_each_reports [of io 0 "report_rules c r" now d] a by simp
  moreover have "db_reports (snd (resolve_missing io n r seen now d1)) = db_reports d1 \<and>
      db_agents (snd (resolve_missing io n r seen now d1)) = db_agents d1" for n seen
    by (simp add: resolve_missing_def apply_each_reports split: sum.splits)
  ultimately show "db_reports (snd (evaluate_report c io r now d)) = db_reports d \<and>
      db_agents (snd (evaluate_report c io r now d)) = db_agents d"
    using a by (simp add: evaluate_report_def Let_def split: option.splits)
  show "db_reports (snd (resolve_online c io agent now d)) = db_reports d \<and> db_agents (snd (resolve_online c io agent now d)) = db_agents d"
    unfolding resolve_online_def by (rule apply_each_reports)
qed

lemma after_save_db:
  "db_reports (sv_db (after_save p io rep s)) = db_reports (sv_db s) \<and>
   db_agents (sv_db (after_save p io rep s)) = db_agents (sv_db s)"
  using engine_reports(1) [of "sv_engine s" "ii_engine io" rep "ii_received io" "sv_db s"]
    engine_reports(2) [of "sv_engine s" "ii_engine io" "rep_agent_id rep" "ii_received io" "sv_db s"]
  by (auto simp: after_save_def Let_def split: prod.splits)

lemma save_report_replay:
  assumes "save_report fails encode r seen received d = (Some Replay, d')" "amap_get (db_agents d) (rep_agent_id r) = Some g"
  shows "uint (rep_sequence r) \<le> gr_last_sequence g"
  using assms by (auto simp: save_report_def Let_def split: option.splits if_splits)

lemma authorised_iff:
  "authorised p io r rep d \<longleftrightarrow> (\<exists>hashes h. token_hashes (ii_fails io) (rep_agent_id rep) d = Inr hashes \<and> h \<in> set hashes \<and>
     verify_token (sl_idkey p) (bearer_token (rq_authorization r)) h) \<and> bearer_token (rq_authorization r) \<noteq> []"
  by (auto simp: authorised_def Let_def verify_any_token_def verify_any_iff split: sum.splits)

lemma authorised_known:
  assumes "db_ok d" "authorised p io r rep d"
  shows "\<exists>g. amap_get (db_agents d) (rep_agent_id rep) = Some g"
proof -
  obtain h where "(rep_agent_id rep, h) \<in> set (db_tokens d)"
    using assms(2) by (auto simp: authorised_iff token_hashes_def Let_def split: if_splits)
  then show ?thesis using assms(1) by (fastforce simp: db_ok_def reports_ok_def)
qed


subsection \<open>Once and for all\<close>

lemma mark_grow: "agents_grow d (snd (mark_alert_delivery fails a v now d))"
  using store_do_grow [of d _ fails "MarkDelivery a v now"] by simp

lemma notify_one_grow: "agents_grow (fst st) (fst (notify_one env c q reports io a st))"
proof -
  obtain d out where st: "st = (d, out)" by force
  let ?d = "store_run env (mi_before io) d" and ?d1 = "store_run env (mi_during io) (store_run env (mi_before io) d)"
  have g: "agents_grow d ?d" "agents_grow d ?d1"
    using store_run_grow agents_grow_trans by blast+
  have m: "agents_grow d (snd (mark_alert_delivery f b v t ?d))" "agents_grow d (snd (mark_alert_delivery f b v t ?d1))" for f b v t
    using agents_grow_trans [OF g(1) mark_grow] agents_grow_trans [OF g(2) mark_grow] by blast+
  show ?thesis using g m by (auto simp: notify_one_def st Let_def split: sum.splits)
qed

lemma notify_alerts_grow: "agents_grow (fst st) (fst (notify_alerts env c q reports io as st))"
proof (induction as arbitrary: st)
  case (Cons a as)
  show ?case using agents_grow_trans [OF notify_one_grow Cons.IH] by simp
qed simp

lemma process_notifications_grow: "agents_grow (sv_db s) (sv_db (process_notifications env p io s))"
proof -
  have "agents_grow (sv_db s) d" if "notify_alerts env c q reports f as (sv_db s, out) = (d, out')" for c q reports f as out d out'
    using notify_alerts_grow [of "(sv_db s, out)" env c q reports f as] that by simp
  then show ?thesis by (auto simp: process_notifications_def split: sum.splits prod.splits)
qed

lemma other_steps_grow: "other_steps env d d' \<Longrightarrow> agents_grow d d'"
  using store_run_grow by (auto simp: other_steps_def)

lemma server_do_grow: "agents_grow (sv_db s) (sv_db (snd (server_do p e s)))"
proof (cases "\<exists>e'. e = NotifyLoop e'")
  case False
  then show ?thesis using server_do_change [of e p s] other_steps_grow by (auto simp: change_ok_def)
next
  case True
  then obtain e' where e: "e = NotifyLoop e'" by blast
  have off: "agents_grow (sv_db s) (snd (evaluate_offline c io now (sv_db s)))" for c io now
    by (rule other_steps_grow [OF engine_steps(2)])
  show ?thesis
  proof (cases e')
    case (Woken io)
    then show ?thesis using e process_notifications_grow [of "s\<lparr>sv_notify_wake := False\<rparr>"] by simp
  next
    case (OfflineTick now sio io)
    then show ?thesis
      using e agents_grow_trans [OF off [of "sv_engine s" sio now]]
        process_notifications_grow [of "s\<lparr>sv_db := snd (evaluate_offline (sv_engine s) sio now (sv_db s))\<rparr>"] by simp
  qed (use e process_notifications_grow in simp_all)
qed

lemma server_run_grow: "agents_grow (sv_db s) (sv_db (server_run p es s))"
proof (induction es arbitrary: s)
  case (Cons e es)
  show ?case using agents_grow_trans [OF server_do_grow Cons.IH] by simp
qed simp

lemma ingest_accepted:
  assumes "ingest p io r s = (resp, s')" "rs_status resp = 202" "decode_body p (rq_body r) = Some rep"
  shows "\<exists>g g'. amap_get (db_agents (sv_db s)) (rep_agent_id rep) = Some g \<and> gr_last_sequence g < uint (rep_sequence rep) \<and>
    amap_get (db_agents (sv_db s')) (rep_agent_id rep) = Some g' \<and> gr_last_sequence g' = uint (rep_sequence rep)"
  using assms(1)
proof (cases rule: ingest_cases)
  case (saved l rep' d)
  have rep: "rep' = rep" using saved(3) assms(3) by simp
  have db: "db_agents (sv_db s') = db_agents d" unfolding saved(1) by (simp add: after_save_db)
  from saved(6) show ?thesis
    by (cases rule: save_report_cases) (simp_all add: db rep amap.get_put)
qed (use assms(2) in \<open>auto split: if_splits\<close>)

text \<open>C4. A report is taken once: after a report was answered with 202, whatever requests, notification passes
  and maintenance runs come in between, no report of that agent with the same or an older sequence number
  is ever answered with 202 again or changes the database; and when such a resend is in order (within
  the rate limit, well formed, valid, authorised) and no statement fails, the answer is 409, which makes
  the agent take the report as done with.\<close>

theorem report_taken_once:
  assumes "ingest p io r s = (resp, s1)" and "rs_status resp = 202" and "decode_body p (rq_body r) = Some rep"
    and "ingest p io2 r2 (server_run p es s1) = (resp2, s3)" and "decode_body p (rq_body r2) = Some rep2"
    and "rep_agent_id rep2 = rep_agent_id rep" and "uint (rep_sequence rep2) \<le> uint (rep_sequence rep)"
  shows "rs_status resp2 \<noteq> 202 \<and> sv_db s3 = sv_db (server_run p es s1) \<and>
    (rs_status resp2 \<notin> {400, 401, 422, 429} \<and> (\<forall>c. \<not> ii_fails io2 c) \<and> sl_encode p rep2 \<noteq> None \<and>
       uint (rep_sequence rep2) < 2 ^ 63 \<longrightarrow>
     rs_status resp2 = 409 \<and> \<not> fst (send (Response (rs_status resp2))))"
proof -
  let ?s2 = "server_run p es s1"
  obtain g where g: "amap_get (db_agents (sv_db s1)) (rep_agent_id rep) = Some g" "gr_last_sequence g = uint (rep_sequence rep)"
    using ingest_accepted [OF assms(1-3)] by blast
  obtain g2 where g2: "amap_get (db_agents (sv_db ?s2)) (rep_agent_id rep2) = Some g2" "uint (rep_sequence rep2) \<le> gr_last_sequence g2"
    using server_run_grow [of s1 p es] g assms(6,7) unfolding agents_grow_def by fastforce
  from assms(4) show ?thesis
  proof (cases rule: ingest_cases)
    case (refused l)
    then show ?thesis by auto
  next
    case (unsaved l rep' err)
    have rep: "rep' = rep2" using unsaved(3) assms(5) by simp
    have "err = Replay" if "\<forall>c. \<not> ii_fails io2 c" "sl_encode p rep2 \<noteq> None" "uint (rep_sequence rep2) < 2 ^ 63"
      using unsaved(6) that g2 by (auto simp: rep save_report_def Let_def)
    then show ?thesis using unsaved(1,2) by (auto simp: retry_status_def)
  next
    case (saved l rep' d)
    have "rep' = rep2" using saved(3) assms(5) by simp
    with saved(6) have False
      by (cases rule: save_report_cases) (use g2 \<open>rep' = rep2\<close> in auto)
    then show ?thesis ..
  qed
qed

subsection \<open>Mails\<close>

text \<open>C12. No alert counts as notified without a mail: whatever the handlers, the loop and maintenance do, in any
  interleaving and with any failing statements or refused mails, an alert row is marked as sent only when
  the mail server has accepted a mail about this alert in the state it is in now (firing or resolved),
  and a critical alert only by a mail that called it critical; the database stays well formed.\<close>

theorem sent_means_mailed:
  assumes "db_ok (sv_db s)" and "\<forall>r \<in> set (db_alerts (sv_db s)). ar_notification r \<noteq> NotSent"
    and "\<forall>e \<in> set es. event_deliveries_ok e" and "r \<in> set (db_alerts (sv_db (server_run p es s)))"
    and "ar_notification r = NotSent"
  shows "db_ok (sv_db (server_run p es s)) \<and>
    (\<exists>m a. m \<in> set (sv_outbox (server_run p es s)) \<and> ml_accepted m \<and> ml_subject m = AlertMail a \<and>
       al_id a = ar_id r \<and> al_state a = ar_state r \<and> (ar_severity r = Critical \<longrightarrow> al_severity a = Critical))"
proof -
  have "delivery_ok s" using assms(1,2) by (simp add: delivery_ok_def mail_backed_def)
  then have ok: "delivery_ok (server_run p es s)" using server_run_delivery assms(3) by blast
  then obtain m where "m \<in> set (sv_outbox (server_run p es s))" "mail_for r m"
    using assms(4,5) unfolding delivery_ok_def mail_backed_def by blast
  then show ?thesis using ok by (auto simp: delivery_ok_def mail_for_def split: mail_subject.splits)
qed

subsection \<open>A small run\<close>

definition demo_form :: "string \<Rightarrow> string" where
  "demo_form field = (if field = ''password'' then ''correct horse'' else [])"

definition demo_request :: request where
  "demo_request = \<lparr>rq_remote_addr = ''127.0.0.1:9'', rq_host = ''mon.example'', rq_origin = [],
     rq_forwarded_for = [], rq_authorization = ''Bearer token'', rq_cookie = Some ''tok'', rq_body = ''report'',
     rq_form = Some demo_form, rq_query = (\<lambda>_. []), rq_path_id = ''1''\<rparr>"

definition demo_now :: gotime where "demo_now = 1000 * hour"

definition demo_sent :: report where "demo_sent = zero_report ''web'' 7 demo_now"

definition demo_p :: server_lib where
  "demo_p = demo_server_lib\<lparr>sl_decode_strict := (\<lambda>t. if t = ''report'' then Some (demo_sent, []) else None)\<rparr>"

definition demo_start :: server where
  "demo_start = the (new_server demo_lib (demo_config (Fin 90))
     (store_do Store.demo_env (\<lambda>_. False) (SyncAgents [(''web'', demo_hash)]) db_empty) demo_now)"

definition demo_login_io :: login_io where
  "demo_login_io = \<lparr>li_now = demo_now, li_session_now = demo_now, li_token = Some ''tok'', li_csrf = Some ''csrf''\<rparr>"

definition demo_ingest_io :: ingest_io where
  "demo_ingest_io = \<lparr>ii_now = demo_now, ii_received = demo_now, ii_seen = demo_now, ii_saved = demo_now,
     ii_fails = (\<lambda>_. False), ii_engine = calm_io demo_now\<rparr>"

lemma demo_start_new: "new_server (sl_lib demo_p) (demo_config (Fin 90))
    (store_do Store.demo_env (\<lambda>_. False) (SyncAgents [(''web'', demo_hash)]) db_empty) demo_now = Some demo_start"
  by (simp add: demo_start_def demo_p_def demo_server_lib_def new_server_def demo_config_def demo_yaml_def server_defaults_def Let_def)

lemma demo_start_fields:
  "sv_cfg demo_start = demo_config (Fin 90)" "sv_proxy demo_start = None"
  "sv_login_limiter demo_start = new_limiter 5 (15 * minute) demo_now"
  "sv_api_limiter demo_start = new_limiter 120 minute demo_now"
  "sv_sessions demo_start = new_sessions (30 * minute) (12 * hour) True"
  "sv_db demo_start = db_empty\<lparr>db_agents := [(''web'', \<lparr>gr_last_sequence = 0, gr_last_seen = None\<rparr>)], db_tokens := [(''web'', demo_hash)]\<rparr>"
  "sv_outbox demo_start = []"
  by (simp_all add: demo_start_def new_server_def demo_config_def demo_yaml_def server_defaults_def Let_def
      sync_agents_def db_empty_def amap_defs demo_hash_def)

lemma demo_peer: "client_ip demo_lib None demo_request = ''127.0.0.1''"
  by code_simp

lemma demo_allowed: "0 \<le> w \<Longrightarrow> 1 \<le> n \<Longrightarrow> fst (allow demo_now k (new_limiter n w demo_now))"
proof -
  have "is_zero_time demo_now = False" by code_simp
  moreover have "time_sub demo_now demo_now = 0" by code_simp
  ultimately show "0 \<le> w \<Longrightarrow> 1 \<le> n \<Longrightarrow> fst (allow demo_now k (new_limiter n w demo_now))"
    by (simp add: allow_def new_limiter_def expire_attempts_def read_attempt_def amap_defs zero_attempt_def is_zero_time_def Let_def)
qed

lemma demo_token: "verify_token (sl_idkey demo_p) (bearer_token ''Bearer token'') demo_hash" "bearer_token ''Bearer token'' \<noteq> []"
  by code_simp+

lemma demo_request_fields:
  "rq_cookie demo_request = Some ''tok''" "rq_origin demo_request = []" "rq_form demo_request = Some demo_form"
  "rq_authorization demo_request = ''Bearer token''" "rq_body demo_request = ''report''"
  by (simp_all add: demo_request_def)

lemma demo_login: "login_accepted demo_p demo_login_io demo_request demo_start"
  by (simp add: login_accepted_def demo_start_fields demo_login_io_def demo_request_def valid_origin_def demo_p_def
      demo_server_lib_def demo_lib_def demo_form_def demo_config_def demo_yaml_def demo_allowed server_defaults_def duration_defs)

lemma demo_mac: "session_mac demo_p demo_start = (@) (replicate 32 CHR ''s'')"
  by (simp add: session_mac_def demo_start_fields demo_p_def demo_server_lib_def demo_config_def demo_yaml_def)

lemma demo_logged_in:
  "session_found demo_p demo_now demo_request (server_run demo_p [LoginAttempt demo_login_io demo_request] demo_start)"
proof -
  let ?s = "server_run demo_p [LoginAttempt demo_login_io demo_request] demo_start"
  have "sv_sessions ?s = session_history (session_mac demo_p demo_start)
      (run_calls demo_p [LoginAttempt demo_login_io demo_request] demo_start) (sv_sessions demo_start)"
    by (rule server_run_sessions)
  also have "\<dots> = snd (create_session (session_mac demo_p demo_start) demo_now (Some ''tok'') (Some ''csrf'') (sv_sessions demo_start))"
    using demo_login by (simp add: demo_login_io_def)
  finally have ss: "sv_sessions ?s = \<dots>" .
  have mac: "session_mac demo_p ?s = session_mac demo_p demo_start" by (rule session_mac_cfg) (rule server_run_cfg)
  show ?thesis
    by (simp add: session_found_def mac ss demo_mac demo_request_fields get_session_def create_session_def cleanup_locked_def
        demo_start_fields new_sessions_def amap_defs session_expired_def time_sub_def duration_defs max_duration_def min_duration_def Let_def del: server_run_simps)
qed


theorem forged_requests_change_nothing_witness:
  "\<exists>resp s'. server_do demo_p (ProtectedRequest demo_now demo_now demo_request (SaveNotifications
       \<lparr>st_now = demo_now, st_clock = demo_now, st_fails = (\<lambda>_. False)\<rparr>))
     (server_run demo_p [LoginAttempt demo_login_io demo_request] demo_start) = (Some resp, s') \<and>
   sv_db s' = sv_db (server_run demo_p [LoginAttempt demo_login_io demo_request] demo_start)"
proof -
  let ?s = "server_run demo_p [LoginAttempt demo_login_io demo_request] demo_start"
  let ?e = "ProtectedRequest demo_now demo_now demo_request (SaveNotifications \<lparr>st_now = demo_now, st_clock = demo_now, st_fails = (\<lambda>_. False)\<rparr>)"
  obtain resp s' where d: "server_do demo_p ?e ?s = (Some resp, s')"
    by (cases "require_auth demo_p demo_now demo_request (protected_do demo_p demo_now demo_request
      (SaveNotifications \<lparr>st_now = demo_now, st_clock = demo_now, st_fails = (\<lambda>_. False)\<rparr>)) ?s")
      (simp del: server_run_simps)
  have "\<not> genuine demo_p demo_now demo_request ?s"
  proof -
    have ss: "sv_sessions ?s = snd (create_session (session_mac demo_p demo_start) demo_now (Some ''tok'') (Some ''csrf'') (sv_sessions demo_start))"
      using demo_login server_run_sessions [of demo_p "[LoginAttempt demo_login_io demo_request]" demo_start] by (simp add: demo_login_io_def)
    show ?thesis
      by (simp add: genuine_def ss create_session_def cleanup_locked_def demo_start_fields new_sessions_def amap_defs
          demo_request_fields demo_form_def Let_def del: server_run_simps)
  qed
  then show ?thesis using forged_requests_change_nothing [OF d] d by blast
qed

lemma demo_start_db_ok: "db_ok (sv_db demo_start)"
  by (simp add: demo_start_fields db_ok_def alerts_ok_def reports_ok_def db_empty_def amap_defs)

lemma demo_decoded: "decode_body demo_p (rq_body demo_request) = Some demo_sent"
  by (simp add: decode_body_def demo_p_def demo_request_def max_report_body_def)

lemma demo_ages: "sc_max_clock_skew (demo_config (Fin 90)) = 2 * minute" "sc_max_report_age (demo_config (Fin 90)) = 24 * hour"
  by (simp_all add: demo_config_def demo_yaml_def server_defaults_def duration_defs)

text \<open>The demo server takes any valid report of its agent that a request brings.\<close>

lemma demo_ingests:
  assumes p: "p = demo_server_lib\<lparr>sl_decode_strict := f\<rparr>" and f: "f ''report'' = Some (r, [])"
    and r: "r = zero_report ''web'' n demo_now" and n: "0 < uint n" "uint n < 9223372036854775808"
  shows "\<exists>resp s'. ingest p demo_ingest_io demo_request demo_start = (resp, s') \<and> rs_status resp = 202"
proof -
  obtain ok l where a: "allow demo_now (client_ip (sl_lib p) (sv_proxy demo_start) demo_request) (sv_api_limiter demo_start) = (ok, l)"
    by force
  then have ok: "ok" using demo_allowed [of minute 120 "client_ip (sl_lib p) (sv_proxy demo_start) demo_request"]
    by (simp add: demo_start_fields duration_defs)
  have nz: "n \<noteq> 0" using n(1) by auto
  have fits: "\<not> 9223372036854775807 < unat n" using n(2) uint_nat [of n] by linarith
  have v: "validate (gl_request_uri (sl_lib p)) r demo_now (2 * minute) (24 * hour) = None"
  proof -
    have "is_zero_time demo_now = False" "\<not> demo_now < time_add demo_now (- (24 * hour))" "\<not> time_add demo_now (2 * minute) < demo_now"
      by (simp_all add: is_zero_time_def demo_now_def time_add_def duration_defs)
    moreover have "safe_label ''web''" by code_simp
    ultimately show ?thesis using nz fits
      by (simp add: validate_def first_some_None r zero_report_def zero_memory_def zero_docker_def
          report_limits percent_out_of_range_def)
  qed
  have idkey: "sl_idkey p = sl_idkey demo_p" by (simp add: p demo_p_def)
  have au: "authorised p demo_ingest_io demo_request r (sv_db demo_start)"
    using demo_token by (simp add: authorised_iff token_hashes_def demo_ingest_io_def demo_start_fields r zero_report_def demo_request_def idkey)
  have "rep_uptime r = 0" "rep_agent_id r = ''web''" "rep_sequence r = n" by (simp_all add: r zero_report_def)
  then obtain d where s: "save_report (ii_fails demo_ingest_io) (sl_encode p) r demo_now demo_now (sv_db demo_start) = (None, d)"
    using n by (simp add: save_report_def demo_ingest_io_def p demo_server_lib_def demo_start_fields amap_defs db_empty_def Let_def)
  have "decode_body p (rq_body demo_request) = Some r"
    by (simp add: decode_body_def p demo_request_def max_report_body_def f)
  then show ?thesis
    using a ok au s v by (simp add: ingest_def demo_start_fields demo_ages demo_ingest_io_def respond_def Let_def)
qed

lemma demo_ingested: "\<exists>resp s'. ingest demo_p demo_ingest_io demo_request demo_start = (resp, s') \<and> rs_status resp = 202"
  by (rule demo_ingests [OF demo_p_def _ demo_sent_def]) simp_all


theorem report_taken_once_witness:
  "\<exists>resp s1 resp2 s3. ingest demo_p demo_ingest_io demo_request demo_start = (resp, s1) \<and> rs_status resp = 202 \<and>
     ingest demo_p demo_ingest_io demo_request (server_run demo_p [MaintenanceRun (\<lambda>_. False) demo_now] s1) = (resp2, s3) \<and>
     rs_status resp2 \<noteq> 202"
proof -
  obtain resp s1 where i: "ingest demo_p demo_ingest_io demo_request demo_start = (resp, s1)" "rs_status resp = 202"
    using demo_ingested by blast
  obtain resp2 s3 where j: "ingest demo_p demo_ingest_io demo_request (server_run demo_p [MaintenanceRun (\<lambda>_. False) demo_now] s1) = (resp2, s3)"
    by (meson surj_pair)
  show ?thesis using report_taken_once [OF i demo_decoded j demo_decoded] i j by blast
qed

definition demo_mail_server :: server where
  "demo_mail_server = (demo_server (demo_preferences True) demo_firing)\<lparr>sv_cfg := demo_mail_config\<lparr>sc_alert_cooldown := 0\<rparr>\<rparr>"

lemma demo_mail_server_fields:
  "sv_cfg demo_mail_server = demo_mail_config\<lparr>sc_alert_cooldown := 0\<rparr>" "sv_outbox demo_mail_server = []"
  "db_preferences (sv_db demo_mail_server) = Some (demo_preferences True)"
  "db_alerts (sv_db demo_mail_server) = [new_row (demo_rule True 0 0) 1000 1]" "db_reports (sv_db demo_mail_server) = []"
  "db_ok (sv_db demo_mail_server)"
  using demo_firing_db_ok [of "demo_preferences True"]
  by (simp_all add: demo_mail_server_def demo_server_def demo_firing_eval demo_firing_def apply_rule_def apply_rule_tx_def
      select_active_def demo_db_def insert_alert_def audited_def audit_rule_tx_def audit_tx_def amap_get_def demo_rule_def
      new_row_def Let_def)

theorem sent_means_mailed_witness:
  "\<exists>r m. r \<in> set (db_alerts (sv_db (server_run demo_server_lib [NotifyLoop (RetryTick (calm_pass 5))] demo_mail_server))) \<and>
     ar_notification r = NotSent \<and> m \<in> set (sv_outbox (server_run demo_server_lib [NotifyLoop (RetryTick (calm_pass 5))] demo_mail_server)) \<and>
     ml_accepted m"
proof -
  let ?c = "demo_mail_config\<lparr>sc_alert_cooldown := 0\<rparr>" and ?r = "new_row (demo_rule True 0 0) 1000 1"
    and ?q = "demo_preferences True" and ?env = "lib_env demo_server_lib" and ?io = "calm_pass 5"
  let ?d = "sv_db demo_mail_server" and ?e = "NotifyLoop (RetryTick ?io)"
  note f = demo_mail_server_fields
  have due: "due_row ?r" "ar_notification ?r = NotPending" by (simp_all add: due_row_def new_row_def)
  have pend: "pending_notifications (pi_fails ?io) 50 ?d = Inr [scan_alert ?r]"
    using due by (simp add: pending_notifications_def f query_alerts_def calm_pass_def)
  have pref: "server_preferences (pi_fails ?io) demo_mail_server = Inr ?q"
    by (simp add: server_preferences_def notification_preferences_def f calm_pass_def)
  have quiet: "quiet_mail (pi_alert ?io n)" for n by (simp add: calm_pass_def quiet_mail_def)
  have wanted: "\<not> unwanted ?c ?q (scan_alert ?r)"
    by (simp add: unwanted_def demo_mail_config_def demo_preferences_def scan_alert_def new_row_def server_defaults_def)
  have reports: "latest_reports (pi_fails ?io) (sl_decode demo_server_lib) ?d = Inr []"
    by (simp add: latest_reports_def f latest_rows_def calm_pass_def)
  obtain t where one: "notify_one ?env ?c ?q [] (pi_alert ?io (al_id (scan_alert ?r))) (scan_alert ?r) (?d, []) =
      (marked NotSent t ?r ?d, [alert_mail ?c ?q True (in_context [] (scan_alert ?r))])"
    using notify_one_quiet [where d = ?d and r = ?r and io = "pi_alert ?io (al_id (scan_alert ?r))" and env = ?env and
        c = ?c and q = ?q and reports = "[]" and out = "[]"] wanted quiet due(1) f(6)
    by (auto simp: f db_ok_def)
  have "\<not> mi_cancelled (pi_alert ?io n)" for n by (simp add: calm_pass_def)
  then have db: "sv_db (process_notifications ?env demo_server_lib ?io demo_mail_server) = marked NotSent t ?r ?d"
    using one by (simp add: process_notifications_def pend pref reports f)
  let ?x = "mark_row NotSent t ?r"
  have x: "?x \<in> set (db_alerts (sv_db (server_run demo_server_lib [?e] demo_mail_server)))" "ar_notification ?x = NotSent"
    by (simp_all add: db marked_def update_alerts_def f mark_row_def)
  have "\<forall>r \<in> set (db_alerts ?d). ar_notification r \<noteq> NotSent" using due(2) by (simp add: f)
  moreover have "\<forall>e \<in> set [?e]. event_deliveries_ok e"
    by (simp add: pass_others_def others_only_def calm_pass_def)
  ultimately show ?thesis using sent_means_mailed [OF f(6) _ _ x] x by blast
qed

end
