(* ===== verification/Routing.thy ===== *)
theory Routing
  imports GoMux System_Safety
begin

text \<open>
  The routes of the server (\<open>Server.Handler\<close>, \<open>securityHeaders\<close>, \<open>health\<close> and \<open>ready\<close> of
  \<open>internal/server/server.go\<close>): which handler answers which request, on top of the handlers of
  \<open>Server\<close> and \<open>Dashboard\<close>.  The files under \<open>/static/\<close> are embedded in the program, what the file
  server answers is an input.
\<close>

subsection \<open>The table\<close>

datatype endpoint =
    Health | Ready | LoginForm | LoginPost | LogoutPost | Reports | HistoryQuery | Events | Overview
  | NotificationsPost | NotificationsTest | AcknowledgePost | StaticFiles | Home

definition server_routes :: "endpoint route list" where
  "server_routes = map (\<lambda>(m, ss, b, h). \<lparr>rt_method = m, rt_segments = ss, rt_below = b, rt_handler = h\<rparr>)
     [(''GET'', [Lit ''healthz''], False, Health),
      (''GET'', [Lit ''readyz''], False, Ready),
      (''GET'', [Lit ''login''], False, LoginForm),
      (''POST'', [Lit ''login''], False, LoginPost),
      (''POST'', [Lit ''logout''], False, LogoutPost),
      (''POST'', [Lit ''api'', Lit ''v1'', Lit ''reports''], False, Reports),
      (''GET'', [Lit ''api'', Lit ''v1'', Lit ''history''], False, HistoryQuery),
      (''GET'', [Lit ''api'', Lit ''v1'', Lit ''events''], False, Events),
      (''GET'', [Lit ''api'', Lit ''v1'', Lit ''dashboard''], False, Overview),
      (''POST'', [Lit ''api'', Lit ''v1'', Lit ''notifications''], False, NotificationsPost),
      (''POST'', [Lit ''api'', Lit ''v1'', Lit ''notifications'', Lit ''test''], False, NotificationsTest),
      (''POST'', [Lit ''api'', Lit ''v1'', Lit ''alerts'', Wild, Lit ''ack''], False, AcknowledgePost),
      (''GET'', [Lit ''static''], True, StaticFiles),
      (''GET'', [], True, Home)]"

definition security_headers :: "server_config \<Rightarrow> (string \<times> string) list" where
  "security_headers c =
     [(''Content-Security-Policy'',
         ''default-src 'self'; style-src 'self'; script-src 'self'; img-src 'self'; base-uri 'none'; '' @
         ''frame-ancestors 'none'; form-action 'self'' @ [CHR 0x27]),
      (''X-Content-Type-Options'', ''nosniff''), (''X-Frame-Options'', ''DENY''), (''Referrer-Policy'', ''same-origin''),
      (''Permissions-Policy'', ''camera=(), microphone=(), geolocation=()'')] @
     (if sc_secure_cookies c then [(''Strict-Transport-Security'', ''max-age=31536000; includeSubDomains'')] else [])"

subsection \<open>Serving a request\<close>

text \<open>The inputs of all handlers; \<open>si_auth_now\<close> is the reading of the clock in \<open>requireAuth\<close>.\<close>

record serve_io =
  si_auth_now :: gotime
  si_now :: gotime
  si_ingest :: ingest_io
  si_login :: login_io
  si_store :: store_call
  si_dashboard :: dashboard_io
  si_test :: "gotime \<times> gotime \<times> string option"
  si_ping_fails :: bool
  si_file :: response

definition health :: response where
  "health = respond 200 (Message ''{\"status\":\"ok\"}'')"

definition ready :: "bool \<Rightarrow> response" where
  "ready ping_fails =
     (if ping_fails then respond 503 (Message ''{\"status\":\"unavailable\"}'')
      else respond 200 (Message ''{\"status\":\"ready\"}''))"

text \<open>The events of the handlers that use the server's state.\<close>

fun endpoint_event :: "serve_io \<Rightarrow> request \<Rightarrow> endpoint \<Rightarrow> server_event option" where
  "endpoint_event io r Health = None"
| "endpoint_event io r Ready = None"
| "endpoint_event io r StaticFiles = None"
| "endpoint_event io r LoginForm = Some (LoginPage (si_auth_now io) r)"
| "endpoint_event io r LoginPost = Some (LoginAttempt (si_login io) r)"
| "endpoint_event io r Reports = Some (IngestReport (si_ingest io) r)"
| "endpoint_event io r LogoutPost = Some (ProtectedRequest (si_auth_now io) (si_now io) r Logout)"
| "endpoint_event io r HistoryQuery = Some (ProtectedRequest (si_auth_now io) (si_now io) r (HistoryData (si_store io)))"
| "endpoint_event io r Events = Some (ProtectedRequest (si_auth_now io) (si_now io) r EventStream)"
| "endpoint_event io r Overview = Some (ProtectedRequest (si_auth_now io) (si_now io) r (DashboardPage (si_dashboard io)))"
| "endpoint_event io r Home = Some (ProtectedRequest (si_auth_now io) (si_now io) r (DashboardPage (si_dashboard io)))"
| "endpoint_event io r NotificationsPost =
     Some (ProtectedRequest (si_auth_now io) (si_now io) r (SaveNotifications (si_store io)))"
| "endpoint_event io r NotificationsTest =
     (case si_test io of (limiter_now, mail_now, sent) \<Rightarrow>
        Some (ProtectedRequest (si_auth_now io) (si_now io) r (TestNotification limiter_now mail_now sent)))"
| "endpoint_event io r AcknowledgePost =
     Some (ProtectedRequest (si_auth_now io) (si_now io) r (AcknowledgeAlert (si_store io)))"

fun direct_answer :: "serve_io \<Rightarrow> endpoint \<Rightarrow> response" where
  "direct_answer io Health = health"
| "direct_answer io Ready = ready (si_ping_fails io)"
| "direct_answer io _ = si_file io"

definition endpoint_do :: "server_lib \<Rightarrow> serve_io \<Rightarrow> request \<Rightarrow> endpoint \<Rightarrow> server \<Rightarrow> response \<times> server" where
  "endpoint_do p io r e s =
     (case endpoint_event io r e of
        None \<Rightarrow> (direct_answer io e, s)
      | Some ev \<Rightarrow> (case server_do p ev s of (resp, s') \<Rightarrow> (the resp, s')))"

text \<open>Redirects of the mux keep the method, they have status 307.\<close>

definition serve :: "server_lib \<Rightarrow> serve_io \<Rightarrow> string \<Rightarrow> string \<Rightarrow> request \<Rightarrow> server \<Rightarrow>
    (string \<times> string) list \<times> response \<times> server" where
  "serve p io meth path r s =
     (security_headers (sv_cfg s),
      (case mux_route server_routes meth path of
         Handled e values \<Rightarrow> endpoint_do p io (r\<lparr>rq_path_id := (case values of [] \<Rightarrow> [] | v # _ \<Rightarrow> v)\<rparr>) e s
       | MovedTo location \<Rightarrow> ((respond 307 NoBody)\<lparr>rs_location := location\<rparr>, s)
       | MethodNotAllowed \<Rightarrow> (http_error 405 ''Method Not Allowed'', s)
       | PageNotFound \<Rightarrow> (http_error 404 ''404 page not found'', s)
       | BadRequestUri \<Rightarrow> (respond 400 NoBody, s)))"

subsection \<open>The table, evaluated\<close>

lemmas mux_eval = mux_route_def mux_clean_def find_route_def best_route_def server_routes_def route_matches_def
  exact_match_def clean_path_def rooted_def path_text_def add_elem_def path_unescape_def has_suffix_def has_prefix_def
  route_rank_def Let_def

lemma route_examples:
  "mux_route server_routes ''POST'' ''/api/v1/alerts/17/ack'' = Handled AcknowledgePost [''17'']"
  "mux_route server_routes ''GET'' ''/api/v1/reports'' = Handled Home []"
  "mux_route server_routes ''GET'' ''/static/app.js'' = Handled StaticFiles []"
  "mux_route server_routes ''GET'' ''/static'' = MovedTo ''/static/''"
  "mux_route server_routes ''POST'' ''/x/../login'' = MovedTo ''/login''"
  "mux_route server_routes ''POST'' ''/api/v1/history'' = MethodNotAllowed"
  "mux_route server_routes ''POST'' ''/api/v1/reports'' = Handled Reports []"
  by (simp_all add: mux_eval)

lemma escaped_segment: "path_segments ''/%6Cogin'' = [''login'']"
  by code_simp

text \<open>Every path is some page's: a request with another method is refused with status 405, never 404.\<close>

lemma never_not_found: "mux_route server_routes meth path \<noteq> PageNotFound"
proof -
  define q where "q = (if meth = ''CONNECT'' then path else mux_clean path)"
  have "list_ex (route_matches q) server_routes \<or>
      \<not> has_suffix q ''/'' \<and> list_ex (route_matches (q @ ''/'')) server_routes"
  proof (cases "q = []")
    case True
    then have "list_ex (route_matches (q @ ''/'')) server_routes" by (simp add: server_routes_def route_matches_def)
    then show ?thesis using True by (simp add: has_suffix_def)
  next
    case False
    then have "path_segments q \<noteq> []" by (cases q) simp_all
    then have "route_matches q \<lparr>rt_method = ''GET'', rt_segments = [], rt_below = True, rt_handler = Home\<rparr>"
      by (simp add: route_matches_def)
    moreover have "\<lparr>rt_method = ''GET'', rt_segments = [], rt_below = True, rt_handler = Home\<rparr> \<in> set server_routes"
      by (simp add: server_routes_def)
    ultimately have "list_ex (route_matches q) server_routes" unfolding list_ex_iff by blast
    then show ?thesis by blast
  qed
  then show ?thesis unfolding mux_route_def Let_def q_def [symmetric] by (auto split: option.splits)
qed

subsection \<open>Who may do what\<close>

fun endpoint_method :: "endpoint \<Rightarrow> string" where
  "endpoint_method LoginPost = ''POST''"
| "endpoint_method LogoutPost = ''POST''"
| "endpoint_method Reports = ''POST''"
| "endpoint_method NotificationsPost = ''POST''"
| "endpoint_method NotificationsTest = ''POST''"
| "endpoint_method AcknowledgePost = ''POST''"
| "endpoint_method _ = ''GET''"

lemma handled_method:
  assumes "mux_route server_routes meth path = Handled e values"
  shows "meth = endpoint_method e \<or> meth = ''HEAD'' \<and> endpoint_method e = ''GET''"
proof -
  have "list_all (\<lambda>r. rt_method r = endpoint_method (rt_handler r)) server_routes" by (simp add: server_routes_def)
  then show ?thesis using handled_route [OF assms] by (auto simp: list_all_iff)
qed

definition public_endpoints :: "endpoint set" where
  "public_endpoints = {Health, Ready, StaticFiles, LoginForm, LoginPost, Reports}"

text \<open>What a request leaves alone, whatever sessions it touched.\<close>

definition same_data :: "server \<Rightarrow> server \<Rightarrow> bool" where
  "same_data s s' \<longleftrightarrow> sv_db s' = sv_db s \<and> sv_outbox s' = sv_outbox s"

lemma same_data_refl [simp]: "same_data s s"
  by (simp add: same_data_def)

lemma protected_without_session:
  assumes "\<not> session_found p now0 r s"
  shows "server_do p (ProtectedRequest now0 now r c) s = (Some (see_other ''/login''), entered p now0 r s)"
  using assms by (auto simp: session_found_def require_auth_def entered_def split: prod.splits option.splits)

lemma protected_with_session:
  assumes "session_found p now0 r s"
  shows "server_do p (ProtectedRequest now0 now r c) s = map_prod Some id (protected_do p now r c (entered p now0 r s))"
  using assms by (auto simp: session_found_def require_auth_def entered_def split: prod.splits option.splits)

lemma protected_writes:
  assumes "server_do p (ProtectedRequest now0 now r c) s = (resp, s')" and "\<not> same_data s s'"
  shows "genuine p now0 r s \<and> (\<exists>io limiter_now mail_now sent. c \<in> {AcknowledgeAlert io, SaveNotifications io,
    TestNotification limiter_now mail_now sent})"
proof -
  have found: "session_found p now0 r s"
  proof (rule ccontr)
    assume "\<not> session_found p now0 r s"
    then show False using assms protected_without_session [of p now0 r s now c] by (simp add: same_data_def)
  qed
  obtain resp' where d: "protected_do p now r c (entered p now0 r s) = (resp', s')"
    using assms(1) unfolding protected_with_session [OF found] by (cases "protected_do p now r c (entered p now0 r s)") auto
  obtain f s1 where f: "csrf_form p now r (entered p now0 r s) = (f, s1)" by force
  have "f \<noteq> None" using refused_form [OF _ d] f assms(2) by (auto simp: same_data_def)
  then have "genuine p now0 r s" using csrf_form_genuine [OF found, of now] f by auto
  moreover have "same_data s s'" if "c \<in> {Logout, EventStream} \<or> (\<exists>io. c \<in> {HistoryData io}) \<or> (\<exists>io. c \<in> {DashboardPage io})"
    using that d csrf_form_fields [OF f] f
    by (auto simp: same_data_def logout_def delete_session_def event_stream_def dashboard_handler_def
        split: prod.splits option.splits)
  ultimately show ?thesis using assms(2) by (cases c) auto
qed

lemma valid_origin_id [simp]: "valid_origin lib url (r\<lparr>rq_path_id := v\<rparr>) = valid_origin lib url r"
  by (simp add: valid_origin_def Let_def split: option.split)

text \<open>The endpoints behind the login, and the login itself and the reports.\<close>

lemma protected_surface:
  assumes "endpoint_event io r e = Some (ProtectedRequest (si_auth_now io) (si_now io) r c)"
    and "server_do p (ProtectedRequest (si_auth_now io) (si_now io) r c) s = (o', s')" and "the o' = resp"
  shows "(\<not> session_found p (si_auth_now io) r s \<longrightarrow> resp = see_other ''/login'' \<and> s' = s\<lparr>sv_sessions := sv_sessions s'\<rparr>) \<and>
    (sv_db s' \<noteq> sv_db s \<or> sv_outbox s' \<noteq> sv_outbox s \<longrightarrow> genuine p (si_auth_now io) r s \<and> endpoint_method e = ''POST'')"
proof (intro conjI impI)
  assume "\<not> session_found p (si_auth_now io) r s"
  then show "resp = see_other ''/login''" "s' = s\<lparr>sv_sessions := sv_sessions s'\<rparr>"
    using assms(2,3) protected_without_session [of p "si_auth_now io" r s "si_now io" c] by (auto simp: entered_def)
next
  assume "sv_db s' \<noteq> sv_db s \<or> sv_outbox s' \<noteq> sv_outbox s"
  then have w: "genuine p (si_auth_now io) r s \<and> (\<exists>io limiter_now mail_now sent. c \<in> {AcknowledgeAlert io, SaveNotifications io,
      TestNotification limiter_now mail_now sent})"
    using assms(2) protected_writes [of p "si_auth_now io" "si_now io" r c s] by (auto simp: same_data_def)
  then show "genuine p (si_auth_now io) r s" by blast
  show "endpoint_method e = ''POST''" using assms(1) w by (cases e) (auto split: prod.splits)
qed

lemma login_keeps_data:
  "same_data s (snd (server_do p (LoginPage now r) s))" "same_data s (snd (server_do p (LoginAttempt li r) s))"
  by (auto simp: same_data_def login_page_def login_def Let_def split: prod.splits option.splits sum.splits if_splits)

lemma ingest_surface:
  assumes "ingest p i r s = (resp, s')" and "sv_db s' \<noteq> sv_db s \<or> sv_outbox s' \<noteq> sv_outbox s"
  shows "rs_status resp = 202 \<and> (\<exists>rep. decode_body p (rq_body r) = Some rep \<and> authorised p i r rep (sv_db s))"
  using assms(1)
proof (cases rule: ingest_cases)
  case (saved l rep d)
  then show ?thesis by auto
qed (use assms(2) in auto)


text \<open>A request for the dashboard by somebody who is not logged in.\<close>

definition demo_serve_io :: serve_io where
  "demo_serve_io = \<lparr>si_auth_now = demo_now, si_now = demo_now, si_ingest = demo_ingest_io, si_login = demo_login_io,
     si_store = \<lparr>st_now = demo_now, st_clock = demo_now, st_fails = (\<lambda>_. False)\<rparr>, si_dashboard = calm_dashboard demo_now,
     si_test = (demo_now, demo_now, None), si_ping_fails = False, si_file = respond 200 NoBody\<rparr>"


end
