(* ===== verification/Migrations.thy ===== *)
theory Migrations
  imports Config
begin

text \<open>
  Opening the database (\<open>Open\<close> and \<open>migrate\<close> of \<open>internal/storage/storage.go\<close>, with the scripts of
  \<open>migrations/\<close>).  What a script does to the schema and the data is the argument \<open>exec\<close>, \<open>None\<close> when SQLite
  refuses it; the database is an argument type \<open>'s\<close> beside the rows of \<open>schema_migrations\<close>.  \<open>fails\<close> says
  which calls fail; a process that dies in the middle is one whose next call fails.
\<close>

subsection \<open>The state and the calls\<close>

record 's migrated =
  mg_schema :: 's
  mg_versions :: "int list"

datatype open_call =
    SqlOpen | PingDatabase | ListScripts | Bootstrap | CountVersion int | ReadScript int | BeginScript int
  | ExecScript int | InsertVersion int | CommitScript int

datatype open_error =
    OpenSqlite | PingSqlite | ListMigrations | BootstrapMigrations | InvalidName string | CheckVersion
  | ReadMigration | BeginMigration | ApplyMigration int | CommitMigration

text \<open>The embedded scripts, in no particular order.\<close>

definition migration_files :: "string list" where
  "migration_files = [''001_initial.sql'', ''002_hourly_metrics.sql'', ''003_alert_state_machine.sql'',
     ''004_alert_consecutive_count.sql'', ''005_notification_preferences.sql'']"

text \<open>\<open>strconv.Atoi\<close> of what stands before the first underscore.\<close>

definition script_version :: "string \<Rightarrow> int option" where
  "script_version name = atoi (takeWhile (\<lambda>c. c \<noteq> CHR ''_'') name)"

subsection \<open>Migrating\<close>

text \<open>One script runs in a transaction with the row that records it; on any error nothing of it stays.\<close>

definition apply_script :: "(string \<Rightarrow> 's \<Rightarrow> 's option) \<Rightarrow> (open_call \<Rightarrow> bool) \<Rightarrow> string \<Rightarrow> int \<Rightarrow> 's migrated \<Rightarrow>
    open_error option \<times> 's migrated" where
  "apply_script exec fails name v d =
     (if fails (ReadScript v) then (Some ReadMigration, d)
      else if fails (BeginScript v) then (Some BeginMigration, d)
      else case (if fails (ExecScript v) then None else exec name (mg_schema d)) of
          None \<Rightarrow> (Some (ApplyMigration v), d)
        | Some s \<Rightarrow>
            if fails (InsertVersion v) then (Some (ApplyMigration v), d)
            else if fails (CommitScript v) then (Some CommitMigration, d)
            else (None, \<lparr>mg_schema = s, mg_versions = mg_versions d @ [v]\<rparr>))"

fun migrate_loop :: "(string \<Rightarrow> 's \<Rightarrow> 's option) \<Rightarrow> (open_call \<Rightarrow> bool) \<Rightarrow> string list \<Rightarrow> 's migrated \<Rightarrow>
    open_error option \<times> 's migrated" where
  "migrate_loop exec fails [] d = (None, d)"
| "migrate_loop exec fails (name # names) d =
     (case script_version name of
        None \<Rightarrow> (Some (InvalidName name), d)
      | Some v \<Rightarrow>
          if fails (CountVersion v) then (Some CheckVersion, d)
          else if v \<in> set (mg_versions d) then migrate_loop exec fails names d
          else
            (case apply_script exec fails name v d of
               (Some e, d') \<Rightarrow> (Some e, d')
             | (None, d') \<Rightarrow> migrate_loop exec fails names d'))"

definition migrate :: "(string \<Rightarrow> 's \<Rightarrow> 's option) \<Rightarrow> (open_call \<Rightarrow> bool) \<Rightarrow> string list \<Rightarrow> 's migrated \<Rightarrow>
    open_error option \<times> 's migrated" where
  "migrate exec fails files d =
     (if fails ListScripts then (Some ListMigrations, d)
      else if fails Bootstrap then (Some BootstrapMigrations, d)
      else migrate_loop exec fails (sort files) d)"

definition open_store :: "(string \<Rightarrow> 's \<Rightarrow> 's option) \<Rightarrow> (open_call \<Rightarrow> bool) \<Rightarrow> 's migrated \<Rightarrow>
    open_error option \<times> 's migrated" where
  "open_store exec fails d =
     (if fails SqlOpen then (Some OpenSqlite, d)
      else if fails PingDatabase then (Some PingSqlite, d)
      else migrate exec fails migration_files d)"

subsection \<open>What a database can look like\<close>

text \<open>The specification: scripts one after the other.\<close>

fun run_scripts :: "(string \<Rightarrow> 's \<Rightarrow> 's option) \<Rightarrow> string list \<Rightarrow> 's \<Rightarrow> 's option" where
  "run_scripts exec [] s = Some s"
| "run_scripts exec (name # names) s = (case exec name s of None \<Rightarrow> None | Some s' \<Rightarrow> run_scripts exec names s')"

lemma run_scripts_append:
  "run_scripts exec (xs @ ys) s = (case run_scripts exec xs s of None \<Rightarrow> None | Some s' \<Rightarrow> run_scripts exec ys s')"
  by (induction xs arbitrary: s) (auto split: option.splits)

text \<open>The scripts \<open>done\<close> have run, in order, on the database \<open>s0\<close>.\<close>

definition migrated_by :: "(string \<Rightarrow> 's \<Rightarrow> 's option) \<Rightarrow> 's \<Rightarrow> string list \<Rightarrow> 's migrated \<Rightarrow> bool" where
  "migrated_by exec s0 names d \<longleftrightarrow> run_scripts exec names s0 = Some (mg_schema d) \<and>
     map Some (mg_versions d) = map script_version names"

lemma migrated_by_fresh: "migrated_by exec s0 [] \<lparr>mg_schema = s0, mg_versions = []\<rparr>"
  by (simp add: migrated_by_def)

lemma migrated_by_script:
  assumes "migrated_by exec s0 names d" and "script_version name = Some v" and "apply_script exec fails name v d = (err, d')"
  shows "(err \<noteq> None \<longrightarrow> d' = d) \<and> (err = None \<longrightarrow> migrated_by exec s0 (names @ [name]) d')"
  using assms
  by (auto simp: apply_script_def migrated_by_def run_scripts_append split: if_splits option.splits)

lemma migrated_by_version:
  "migrated_by exec s0 names d \<Longrightarrow> name \<in> set names \<Longrightarrow> script_version name = Some v \<Longrightarrow> v \<in> set (mg_versions d)"
  unfolding migrated_by_def by (metis image_iff list.set_map option.inject)

lemma migrated_by_pending:
  assumes "migrated_by exec s0 names d" and "inj_on script_version (set names \<union> {name})" and "name \<notin> set names"
    and "script_version name = Some v"
  shows "v \<notin> set (mg_versions d)"
proof
  assume "v \<in> set (mg_versions d)"
  then have "Some v \<in> set (map script_version names)" using assms(1) unfolding migrated_by_def by (metis imageI list.set_map)
  then obtain n where "n \<in> set names" "script_version n = script_version name" using assms(4) by auto
  then have "n = name" using assms(2) by (auto simp: inj_on_def)
  then show False using \<open>n \<in> set names\<close> assms(3) by blast
qed

text \<open>The loop skips what has run and goes on from there; wherever it stops, a beginning of the list has run.\<close>

lemma migrate_loop_skip:
  assumes "migrated_by exec s0 names d" and "set old \<subseteq> set names" and "\<forall>n \<in> set old. script_version n \<noteq> None"
    and "migrate_loop exec fails (old @ new) d = (err, d')"
  shows "(err = Some CheckVersion \<and> d' = d) \<or> migrate_loop exec fails new d = (err, d')"
  using assms(2-4)
proof (induction old)
  case (Cons n old)
  obtain v where v: "script_version n = Some v" using Cons.prems(2) by auto
  have "v \<in> set (mg_versions d)" by (rule migrated_by_version [OF assms(1) _ v]) (use Cons.prems(1) in simp)
  then show ?case using Cons v by (auto split: if_splits)
qed simp

lemma migrate_loop_skip_calm:
  "\<forall>c. \<not> fails c \<Longrightarrow> migrate_loop exec fails names d \<noteq> (Some CheckVersion, d')"
  by (induction names arbitrary: d) (auto simp: apply_script_def split: option.splits if_splits)

lemma migrate_loop_runs:
  assumes "migrated_by exec s0 names d" and "\<forall>n \<in> set (names @ new). script_version n \<noteq> None"
    and "inj_on script_version (set (names @ new))" and "distinct (names @ new)"
    and "migrate_loop exec fails new d = (err, d')"
  shows "\<exists>ran rest. new = ran @ rest \<and> migrated_by exec s0 (names @ ran) d' \<and> (err = None \<longrightarrow> rest = [])"
  using assms
proof (induction new arbitrary: names d)
  case Nil
  then show ?case by simp
next
  case (Cons n new)
  obtain v where v: "script_version n = Some v" using Cons.prems(2) by auto
  have fresh: "v \<notin> set (mg_versions d)"
    by (rule migrated_by_pending [OF Cons.prems(1) _ _ v]) (use Cons.prems(3,4) in \<open>auto simp: inj_on_def\<close>)
  obtain e d1 where s: "apply_script exec fails n v d = (e, d1)" by force
  show ?case
  proof (cases "fails (CountVersion v) \<or> e \<noteq> None")
    case True
    then have "d' = d \<and> err \<noteq> None"
      using Cons.prems(5) v fresh s migrated_by_script [OF Cons.prems(1) v s] by (auto split: if_splits)
    then show ?thesis using Cons.prems(1) by (intro exI [of _ "[]"] exI [of _ "n # new"]) simp
  next
    case False
    then have go: "migrate_loop exec fails new d1 = (err, d')" using Cons.prems(5) v fresh s by simp
    have "migrated_by exec s0 (names @ [n]) d1" using migrated_by_script [OF Cons.prems(1) v s] False by blast
    from Cons.IH [OF this _ _ _ go] Cons.prems(2-4)
    obtain ran rest where "new = ran @ rest" "migrated_by exec s0 ((names @ [n]) @ ran) d'" "err = None \<longrightarrow> rest = []"
      by auto
    then show ?thesis by (intro exI [of _ "n # ran"] exI [of _ rest]) simp
  qed
qed

lemma migrate_loop_succeeds:
  assumes "migrated_by exec s0 names d" and "\<forall>n \<in> set (names @ new). script_version n \<noteq> None"
    and "inj_on script_version (set (names @ new))" and "distinct (names @ new)"
    and "run_scripts exec (names @ new) s0 \<noteq> None"
  shows "fst (migrate_loop exec (\<lambda>_. False) new d) = None"
  using assms
proof (induction new arbitrary: names d)
  case Nil
  then show ?case by simp
next
  case (Cons n new)
  obtain v where v: "script_version n = Some v" using Cons.prems(2) by auto
  have fresh: "v \<notin> set (mg_versions d)"
    by (rule migrated_by_pending [OF Cons.prems(1) _ _ v]) (use Cons.prems(3,4) in \<open>auto simp: inj_on_def\<close>)
  obtain s where s: "exec n (mg_schema d) = Some s"
    using Cons.prems(1,5) by (auto simp: migrated_by_def run_scripts_append split: option.splits)
  let ?d = "\<lparr>mg_schema = s, mg_versions = mg_versions d @ [v]\<rparr>"
  have a: "apply_script exec (\<lambda>_. False) n v d = (None, ?d)" using s by (simp add: apply_script_def)
  have "migrated_by exec s0 (names @ [n]) ?d" using migrated_by_script [OF Cons.prems(1) v a] by simp
  then have "fst (migrate_loop exec (\<lambda>_. False) new ?d) = None" using Cons.prems(2-5) by (intro Cons.IH [of "names @ [n]"]) auto
  then show ?case using v fresh a by simp
qed

subsection \<open>The embedded scripts\<close>

lemma migration_versions:
  "map script_version migration_files = map Some [1, 2, 3, 4, 5]" "sort migration_files = migration_files"
  "distinct migration_files" "\<forall>n \<in> set migration_files. script_version n \<noteq> None" "inj_on script_version (set migration_files)"
proof -
  show v: "map script_version migration_files = map Some [1, 2, 3, 4, 5]"
    by (simp add: migration_files_def script_version_def atoi_def Let_def is_digit_def code_def)
  show "sort migration_files = migration_files" by code_simp
  show d: "distinct migration_files" by (simp add: migration_files_def)
  have "Some ` set ([1, 2, 3, 4, 5] :: int list) = script_version ` set migration_files"
    using arg_cong [OF v, of set] by simp
  then show "\<forall>n \<in> set migration_files. script_version n \<noteq> None" by (metis image_iff option.distinct(1))
  have "distinct (map script_version migration_files)" unfolding v by simp
  then show "inj_on script_version (set migration_files)" by (simp add: distinct_map)
qed

lemma migrated_by_files:
  assumes "migrated_by exec s0 (take n migration_files) d"
  shows "mg_versions d = take n [1, 2, 3, 4, 5] \<and> run_scripts exec (take n migration_files) s0 = Some (mg_schema d)"
proof -
  have "map Some (mg_versions d) = map Some (take n [1, 2, 3, 4, 5])"
    using assms migration_versions(1) unfolding migrated_by_def by (metis take_map)
  then show ?thesis using assms by (simp add: migrated_by_def inj_map_eq_map)
qed

lemma open_store_step:
  assumes "migrated_by exec s0 (take n migration_files) d" and "n \<le> 5" and "open_store exec fails d = (err, d')"
  shows "\<exists>m. n \<le> m \<and> m \<le> 5 \<and> migrated_by exec s0 (take m migration_files) d' \<and> (err = None \<longrightarrow> m = 5)"
proof (cases "fails SqlOpen \<or> fails PingDatabase \<or> fails ListScripts \<or> fails Bootstrap")
  case True
  then have "d' = d" "err \<noteq> None" using assms(3) by (auto simp: open_store_def migrate_def split: if_splits)
  then show ?thesis using assms(1,2) by blast
next
  case False
  have five: "length migration_files = 5" by (simp add: migration_files_def)
  note valid = migration_versions(3-5)
  have "migrate_loop exec fails (take n migration_files @ drop n migration_files) d = (err, d')"
    using assms(3) False by (simp add: open_store_def migrate_def migration_versions(2))
  then have "(err = Some CheckVersion \<and> d' = d) \<or> migrate_loop exec fails (drop n migration_files) d = (err, d')"
    using migrate_loop_skip [OF assms(1)] valid(2) by (meson in_set_takeD subset_refl)
  then show ?thesis
  proof
    assume "err = Some CheckVersion \<and> d' = d"
    then show ?thesis using assms(1,2) by blast
  next
    assume go: "migrate_loop exec fails (drop n migration_files) d = (err, d')"
    obtain ran rest where r: "drop n migration_files = ran @ rest"
        "migrated_by exec s0 (take n migration_files @ ran) d'" "err = None \<longrightarrow> rest = []"
      using migrate_loop_runs [OF assms(1) _ _ _ go] valid by auto
    have "take n migration_files @ ran = take (n + length ran) migration_files"
      by (simp add: take_add r(1))
    moreover have "length ran + length rest = 5 - n" using arg_cong [OF r(1), of length] five by simp
    ultimately show ?thesis using r(2,3) assms(2) by (intro exI [of _ "n + length ran"]) auto
  qed
qed

fun open_attempts :: "(string \<Rightarrow> 's \<Rightarrow> 's option) \<Rightarrow> (open_call \<Rightarrow> bool) list \<Rightarrow> 's migrated \<Rightarrow> 's migrated" where
  "open_attempts exec [] d = d"
| "open_attempts exec (fails # rest) d = open_attempts exec rest (snd (open_store exec fails d))"

lemma open_attempts_step:
  assumes "migrated_by exec s0 (take n migration_files) d" and "n \<le> 5"
  shows "\<exists>m. n \<le> m \<and> m \<le> 5 \<and> migrated_by exec s0 (take m migration_files) (open_attempts exec attempts d)"
  using assms
proof (induction attempts arbitrary: n d)
  case (Cons fails rest)
  obtain err d' where o: "open_store exec fails d = (err, d')" by force
  obtain m where m: "n \<le> m" "m \<le> 5" "migrated_by exec s0 (take m migration_files) d'"
    using open_store_step [OF Cons.prems o] by blast
  then show ?case using Cons.IH [OF m(3,2)] o by (auto intro: le_trans)
qed auto

text \<open>C19. However often the server is started and wherever an attempt fails or dies, the scripts that have run on
  the database are a beginning of the list, each once and in the order of their numbers, exactly those
  recorded in \<open>schema_migrations\<close>; an attempt never takes one back; \<open>Open\<close> succeeds only when all five have
  run, and it does succeed, from whatever an earlier attempt has left, when nothing fails.\<close>

theorem migrations_in_order_once:
  assumes "open_attempts exec attempts \<lparr>mg_schema = s0, mg_versions = []\<rparr> = d" and "open_store exec fails d = (err, d')"
  shows "(\<exists>n m. n \<le> m \<and> m \<le> 5 \<and> mg_versions d = take n [1, 2, 3, 4, 5] \<and> mg_versions d' = take m [1, 2, 3, 4, 5] \<and>
      run_scripts exec (take m migration_files) s0 = Some (mg_schema d') \<and> (err = None \<longrightarrow> m = 5)) \<and>
    ((\<forall>c. \<not> fails c) \<and> run_scripts exec migration_files s0 \<noteq> None \<longrightarrow> err = None)"
proof -
  have five: "length migration_files = 5" by (simp add: migration_files_def)
  have "migrated_by exec s0 (take 0 migration_files) \<lparr>mg_schema = s0, mg_versions = []\<rparr>" using migrated_by_fresh by simp
  from open_attempts_step [OF this, of attempts]
  obtain n where n: "n \<le> 5" "migrated_by exec s0 (take n migration_files) d" unfolding assms(1) by auto
  obtain m where m: "n \<le> m" "m \<le> 5" "migrated_by exec s0 (take m migration_files) d'" "err = None \<longrightarrow> m = 5"
    using open_store_step [OF n(2,1) assms(2)] by blast
  have "err = None" if "\<forall>c. \<not> fails c" "run_scripts exec migration_files s0 \<noteq> None"
  proof -
    have calm: "fails = (\<lambda>_. False)" using that(1) by auto
    have all: "take n migration_files @ drop n migration_files = migration_files" by simp
    have "migrate_loop exec fails migration_files d = (err, d')"
      using assms(2) that(1) by (simp add: open_store_def migrate_def migration_versions(2))
    then have "migrate_loop exec fails (take n migration_files @ drop n migration_files) d = (err, d')" unfolding all .
    moreover have "fst (migrate_loop exec (\<lambda>_. False) (drop n migration_files) d) = None"
      by (rule migrate_loop_succeeds [OF n(2)]) (use migration_versions(3-5) that in \<open>simp_all only: all calm not_False_eq_True\<close>)
    moreover have "\<forall>k \<in> set (take n migration_files). script_version k \<noteq> None" 
      using migration_versions(4) by (meson in_set_takeD)
    moreover have "err \<noteq> Some CheckVersion"
      using migrate_loop_skip_calm [OF that(1)] calculation(1) by blast
    ultimately show ?thesis using migrate_loop_skip [OF n(2) subset_refl] unfolding calm by fastforce
  qed
  then show ?thesis using m n migrated_by_files [OF n(2)] migrated_by_files [OF m(3)] by blast
qed

theorem migrations_in_order_once_witness:
  "mg_versions (snd (open_store (\<lambda>_ n. Some (Suc n)) (\<lambda>_. False)
     (open_attempts (\<lambda>_ n. Some (Suc n)) [\<lambda>c. c = CommitScript 3] \<lparr>mg_schema = 0, mg_versions = []\<rparr>))) = [1, 2, 3, 4, 5]"
proof -
  let ?exec = "\<lambda>_ :: string. \<lambda>n :: nat. Some (Suc n)"
  let ?d = "open_attempts ?exec [\<lambda>c. c = CommitScript 3] \<lparr>mg_schema = 0, mg_versions = []\<rparr>"
  obtain err d' where o: "open_store ?exec (\<lambda>_. False) ?d = (err, d')" by force
  have "run_scripts ?exec migration_files 0 \<noteq> None" by (simp add: migration_files_def)
  then have "mg_versions d' = take 5 [1, 2, 3, 4, 5]"
    using migrations_in_order_once [OF refl o] by fastforce
  then show ?thesis using o by simp
qed

end
