(* ===== verification/Startup.thy ===== *)
theory Startup
  imports Routing Migrations
begin

text \<open>
  The server process (\<open>cmd/server/main.go\<close>): how it starts, the utilities of its command line, and what holds
  from its start on.  The configuration file, the environment, the outcome of creating the directory, the
  faults of the database and the answers of the outside world are inputs; bcrypt's generator is an argument.
\<close>

subsection \<open>Utilities\<close>

text \<open>\<open>base64.RawURLEncoding\<close>.\<close>

definition base64_url :: "string \<Rightarrow> string" where
  "base64_url s = map (\<lambda>c. if c = CHR ''+'' then CHR ''-'' else if c = CHR ''/'' then CHR ''_'' else c) (base64_encode s)"

record utility_io =
  ui_salt :: "string option"
  ui_bcrypt :: "string \<Rightarrow> string option"
  ui_secret :: "string option"
  ui_status :: "int option"
  ui_version :: string

text \<open>The exit status and the line printed; \<open>fatalUsage\<close> ends the process with status 2.\<close>

definition run_utility :: "(string \<Rightarrow> string \<Rightarrow> string) \<Rightarrow> utility_io \<Rightarrow> string \<Rightarrow> string list \<Rightarrow> int \<times> string option" where
  "run_utility idkey io command rest =
     (if command = ''hash-token'' then
        (case rest of
           [token] \<Rightarrow> (case hash_token idkey (ui_salt io) token of Inl _ \<Rightarrow> (2, None) | Inr v \<Rightarrow> (0, Some v))
         | _ \<Rightarrow> (2, None))
      else if command = ''hash-password'' then
        (case rest of
           [password] \<Rightarrow>
             if length password < 12 then (2, None)
             else (case ui_bcrypt io password of None \<Rightarrow> (2, None) | Some v \<Rightarrow> (0, Some v))
         | _ \<Rightarrow> (2, None))
      else if command = ''generate-secret'' then
        (case ui_secret io of None \<Rightarrow> (2, None) | Some bytes \<Rightarrow> (0, Some (base64_url bytes)))
      else if command = ''version'' then (0, Some (ui_version io))
      else if command = ''healthcheck'' then
        (case rest of
           [url] \<Rightarrow> (case ui_status io of None \<Rightarrow> (2, None) | Some status \<Rightarrow> if status \<noteq> 200 then (2, None) else (0, None))
         | _ \<Rightarrow> (2, None))
      else (2, None))"

lemma length_base64: "length (base64_encode s) = (4 * length s + 2) div 3"
  by (induction s rule: base64_encode.induct) simp_all

lemma hash_token_ok:
  assumes "hash_token idkey salt token = Inr v" and "\<forall>s. salt = Some s \<longrightarrow> length s = 16"
    and "\<forall>t s. length (idkey t s) = 32"
  shows "32 \<le> length token \<and> valid_token_hash v \<and> verify_token idkey token v"
proof -
  obtain s where s: "salt = Some s" "32 \<le> length token" "v = ''$argon2id$v=19$'' @ argon_parameters @ ''$'' @ base64_encode s @ ''$'' @
      base64_encode (idkey token s)"
    using assms(1) by (auto simp: hash_token_def split: if_splits option.splits)
  then show ?thesis using parse_encoded [of s "idkey token s"] assms(2,3) by (simp add: valid_token_hash_def verify_token_def)
qed

subsection \<open>Starting\<close>

record boot_io =
  bi_version_flag :: bool
  bi_args :: "string list"
  bi_utility :: utility_io
  bi_yaml :: "server_config \<Rightarrow> server_config option"
  bi_getenv :: "string \<Rightarrow> string"
  bi_from_first :: bool
  bi_mkdir_fails :: bool
  bi_open :: "open_call \<Rightarrow> bool"
  bi_sync :: faults
  bi_now :: gotime

datatype boot_result = Exits int "string option" | Runs server

definition start_server :: "server_lib \<Rightarrow> (string \<Rightarrow> db \<Rightarrow> db option) \<Rightarrow> boot_io \<Rightarrow> server_config \<Rightarrow> db migrated \<Rightarrow>
    boot_result \<times> db migrated" where
  "start_server p exec io c d =
     (if bi_mkdir_fails io then (Exits 1 None, d)
      else case open_store exec (bi_open io) d of
          (Some _, d1) \<Rightarrow> (Exits 1 None, d1)
        | (None, d1) \<Rightarrow>
            (case sync_agents (bi_sync io) (sc_agent_tokens c) (mg_schema d1) of
               (Some _, data) \<Rightarrow> (Exits 1 None, d1\<lparr>mg_schema := data\<rparr>)
             | (None, data) \<Rightarrow>
                 (case new_server (sl_lib p) c data (bi_now io) of
                    None \<Rightarrow> (Exits 1 None, d1\<lparr>mg_schema := data\<rparr>)
                  | Some s \<Rightarrow> (Runs s, d1\<lparr>mg_schema := data\<rparr>))))"

definition boot :: "server_lib \<Rightarrow> (string \<Rightarrow> db \<Rightarrow> db option) \<Rightarrow> boot_io \<Rightarrow> db migrated \<Rightarrow> boot_result \<times> db migrated" where
  "boot p exec io d =
     (if bi_version_flag io then (Exits 0 (Some (ui_version (bi_utility io))), d)
      else case bi_args io of
          command # rest \<Rightarrow> (case run_utility (sl_idkey p) (bi_utility io) command rest of (status, line) \<Rightarrow> (Exits status line, d))
        | [] \<Rightarrow>
            (case load_server (sl_lib p) (bi_yaml io) (bi_getenv io) (bi_from_first io) of
               Inl _ \<Rightarrow> (Exits 1 None, d)
             | Inr c \<Rightarrow> start_server p exec io c d))"

text \<open>The status at the end; a server that was shut down orderly reports \<open>None\<close>.\<close>

definition stop_status :: "string option \<Rightarrow> int" where
  "stop_status serve_error = (case serve_error of None \<Rightarrow> 0 | Some _ \<Rightarrow> 1)"

subsection \<open>What the start establishes\<close>

lemma migrate_loop_versions:
  "migrate_loop exec fails names d = (err, d') \<Longrightarrow> set (mg_versions d) \<subseteq> set (mg_versions d') \<and>
    (err = None \<longrightarrow> (\<forall>n \<in> set names. \<exists>v \<in> set (mg_versions d'). script_version n = Some v))"
proof (induction names arbitrary: d)
  case (Cons n names)
  show ?case
  proof (cases "script_version n")
    case None
    then show ?thesis using Cons.prems by auto
  next
    case (Some v)
    show ?thesis
    proof (cases "fails (CountVersion v)")
      case True
      then show ?thesis using Cons.prems Some by auto
    next
      case ok: False
      show ?thesis
      proof (cases "v \<in> set (mg_versions d)")
        case True
        then have "migrate_loop exec fails names d = (err, d')" using Cons.prems Some ok by simp
        from Cons.IH [OF this] show ?thesis using True Some by auto
      next
        case False
        obtain e d1 where a: "apply_script exec fails n v d = (e, d1)" by force
        show ?thesis
        proof (cases e)
          case None
          then have "mg_versions d1 = mg_versions d @ [v]" using a
            by (auto simp: apply_script_def split: if_splits option.splits)
          moreover have "migrate_loop exec fails names d1 = (err, d')" using Cons.prems Some ok False a None by simp
          ultimately show ?thesis using Cons.IH [of d1] Some by auto
        next
          case (Some e')
          then have "d1 = d" using a by (auto simp: apply_script_def split: if_splits option.splits)
          then show ?thesis using Cons.prems \<open>script_version n = Some v\<close> ok False a Some by auto
        qed
      qed
    qed
  qed
qed auto

lemma opened_versions:
  assumes "open_store exec fails d = (None, d')"
  shows "{1, 2, 3, 4, 5} \<subseteq> set (mg_versions d')"
proof -
  have "migrate_loop exec fails migration_files d = (None, d')"
    using assms by (simp add: open_store_def migrate_def migration_versions(2) split: if_splits)
  then have "\<forall>n \<in> set migration_files. \<exists>v \<in> set (mg_versions d'). script_version n = Some v"
    using migrate_loop_versions by blast
  then have "set (map script_version migration_files) \<subseteq> Some ` set (mg_versions d')" by auto
  then show ?thesis unfolding migration_versions(1) by auto
qed

lemma sync_tokens: "sync_agents fails tokens d = (None, d') \<Longrightarrow> db_tokens d' = tokens"
  using sync_agents_cases [of fails tokens d None d'] by auto

lemma new_server_some:
  assumes "load_server (sl_lib p) yaml getenv from_first = Inr c"
  shows "\<exists>s. new_server (sl_lib p) c d now = Some s"
  using loaded_proxy [OF assms] by (cases "sc_trusted_proxy c = []") (auto simp: new_server_def Let_def)

lemma new_server_fields:
  assumes "new_server lib c d now = Some s"
  shows "sv_cfg s = c" "sv_db s = d" "ss_items (sv_sessions s) = []" "sv_outbox s = []"
    "sv_proxy s = (if sc_trusted_proxy c = [] then None else gl_parse_cidr lib (sc_trusted_proxy c))"
  using assms by (auto simp: new_server_def Let_def new_sessions_def split: if_splits option.splits)

subsection \<open>What stays while the server runs\<close>

definition provisioned :: "(string \<times> string) list \<Rightarrow> db \<Rightarrow> bool" where
  "provisioned tokens d \<longleftrightarrow> db_ok d \<and> db_tokens d = tokens"

lemma update_alerts_tokens [simp]: "db_tokens (update_alerts P f d) = db_tokens d"
  by (simp add: update_alerts_def)

lemma mark_tokens: "db_tokens (snd (mark_alert_delivery fails a v now d)) = db_tokens d"
  by (auto simp: mark_alert_delivery_def mark_alert_notification_if_def)

lemma apply_rule_tokens: "db_tokens (snd (apply_rule fails e now clock d)) = db_tokens d"
  using apply_rule_tx_reports [of fails e now clock d]
  by (auto simp: apply_rule_def split: sum.splits prod.splits)

lemma audit_tokens: "audit_tx fails actor action targ details clock d = Inr d' \<Longrightarrow> db_tokens d' = db_tokens d"
  by (auto simp: audit_tx_def split: if_splits)

lemma acknowledge_tokens: "db_tokens (snd (acknowledge_alert fails n actor now clock d)) = db_tokens d"
  by (auto simp: acknowledge_alert_def Let_def dest: audit_tokens split: sum.splits)

text \<open>Only \<open>SyncAgents\<close> changes the tokens.\<close>

lemma store_do_tokens:
  assumes "\<forall>tokens. x \<noteq> SyncAgents tokens"
  shows "db_tokens (store_do env fails x d) = db_tokens d"
proof (cases x)
  case (SaveReport r seen received)
  obtain err d' where s: "save_report fails (sv_encode env) r seen received d = (err, d')" by force
  then have "db_tokens d' = db_tokens d" by (cases rule: save_report_cases) simp_all
  then show ?thesis using s SaveReport by simp
next
  case (Maintain now raw agg)
  obtain err d' where m: "maintain fails (sv_avg env) (sv_hour_text env) now raw agg d = (err, d')" by force
  then show ?thesis using maintain_cases [OF m] Maintain by (auto simp: maintained_def)
qed (use assms in \<open>simp_all add: apply_rule_tokens mark_tokens acknowledge_tokens save_notification_preferences_def\<close>)

lemma store_run_provisioned:
  "others_all xs \<Longrightarrow> provisioned tokens d \<Longrightarrow> provisioned tokens (store_run env xs d)"
proof (induction xs arbitrary: d)
  case (Cons x xs)
  obtain fails y where x: "x = (fails, y)" by force
  then have "others_op y" "others_all xs" using Cons.prems(1) by (auto simp: others_all_def)
  moreover from this have "\<forall>tokens. y \<noteq> SyncAgents tokens" by (auto simp: others_op_def)
  then have "provisioned tokens (store_do env fails y d)"
    using Cons.prems(2) store_do_tokens [of y env fails d] store_do_ok [of d env fails y] by (simp add: provisioned_def)
  ultimately show ?case using Cons.IH [of "store_do env fails y d"] by (simp add: store_run_def x)
qed (simp add: store_run_def)

lemma other_steps_provisioned: "other_steps env d d' \<Longrightarrow> provisioned tokens d \<Longrightarrow> provisioned tokens d'"
  using store_run_provisioned by (auto simp: other_steps_def)

lemma mark_provisioned: "provisioned tokens d \<Longrightarrow> provisioned tokens (snd (mark_alert_delivery fails a v now d))"
  by (simp add: provisioned_def mark_ok mark_tokens)

lemma notify_one_provisioned:
  assumes "provisioned tokens (fst st)" and "others_only io"
  shows "provisioned tokens (fst (notify_one env c q reports io a st))"
proof -
  have "others_all (mi_before io)" "others_all (mi_during io)" using assms(2) by (auto simp: others_only_def others_all_def)
  then show ?thesis using assms(1)
    by (auto simp: notify_one_def Let_def store_run_provisioned mark_provisioned split: prod.splits sum.splits)
qed

lemma notify_alerts_provisioned:
  "provisioned tokens (fst st) \<Longrightarrow> \<forall>n. others_only (io n) \<Longrightarrow> provisioned tokens (fst (notify_alerts env c q reports io as st))"
  by (induction as arbitrary: st) (simp_all add: notify_one_provisioned)

lemma process_notifications_provisioned:
  assumes "provisioned tokens (sv_db s)" and "pass_others io"
  shows "provisioned tokens (sv_db (process_notifications env p io s))"
proof -
  have "provisioned tokens d"
    if "notify_alerts env (sv_cfg s) q reports (pi_alert io) pending (sv_db s, sv_outbox s) = (d, out)" for q reports pending d out
    using notify_alerts_provisioned [of tokens "(sv_db s, sv_outbox s)" "pi_alert io" env "sv_cfg s" q reports pending] that assms
    by (simp add: pass_others_def)
  then show ?thesis using assms(1) by (auto simp: process_notifications_def split: sum.splits prod.splits)
qed

lemma server_do_provisioned:
  assumes "provisioned tokens (sv_db s)" and "event_deliveries_ok e"
  shows "provisioned tokens (sv_db (snd (server_do p e s)))"
proof (cases "\<exists>e'. e = NotifyLoop e'")
  case False
  then show ?thesis using server_do_change [of e p s] other_steps_provisioned assms(1) by (auto simp: change_ok_def)
next
  case True
  then obtain e' where e: "e = NotifyLoop e'" by blast
  have "provisioned tokens (sv_db (run_event_do (lib_env p) p e' s))"
  proof (cases e')
    case (OfflineTick now sio io)
    have "provisioned tokens (snd (evaluate_offline (sv_engine s) sio now (sv_db s)))"
      by (rule other_steps_provisioned [OF engine_steps(2) assms(1)])
    then show ?thesis using OfflineTick assms(2) e by (simp add: process_notifications_provisioned)
  qed (use assms e in \<open>simp_all add: process_notifications_provisioned\<close>)
  then show ?thesis using e by simp
qed

lemma server_run_provisioned:
  "provisioned tokens (sv_db s) \<Longrightarrow> \<forall>e \<in> set es. event_deliveries_ok e \<Longrightarrow> provisioned tokens (sv_db (server_run p es s))"
  by (induction es arbitrary: s) (simp_all add: server_do_provisioned)

subsection \<open>Properties\<close>



text \<open>The first start on an empty database, and a generated secret.\<close>

definition demo_utility_io :: utility_io where
  "demo_utility_io = \<lparr>ui_salt = Some (replicate 16 CHR ''s''), ui_bcrypt = (\<lambda>_. None), ui_secret = Some (replicate 32 CHR ''r''),
     ui_status = None, ui_version = ''1.0''\<rparr>"

definition demo_boot_io :: boot_io where
  "demo_boot_io = \<lparr>bi_version_flag = False, bi_args = [], bi_utility = demo_utility_io, bi_yaml = demo_yaml (Fin 90),
     bi_getenv = (\<lambda>_. []), bi_from_first = True, bi_mkdir_fails = False, bi_open = (\<lambda>_. False), bi_sync = (\<lambda>_. False),
     bi_now = demo_now\<rparr>"

lemma demo_opens:
  "open_store (\<lambda>_. Some) (\<lambda>_. False) \<lparr>mg_schema = d, mg_versions = []\<rparr> = (None, \<lparr>mg_schema = d, mg_versions = [1, 2, 3, 4, 5]\<rparr>)"
proof -
  have "script_version ''001_initial.sql'' = Some 1" "script_version ''002_hourly_metrics.sql'' = Some 2"
    "script_version ''003_alert_state_machine.sql'' = Some 3" "script_version ''004_alert_consecutive_count.sql'' = Some 4"
    "script_version ''005_notification_preferences.sql'' = Some 5"
    using migration_versions(1) by (simp_all add: migration_files_def)
  then show ?thesis unfolding open_store_def migrate_def migration_versions(2) by (simp add: migration_files_def apply_script_def)
qed



end
