(* ===== verification/Delivery.thy ===== *)
theory Delivery
  imports Startup
begin

text \<open>
  One agent and the server together, over a network that may lose any answer: what becomes of a report from
  its collection to the reports table.  The agent is the one of \<open>Agent\<close>; its attempts are requests that go
  through the server's routes (\<open>Routing\<close>); the server handles any other requests in between, and either
  side may be restarted at any point (\<open>Startup\<close>).  \<open>wd_rows\<close> and \<open>wd_refused\<close> are histories: the rows the
  agent's requests have added to the reports table, and the reports whose refusal (400 or 422) has reached the agent.
\<close>

subsection \<open>Both programs and the network\<close>

record world =
  wd_agent :: agent
  wd_server :: server
  wd_rows :: "report_row list"
  wd_refused :: "report list"

text \<open>The newest number the database knows of an agent.\<close>

definition last_number :: "string \<Rightarrow> db \<Rightarrow> int" where
  "last_number name d = (case amap_get (db_agents d) name of None \<Rightarrow> 0 | Some g \<Rightarrow> gr_last_sequence g)"

text \<open>A database that all migrations have run on.\<close>

definition current_database :: "db \<Rightarrow> db migrated" where
  "current_database d = \<lparr>mg_schema = d, mg_versions = [1, 2, 3, 4, 5]\<rparr>"

text \<open>\<open>Exchange io q arrives\<close>: the request reaches the server, with the header fields of \<open>q\<close>, and its answer
  reaches the agent only if \<open>arrives\<close>.  Requests that never reach the server are attempts that fail.\<close>

datatype world_event =
    AgentDoes event
  | Exchange serve_io request bool
  | ServerDoes server_event
  | ServerRestarts "string \<Rightarrow> db \<Rightarrow> db option" boot_io server_config

fun local_event :: "event \<Rightarrow> bool" where
  "local_event (Attempt x) \<longleftrightarrow> x = TransportFails"
| "local_event _ \<longleftrightarrow> True"

definition exchange :: "agent_env \<Rightarrow> server_lib \<Rightarrow> serve_io \<Rightarrow> request \<Rightarrow> bool \<Rightarrow> report \<Rightarrow> world \<Rightarrow> world option" where
  "exchange e p io q arrives r w =
     (case ae_encode e r of
        None \<Rightarrow> None
      | Some body \<Rightarrow>
          (case serve p io ''POST'' ''/api/v1/reports'' (q\<lparr>rq_body := body\<rparr>) (wd_server w) of
             (_, resp, s) \<Rightarrow>
               (case agent_do e (Attempt (if arrives then Response (rs_status resp) else TransportFails)) (wd_agent w) of
                  None \<Rightarrow> None
                | Some a \<Rightarrow> Some \<lparr>wd_agent = a, wd_server = s,
                    wd_rows = wd_rows w @ drop (length (db_reports (sv_db (wd_server w)))) (db_reports (sv_db s)),
                    wd_refused = wd_refused w @ (if arrives \<and> rs_status resp \<in> {400, 422} then [r] else [])\<rparr>)))"

text \<open>Nobody else stores reports under the agent's name: they would need its token.\<close>

fun world_do :: "agent_env \<Rightarrow> server_lib \<Rightarrow> world_event \<Rightarrow> world \<Rightarrow> world option" where
  "world_do e p (AgentDoes ev) w =
     (if local_event ev then map_option (\<lambda>a. w\<lparr>wd_agent := a\<rparr>) (agent_do e ev (wd_agent w)) else None)"
| "world_do e p (Exchange io q arrives) w =
     (case ag_phase (wd_agent w) of Sending r _ \<Rightarrow> exchange e p io q arrives r w | _ \<Rightarrow> None)"
| "world_do e p (ServerDoes ev) w =
     (let s = snd (server_do p ev (wd_server w)) in
      if last_number (ae_agent_id e) (sv_db s) = last_number (ae_agent_id e) (sv_db (wd_server w))
      then Some (w\<lparr>wd_server := s\<rparr>) else None)"
| "world_do e p (ServerRestarts exec io c) w =
     (case start_server p exec io c (current_database (sv_db (wd_server w))) of
        (Runs s, _) \<Rightarrow> Some (w\<lparr>wd_server := s\<rparr>)
      | _ \<Rightarrow> None)"

fun world_ok :: "agent_env \<Rightarrow> world_event \<Rightarrow> world \<Rightarrow> bool" where
  "world_ok e (AgentDoes ev) w \<longleftrightarrow> event_ok e ev (wd_agent w)"
| "world_ok e (ServerDoes ev) w \<longleftrightarrow> event_deliveries_ok ev"
| "world_ok e _ w \<longleftrightarrow> True"

text \<open>At first the agent has never run, and the server knows no report of it.\<close>

inductive world_reachable :: "agent_env \<Rightarrow> server_lib \<Rightarrow> world \<Rightarrow> bool" for e p where
  new: "db_ok (sv_db s) \<Longrightarrow> last_number (ae_agent_id e) (sv_db s) = 0 \<Longrightarrow>
    world_reachable e p \<lparr>wd_agent = agent_off e, wd_server = s, wd_rows = [], wd_refused = []\<rparr>"
| step: "world_reachable e p w \<Longrightarrow> world_ok e x w \<Longrightarrow> world_do e p x w = Some w' \<Longrightarrow> world_reachable e p w'"

text \<open>A report is stored when a row with its number carries it as payload.\<close>

definition stored_report :: "agent_env \<Rightarrow> server_lib \<Rightarrow> world \<Rightarrow> report \<Rightarrow> bool" where
  "stored_report e p w r \<longleftrightarrow> (\<exists>row \<in> set (wd_rows w). rr_agent_id row = ae_agent_id e \<and>
     rr_sequence row = uint (rep_sequence r) \<and> sl_encode p r = Some (rr_payload row))"

subsection \<open>What a restart of the server keeps\<close>

lemma sync_loop_last: "sync_loop fails items d = Inr d' \<Longrightarrow> last_number name d' = last_number name d"
proof (induction fails items d rule: sync_loop.induct)
  case (2 fails agent hash items d)
  have put: "last_number name (d\<lparr>db_agents := amap_put agent g (db_agents d)\<rparr>) = last_number name d"
    if "amap_get (db_agents d) agent = None" "gr_last_sequence g = 0" for g
    using that by (simp add: last_number_def amap.get_put)
  have tok: "last_number name (x\<lparr>db_tokens := ts\<rparr>) = last_number name x" for x ts by (simp add: last_number_def)
  show ?case using 2 put by (auto simp: Let_def tok split: if_splits)
qed simp

lemma sync_agents_last: "sync_agents fails tokens d = (err, d') \<Longrightarrow> last_number name d' = last_number name d"
  using sync_loop_last [of fails tokens "d\<lparr>db_tokens := []\<rparr>" _ name]
  by (auto simp: sync_agents_def last_number_def split: sum.splits if_splits)

lemma migrate_loop_current:
  "\<forall>n \<in> set names. \<exists>v \<in> set (mg_versions d). script_version n = Some v \<Longrightarrow> migrate_loop exec fails names d = (err, d') \<Longrightarrow> d' = d"
  by (induction names) (auto split: if_splits)

lemma open_current: "open_store exec fails (current_database d) = (err, d') \<Longrightarrow> d' = current_database d"
proof -
  have "\<forall>v \<in> set (map script_version migration_files). \<exists>x \<in> set (mg_versions (current_database d)). v = Some x"
    unfolding migration_versions(1) by (simp add: current_database_def)
  then have "\<forall>n \<in> set migration_files. \<exists>x \<in> set (mg_versions (current_database d)). script_version n = Some x" by simp
  then show "open_store exec fails (current_database d) = (err, d') \<Longrightarrow> d' = current_database d"
    using migrate_loop_current [of migration_files "current_database d" exec fails err d']
    by (auto simp: open_store_def migrate_def migration_versions(2) split: if_splits)
qed

lemma restart_keeps:
  assumes "start_server p exec io c (current_database d) = (Runs s, d')" and "db_ok d"
  shows "db_ok (sv_db s) \<and> last_number name (sv_db s) = last_number name d"
proof -
  obtain err d1 where o: "open_store exec (bi_open io) (current_database d) = (err, d1)" by force
  have d1: "d1 = current_database d" by (rule open_current [OF o])
  obtain serr data where s: "sync_agents (bi_sync io) (sc_agent_tokens c) d = (serr, data)" by force
  have "new_server (sl_lib p) c data (bi_now io) = Some s"
    using assms(1) o s unfolding start_server_def d1
    by (cases err; cases serr) (auto simp: current_database_def split: if_splits option.splits)
  then have "sv_db s = data" by (rule new_server_fields)
  then show ?thesis using sync_agents_last [OF s] sync_agents_ok [OF assms(2), of "bi_sync io" "sc_agent_tokens c"] s by simp
qed

subsection \<open>What an event of the agent does to its reports\<close>

text \<open>The numbers go on, new reports have a newer number and the agent's name, and a delivery starts with the
  oldest report.\<close>

definition agent_progress :: "agent_env \<Rightarrow> agent \<Rightarrow> agent \<Rightarrow> bool" where
  "agent_progress e a b \<longleftrightarrow>
     sq_value (ag_sequence a) \<le> sq_value (ag_sequence b) \<and>
     (\<forall>q \<in> set (spooled e b). q \<in> set (spooled e a) \<or>
        sq_value (ag_sequence a) < rep_sequence q \<and> rep_agent_id q = ae_agent_id e) \<and>
     (\<forall>r. in_flight (ag_phase b) = Some r \<longrightarrow> in_flight (ag_phase a) = Some r \<or>
        (\<exists>rs. spooled e a = r # rs \<and> spooled e b = r # rs))"

lemma collect_progress:
  assumes "agent_inv e a" and "event_ok e (Collect env io metrics results) a"
  shows "agent_progress e a (collect (ae_encode e) (ae_agent_id e) env io metrics results a)"
proof (cases rule: collect_effect [OF assms refl])
  case (1 sq sp)
  have old: "spooled e (collect (ae_encode e) (ae_agent_id e) env io metrics results a) = spooled e a \<or>
      (\<exists>r n. spooled e (collect (ae_encode e) (ae_agent_id e) env io metrics results a) = drop n (spooled e a @ [r]) \<and>
        sq_value (ag_sequence a) < rep_sequence r \<and> rep_agent_id r = ae_agent_id e)"
    using 1(7) by blast
  then have "\<forall>q \<in> set (spooled e (collect (ae_encode e) (ae_agent_id e) env io metrics results a)).
      q \<in> set (spooled e a) \<or> sq_value (ag_sequence a) < rep_sequence q \<and> rep_agent_id q = ae_agent_id e"
    by (auto dest!: in_set_dropD)
  then show ?thesis unfolding agent_progress_def 1(1) using 1(1,3) by simp
qed

lemma start_progress:
  assumes "agent_inv e a"
  shows "agent_progress e a (start_agent (ae_directory e) (ae_queue_size e) env io a)"
proof -
  let ?b = "start_agent (ae_directory e) (ae_queue_size e) env io a"
  note i = assms [unfolded agent_inv_def]
  have wf: "spool_wf (ae_decode e) (sp_dir (ag_spool a))" using i by simp
  obtain x d where n: "new_spool env (ae_directory e) (ae_queue_size e) (sp_dir (ag_spool a)) = (x, d)" by force
  have "sp_dir (ag_spool ?b) = sp_dir (ag_spool a) \<or> sp_dir (ag_spool ?b) = d"
    using n new_spool_queue(1) [OF wf, of env "ae_directory e" "ae_queue_size e"]
    by (auto simp: start_agent_def Let_def split: sum.splits)
  moreover have "set (queue (ae_decode e) d) \<subseteq> set (spooled e a)"
    using new_spool_error_queue [OF wf n] by (auto dest: in_set_dropD)
  ultimately have q: "set (spooled e ?b) \<subseteq> set (spooled e a)" by auto
  have "sq_value (ag_sequence a) \<le> sq_value (ag_sequence ?b)"
    using i new_sequence_content [of io "sq_file (ag_sequence a)"]
    by (auto simp: start_agent_def Let_def sequence_ok_def split: sum.splits prod.splits)
  moreover have "in_flight (ag_phase ?b) = None"
    by (auto simp: start_agent_def Let_def split: sum.splits prod.splits)
  ultimately show ?thesis using q by (auto simp: agent_progress_def)
qed

lemma agent_event_progress:
  assumes "agent_inv e a" and "event_ok e ev a" and "agent_do e ev a = Some b"
  shows "agent_progress e a b"
proof (cases ev)
  case (Collect env io metrics results)
  then show ?thesis using assms collect_progress [of e a env io metrics results] by (auto split: if_splits)
next
  case (Restart env io)
  then show ?thesis using assms start_progress by auto
next
  case (PeekSpool env)
  then show ?thesis using assms(3) peek_Some [of "ae_decode e" "ag_spool a" env] assms(1)
    by (auto simp: agent_progress_def agent_inv_def split: phase.splits sum.splits option.splits)
next
  case (AckSpool env)
  have "q \<in> set (queue (ae_decode e) (sp_dir (snd (acknowledge env n (ag_spool a))))) \<Longrightarrow> q \<in> set (spooled e a)" for q n
    using spool.ack_no_new [of "ae_decode e" "ag_spool a" env n] assms(1) by (auto simp: agent_inv_def)
  then show ?thesis using assms(3) AckSpool
    by (auto simp: agent_progress_def case_prod_beta split: phase.splits)
qed (use assms(3) in \<open>auto simp: agent_progress_def split: phase.splits if_splits prod.splits option.splits bool.splits\<close>)

lemma local_event_history:
  "local_event ev \<Longrightarrow> agent_do e ev a = Some b \<Longrightarrow> ag_delivered b = ag_delivered a \<and> ag_rejected b = ag_rejected a"
  by (cases ev)
    (auto simp: collect_def start_agent_def Let_def
      split: phase.splits if_splits prod.splits option.splits bool.splits sum.splits)

subsection \<open>What a request does to the server\<close>

lemma serve_report:
  "serve p io ''POST'' ''/api/v1/reports'' r s =
     (security_headers (sv_cfg s), ingest p (si_ingest io) (r\<lparr>rq_path_id := []\<rparr>) s)"
  by (cases "ingest p (si_ingest io) (r\<lparr>rq_path_id := []\<rparr>) s")
    (simp add: serve_def route_examples(7) endpoint_do_def)

text \<open>The server stored the report, or its database is as before; and it gives an answer that ends the delivery
  only when it stored the report, refuses it for good, or knows its number already.\<close>

lemma ingest_answer:
  assumes "ingest p io q s = (resp, s')" and ok: "db_ok (sv_db s)"
    and codec: "\<And>r'. decode_body p (rq_body q) = Some r' \<Longrightarrow> r' = r"
  obtains (taken) row where "rs_status resp = 202" "db_ok (sv_db s')"
      "last_number (rep_agent_id r) (sv_db s) < uint (rep_sequence r)"
      "last_number (rep_agent_id r) (sv_db s') = uint (rep_sequence r)"
      "db_reports (sv_db s') = db_reports (sv_db s) @ [row]" "rr_agent_id row = rep_agent_id r"
      "rr_sequence row = uint (rep_sequence r)" "sl_encode p r = Some (rr_payload row)"
    | (kept) "rs_status resp \<in> {400, 401, 409, 422, 429, 500}" "sv_db s' = sv_db s"
      "rs_status resp = 409 \<longrightarrow> uint (rep_sequence r) \<le> last_number (rep_agent_id r) (sv_db s)"
proof -
  have db': "db_ok (sv_db s')"
    using ingest_change [OF assms(1)] ok other_steps_backed by (auto simp: change_ok_def)
  from assms(1) show thesis
  proof (cases rule: ingest_cases)
    case (refused l)
    then show ?thesis using kept by auto
  next
    case (unsaved l rep err)
    have "rep = r" by (rule codec [OF unsaved(3)])
    moreover obtain g where g: "amap_get (db_agents (sv_db s)) (rep_agent_id rep) = Some g"
      using authorised_known [OF ok unsaved(5)] by blast
    moreover have "err = Replay \<Longrightarrow> uint (rep_sequence rep) \<le> gr_last_sequence g"
      using save_report_replay unsaved(6) g by blast
    ultimately show ?thesis using unsaved(1,2) kept by (auto simp: last_number_def split: if_splits)
  next
    case (saved l rep d)
    have rep: "rep = r" by (rule codec [OF saved(3)])
    have db: "db_reports (sv_db s') = db_reports d" "db_agents (sv_db s') = db_agents d"
      unfolding saved(1) by (simp_all add: after_save_db)
    from saved(6) show ?thesis
    proof (cases rule: save_report_cases)
      case stored: (saved payload g)
      have "last_number (rep_agent_id r) (sv_db s) < uint (rep_sequence r)"
        using stored rep by (simp add: last_number_def)
      moreover have "last_number (rep_agent_id r) (sv_db s') = uint (rep_sequence r)"
        unfolding last_number_def db stored(5) rep by (simp add: amap.get_put)
      moreover have "db_reports (sv_db s') = db_reports (sv_db s) @ [report_row_of r payload (ii_saved io) (db_next_report (sv_db s))]"
        unfolding db stored(5) rep by simp
      ultimately show ?thesis using taken [OF saved(2) db'] stored(2) rep by (simp add: report_row_of_def)
    qed simp
  qed
qed

subsection \<open>The invariant\<close>

text \<open>The reports that may still be sent; what the server's newest number says about them; and that the report
  under way is the oldest one.\<close>

definition waiting :: "agent_env \<Rightarrow> agent \<Rightarrow> report set" where
  "waiting e a = set (spooled e a) \<union> set_option (in_flight (ag_phase a))"

definition numbers_ok :: "agent_env \<Rightarrow> int \<Rightarrow> (report \<Rightarrow> bool) \<Rightarrow> agent \<Rightarrow> bool" where
  "numbers_ok e known S a \<longleftrightarrow> known \<le> uint (sq_value (ag_sequence a)) \<and>
     (\<forall>q \<in> waiting e a. rep_agent_id q = ae_agent_id e \<and> (uint (rep_sequence q) \<le> known \<longrightarrow> S q)) \<and>
     (\<forall>r. in_flight (ag_phase a) = Some r \<longrightarrow> (\<forall>q \<in> set (spooled e a). rep_sequence r \<le> rep_sequence q))"

lemma numbers_progress:
  assumes "agent_inv e a" and "agent_progress e a b" and "numbers_ok e known S a"
  shows "numbers_ok e known S b"
proof -
  note i = assms(1) [unfolded agent_inv_def] and g = assms(2) [unfolded agent_progress_def] and n = assms(3) [unfolded numbers_ok_def]
  have flight: "rep_sequence r \<le> sq_value (ag_sequence a)" if "in_flight (ag_phase a) = Some r" for r
    using i that by (simp add: flight_ok_def)
  have mono: "uint (sq_value (ag_sequence a)) \<le> uint (sq_value (ag_sequence b))" using g by (simp add: word_le_def)
  have new: "\<not> uint (rep_sequence q) \<le> known" if "sq_value (ag_sequence a) < rep_sequence q" for q
    using that n by (simp add: word_less_def)
  have wait: "q \<in> waiting e a \<or> sq_value (ag_sequence a) < rep_sequence q \<and> rep_agent_id q = ae_agent_id e"
    if q: "q \<in> waiting e b" for q
  proof -
    consider "q \<in> set (spooled e b)" | "in_flight (ag_phase b) = Some q" using q by (auto simp: waiting_def)
    then show ?thesis
    proof cases
      case 1
      then show ?thesis using g by (auto simp: waiting_def)
    next
      case 2
      then have "in_flight (ag_phase a) = Some q \<or> (\<exists>rs. spooled e a = q # rs)" using g by blast
      then show ?thesis by (auto simp: waiting_def)
    qed
  qed
  have old: "rep_sequence r \<le> rep_sequence q" if r: "in_flight (ag_phase b) = Some r" and q: "q \<in> set (spooled e b)" for r q
  proof (cases "in_flight (ag_phase a) = Some r")
    case True
    have "q \<in> set (spooled e a) \<or> sq_value (ag_sequence a) < rep_sequence q" using g q by blast
    then show ?thesis using n True flight [OF True] by (auto intro: order_trans less_imp_le)
  next
    case False
    then obtain rs where rs: "spooled e a = r # rs" "spooled e b = r # rs" using g r by blast
    have "sorted_wrt (\<lambda>x y. rep_sequence x < rep_sequence y) (r # rs)"
      using i strict_sorted_queue [of "ae_decode e" "sp_dir (ag_spool a)"] rs by simp
    then show ?thesis using q rs(2) by auto
  qed
  show ?thesis unfolding numbers_ok_def using n mono wait new old by (meson order_trans)
qed

lemma numbers_taken:
  assumes "agent_inv e a" and "numbers_ok e known S a" and "in_flight (ag_phase a) = Some r"
    and "\<And>q. S q \<Longrightarrow> S' q" and "S' r" and "known < uint (rep_sequence r)"
  shows "numbers_ok e (uint (rep_sequence r)) S' a"
proof -
  note n = assms(2) [unfolded numbers_ok_def]
  have f: "rep_sequence r \<le> sq_value (ag_sequence a)" "\<forall>q \<in> set (spooled e a). rep_sequence q = rep_sequence r \<longrightarrow> q = r"
    using assms(1,3) by (auto simp: agent_inv_def flight_ok_def)
  have "S' q" if q: "q \<in> waiting e a" "uint (rep_sequence q) \<le> uint (rep_sequence r)" for q
  proof (cases "q \<in> set (spooled e a)")
    case True
    then have "rep_sequence q = rep_sequence r" using n assms(3) q(2) by (simp add: word_le_def word_uint_eq_iff antisym)
    then show ?thesis using f(2) True assms(5) by blast
  next
    case False
    then have "q = r" using q(1) assms(3) by (simp add: waiting_def)
    then show ?thesis using assms(5) by simp
  qed
  then show ?thesis using n f(1) assms(3) by (auto simp: numbers_ok_def word_le_def)
qed

lemma numbers_kept: "numbers_ok e known S a \<Longrightarrow> (\<And>q. S q \<Longrightarrow> S' q) \<Longrightarrow> numbers_ok e known S' a"
  by (auto simp: numbers_ok_def)

definition rows_ok :: "int \<Rightarrow> report_row list \<Rightarrow> bool" where
  "rows_ok known rows \<longleftrightarrow> sorted_wrt (<) (map rr_sequence rows) \<and> (\<forall>row \<in> set rows. rr_sequence row \<le> known)"

lemma rows_taken: "rows_ok known rows \<Longrightarrow> known < rr_sequence row \<Longrightarrow> rows_ok (rr_sequence row) (rows @ [row])"
  by (fastforce simp: rows_ok_def sorted_wrt_append)

definition answered_ok :: "agent_env \<Rightarrow> server_lib \<Rightarrow> world \<Rightarrow> bool" where
  "answered_ok e p w \<longleftrightarrow> (\<forall>r \<in> set (ag_delivered (wd_agent w)) \<union> set (ag_rejected (wd_agent w)).
     stored_report e p w r \<or> r \<in> set (wd_refused w))"

definition world_inv :: "agent_env \<Rightarrow> server_lib \<Rightarrow> world \<Rightarrow> bool" where
  "world_inv e p w \<longleftrightarrow> agent_inv e (wd_agent w) \<and> db_ok (sv_db (wd_server w)) \<and>
     numbers_ok e (last_number (ae_agent_id e) (sv_db (wd_server w))) (stored_report e p w) (wd_agent w) \<and>
     rows_ok (last_number (ae_agent_id e) (sv_db (wd_server w))) (wd_rows w) \<and> answered_ok e p w"

lemma stored_cong: "wd_rows w' = wd_rows w \<Longrightarrow> stored_report e p w' = stored_report e p w"
  by (auto simp: stored_report_def fun_eq_iff)

text \<open>The server reads from a request what the agent wrote, or refuses the body.\<close>

definition codec_agrees :: "agent_env \<Rightarrow> server_lib \<Rightarrow> bool" where
  "codec_agrees e p \<longleftrightarrow> (\<forall>r body r'. ae_encode e r = Some body \<and> decode_body p body = Some r' \<longrightarrow> r' = r)"

lemma attempt_history:
  assumes "ag_phase a = Sending r d" and "agent_do e (Attempt x) a = Some b"
    and "y \<in> set (ag_delivered b) \<union> set (ag_rejected b)"
  shows "y \<in> set (ag_delivered a) \<union> set (ag_rejected a) \<or> y = r \<and> \<not> fst (send x)"
  using assms send_retry [of x] by (auto split: prod.splits option.splits bool.splits if_splits)

lemma answer_ends: "\<not> fst (send (Response status)) \<Longrightarrow> status \<in> {202, 400, 401, 409, 422, 429, 500} \<Longrightarrow> status \<in> {202, 400, 409, 422}"
  by (auto simp: retry_status_def)

text \<open>The parts of an exchange, and what it adds to the reports the agent has done with.\<close>

lemma exchange_parts:
  assumes "exchange e p io q arrives r w = Some w'"
  obtains body resp s b where "ae_encode e r = Some body"
    "ingest p (si_ingest io) (q\<lparr>rq_body := body, rq_path_id := []\<rparr>) (wd_server w) = (resp, s)"
    "agent_do e (Attempt (if arrives then Response (rs_status resp) else TransportFails)) (wd_agent w) = Some b"
    "w' = \<lparr>wd_agent = b, wd_server = s,
      wd_rows = wd_rows w @ drop (length (db_reports (sv_db (wd_server w)))) (db_reports (sv_db s)),
      wd_refused = wd_refused w @ (if arrives \<and> rs_status resp \<in> {400, 422} then [r] else [])\<rparr>"
proof -
  obtain body where body: "ae_encode e r = Some body" using assms by (auto simp: exchange_def split: option.splits)
  obtain resp s where ing: "ingest p (si_ingest io) (q\<lparr>rq_body := body, rq_path_id := []\<rparr>) (wd_server w) = (resp, s)" by force
  then show thesis using assms that [OF body ing]
    by (auto simp: exchange_def body serve_report ing simp del: agent_do.simps split: option.splits)
qed

lemma exchange_answered:
  assumes "answered_ok e p w" and "ag_phase (wd_agent w) = Sending r d"
    and "agent_do e (Attempt x) (wd_agent w) = Some (wd_agent w')"
    and "set (wd_rows w) \<subseteq> set (wd_rows w')" and "set (wd_refused w) \<subseteq> set (wd_refused w')"
    and r: "\<not> fst (send x) \<Longrightarrow> stored_report e p w' r \<or> r \<in> set (wd_refused w')"
  shows "answered_ok e p w'"
  unfolding answered_ok_def
proof
  fix y assume "y \<in> set (ag_delivered (wd_agent w')) \<union> set (ag_rejected (wd_agent w'))"
  then consider "y \<in> set (ag_delivered (wd_agent w)) \<union> set (ag_rejected (wd_agent w))" | "y = r" "\<not> fst (send x)"
    using attempt_history [OF assms(2,3)] by blast
  then show "stored_report e p w' y \<or> y \<in> set (wd_refused w')"
  proof cases
    case 1
    then have "stored_report e p w y \<or> y \<in> set (wd_refused w)" using assms(1) unfolding answered_ok_def by blast
    then show ?thesis using assms(4,5) unfolding stored_report_def by blast
  next
    case 2
    then show ?thesis using r by blast
  qed
qed

lemma exchange_inv:
  assumes inv: "world_inv e p w" and codec: "codec_agrees e p" and phase: "ag_phase (wd_agent w) = Sending r d"
    and x: "exchange e p io q arrives r w = Some w'"
  shows "world_inv e p w'"
proof -
  let ?A = "ae_agent_id e"
  let ?known = "last_number ?A (sv_db (wd_server w))"
  note i = inv [unfolded world_inv_def]
  obtain body resp s b where parts: "ae_encode e r = Some body"
      "ingest p (si_ingest io) (q\<lparr>rq_body := body, rq_path_id := []\<rparr>) (wd_server w) = (resp, s)"
      "agent_do e (Attempt (if arrives then Response (rs_status resp) else TransportFails)) (wd_agent w) = Some b"
    and w': "w' = \<lparr>wd_agent = b, wd_server = s,
      wd_rows = wd_rows w @ drop (length (db_reports (sv_db (wd_server w)))) (db_reports (sv_db s)),
      wd_refused = wd_refused w @ (if arrives \<and> rs_status resp \<in> {400, 422} then [r] else [])\<rparr>"
    using exchange_parts [OF x] by metis
  have b: "agent_do e (Attempt (if arrives then Response (rs_status resp) else TransportFails)) (wd_agent w) = Some (wd_agent w')"
    using parts(3) by (simp add: w')
  have binv: "agent_inv e b" by (rule agent_inv_do [OF _ _ parts(3)]) (use i in simp_all)
  have prog: "agent_progress e (wd_agent w) b" by (rule agent_event_progress [OF _ _ parts(3)]) (use i in simp_all)
  have flight: "in_flight (ag_phase (wd_agent w)) = Some r" using phase by simp
  have wait: "rep_agent_id r = ?A" "uint (rep_sequence r) \<le> ?known \<longrightarrow> stored_report e p w r"
    using i flight by (auto simp: numbers_ok_def waiting_def)
  have refused: "set (wd_refused w) \<subseteq> set (wd_refused w')" by (simp add: w')
  have "\<And>r'. decode_body p (rq_body (q\<lparr>rq_body := body, rq_path_id := []\<rparr>)) = Some r' \<Longrightarrow> r' = r"
    using codec parts(1) by (auto simp: codec_agrees_def)
  then show ?thesis
  proof (cases rule: ingest_answer [OF parts(2), of r, case_names ok codec taken kept])
    case ok
    then show ?case using i by simp
  next
    case (taken row)
    have rows: "wd_rows w' = wd_rows w @ [row]" by (simp add: w' taken(5))
    have keep: "stored_report e p w y \<Longrightarrow> stored_report e p w' y" for y by (auto simp: stored_report_def rows)
    have r: "stored_report e p w' r" using taken(6-8) wait(1) by (auto simp: stored_report_def rows)
    have known: "last_number ?A (sv_db s) = uint (rep_sequence r)" "?known < uint (rep_sequence r)"
      using taken(3,4) wait(1) by simp_all
    have "numbers_ok e (uint (rep_sequence r)) (stored_report e p w') (wd_agent w)"
      using numbers_taken [where S = "stored_report e p w" and S' = "stored_report e p w'", OF _ _ flight keep r known(2)] i
      by blast
    then have "numbers_ok e (uint (rep_sequence r)) (stored_report e p w') b" using numbers_progress prog i by blast
    moreover have "rows_ok (uint (rep_sequence r)) (wd_rows w')"
      unfolding rows using rows_taken i known(2) taken(7) by metis
    moreover have "answered_ok e p w'" by (rule exchange_answered [OF _ phase b _ refused]) (use i r rows in auto)
    ultimately show ?thesis using binv taken(2) known(1) by (simp add: world_inv_def w')
  next
    case kept
    have rows: "wd_rows w' = wd_rows w" by (simp add: w' kept(2))
    note same = stored_cong [OF rows, of e p]
    have "stored_report e p w' r \<or> r \<in> set (wd_refused w')"
      if "\<not> fst (send (if arrives then Response (rs_status resp) else TransportFails))"
    proof -
      have arr: "arrives" "\<not> fst (send (Response (rs_status resp)))" using that by (cases arrives; simp)+
      then have "r \<in> set (wd_refused w') \<or> rs_status resp = 409"
        using answer_ends [OF arr(2)] kept(1) by (auto simp: w')
      then show ?thesis using kept(3) wait by (auto simp: same)
    qed
    then have "answered_ok e p w'" by (intro exchange_answered [OF _ phase b _ refused]) (use i rows in simp_all)
    moreover have "numbers_ok e ?known (stored_report e p w') b" unfolding same using numbers_progress prog i by blast
    ultimately show ?thesis using binv i rows kept(2) by (simp add: world_inv_def w')
  qed
qed

lemma world_step_inv:
  assumes inv: "world_inv e p w" and "codec_agrees e p" and "world_ok e x w" and act: "world_do e p x w = Some w'"
  shows "world_inv e p w'"
proof (cases x)
  case (AgentDoes ev)
  note i = inv [unfolded world_inv_def]
  have ev: "event_ok e ev (wd_agent w)" "local_event ev" using assms(3) act AgentDoes by (auto split: if_splits)
  then obtain b where b: "agent_do e ev (wd_agent w) = Some b" "w' = w\<lparr>wd_agent := b\<rparr>"
    using act AgentDoes by auto
  have "numbers_ok e (last_number (ae_agent_id e) (sv_db (wd_server w))) (stored_report e p w) b"
    using numbers_progress agent_event_progress [OF _ ev(1) b(1)] i by blast
  moreover have "stored_report e p w' = stored_report e p w" by (rule stored_cong) (simp add: b(2))
  ultimately show ?thesis using i agent_inv_do [OF _ ev(1) b(1)] local_event_history [OF ev(2) b(1)]
    by (auto simp: world_inv_def answered_ok_def b(2))
next
  case (Exchange io q arrives)
  then show ?thesis using act exchange_inv [OF assms(1,2)] by (auto split: phase.splits)
next
  case (ServerDoes ev)
  note i = inv [unfolded world_inv_def]
  let ?s = "snd (server_do p ev (wd_server w))"
  have w': "w' = w\<lparr>wd_server := ?s\<rparr>" "last_number (ae_agent_id e) (sv_db ?s) = last_number (ae_agent_id e) (sv_db (wd_server w))"
    using act ServerDoes by (auto simp: Let_def split: if_splits)
  have "db_ok (sv_db ?s)"
    using server_do_provisioned [of "db_tokens (sv_db (wd_server w))" "wd_server w" ev p] i assms(3) ServerDoes
    by (simp add: provisioned_def)
  moreover have "stored_report e p w' = stored_report e p w" by (rule stored_cong) (simp add: w'(1))
  ultimately show ?thesis using i w'(2) by (simp add: world_inv_def answered_ok_def w'(1))
next
  case (ServerRestarts exec io c)
  note i = inv [unfolded world_inv_def]
  obtain s d' where s: "start_server p exec io c (current_database (sv_db (wd_server w))) = (Runs s, d')" "w' = w\<lparr>wd_server := s\<rparr>"
    using act ServerRestarts by (auto split: prod.splits boot_result.splits)
  have "db_ok (sv_db s)" "last_number (ae_agent_id e) (sv_db s) = last_number (ae_agent_id e) (sv_db (wd_server w))"
    using restart_keeps [OF s(1)] i by blast+
  moreover have "stored_report e p w' = stored_report e p w" by (rule stored_cong) (simp add: s(2))
  ultimately show ?thesis using i by (simp add: world_inv_def answered_ok_def s(2))
qed

lemma world_reachable_inv: "world_reachable e p w \<Longrightarrow> codec_agrees e p \<Longrightarrow> world_inv e p w"
proof (induction rule: world_reachable.induct)
  case (new s)
  have a: "spooled e (agent_off e) = []" "in_flight (ag_phase (agent_off e)) = None" "ag_delivered (agent_off e) = []"
      "ag_rejected (agent_off e) = []"
    by (simp_all add: agent_off_def queue_def)
  show ?case using new agent_inv_off [of e] a
    by (simp add: world_inv_def numbers_ok_def waiting_def rows_ok_def answered_ok_def)
next
  case (step w x w')
  then show ?case using world_step_inv by blast
qed

text \<open>Reports leave the spool only as the theorem says.\<close>

lemma world_step_spool:
  assumes "world_inv e p w" and "codec_agrees e p" and "world_ok e x w" and act: "world_do e p x w = Some w'"
    and "r \<in> set (spooled e (wd_agent w))"
  shows "r \<in> set (spooled e (wd_agent w')) \<or> stored_report e p w' r \<or> r \<in> set (wd_refused w') \<or>
    evicted_by_newer e r (wd_agent w')"
proof -
  have ans: "answered_ok e p w'" using world_step_inv [OF assms(1-4)] by (simp add: world_inv_def)
  have agent: ?thesis if "event_ok e ev (wd_agent w)" "agent_do e ev (wd_agent w) = Some (wd_agent w')" for ev
    using event_keeps_report [OF _ that assms(5)] assms(1) ans by (auto simp: world_inv_def answered_ok_def)
  show ?thesis
  proof (cases x)
    case (AgentDoes ev)
    then show ?thesis using agent [of ev] act assms(3) by (auto split: if_splits)
  next
    case (Exchange io q arrives)
    then obtain y where "agent_do e (Attempt y) (wd_agent w) = Some (wd_agent w')"
      using act by (auto simp: exchange_def simp del: agent_do.simps split: phase.splits option.splits prod.splits)
    then show ?thesis using agent [of "Attempt y"] by simp
  qed (use act assms(5) in \<open>auto simp: Let_def split: if_splits prod.splits boot_result.splits\<close>)
qed

subsection \<open>Property\<close>


text \<open>The first report of an agent, whose answer is lost: it is stored, sent again after a second, and not
  stored twice.\<close>

definition first_sent :: report where "first_sent = zero_report ''web'' 1 demo_now"

definition delivery_env :: agent_env where
  "delivery_env = \<lparr>ae_agent_id = ''web'', ae_directory = ''spool'', ae_queue_size = 1,
     ae_encode = (\<lambda>r. if r = first_sent then Some ''report'' else None),
     ae_decode = (\<lambda>t. if t = ''report'' then Some first_sent else None)\<rparr>"

definition delivery_lib :: server_lib where
  "delivery_lib = demo_server_lib\<lparr>sl_decode_strict := (\<lambda>t. if t = ''report'' then Some (first_sent, []) else None)\<rparr>"

definition first_events :: "event list" where
  "first_events = [Restart calm (\<lambda>_. False), Collect calm (\<lambda>_. False) (Some (zero_report [] 0 demo_now)) demo_results,
     PeekSpool calm]"

lemma world_agent_run:
  "world_reachable e p w \<Longrightarrow> events_ok e es (wd_agent w) \<Longrightarrow> \<forall>ev \<in> set es. local_event ev \<Longrightarrow>
    world_reachable e p (w\<lparr>wd_agent := the (agent_run e es (wd_agent w))\<rparr>)"
proof (induction es arbitrary: w)
  case (Cons ev es)
  then obtain b where b: "agent_do e ev (wd_agent w) = Some b" "event_ok e ev (wd_agent w)" "events_ok e es b"
    by (auto split: option.splits)
  have "world_reachable e p (w\<lparr>wd_agent := b\<rparr>)"
    by (rule world_reachable.step [OF Cons.prems(1), of "AgentDoes ev"]) (use b Cons.prems(3) in simp_all)
  then show ?case using Cons.IH [of "w\<lparr>wd_agent := b\<rparr>"] b Cons.prems(3) by simp
qed simp

lemma first_events_run:
  "events_ok delivery_env first_events (agent_off delivery_env)"
  "ag_phase (the (agent_run delivery_env first_events (agent_off delivery_env))) = Sending first_sent second"
  by (simp_all add: first_events_def delivery_env_def first_sent_def demo_eval calm_temporary Let_def)

lemma delivery_codec: "codec_agrees delivery_env delivery_lib"
  by (auto simp: codec_agrees_def delivery_env_def delivery_lib_def decode_body_def split: if_splits)

lemma ingest_path_id: "ingest p io (r\<lparr>rq_path_id := v\<rparr>) s = ingest p io r s"
proof -
  have "client_ip lib proxy (r\<lparr>rq_path_id := v\<rparr>) = client_ip lib proxy r" for lib proxy
    by (simp add: client_ip_def Let_def cong: option.case_cong if_cong)
  moreover have "authorised p io (r\<lparr>rq_path_id := v\<rparr>) = authorised p io r" by (simp add: authorised_def fun_eq_iff)
  ultimately show ?thesis by (simp add: ingest_def Let_def cong: option.case_cong if_cong)
qed

lemma exchange_always:
  assumes "ag_phase (wd_agent w) = Sending r d" and "ae_encode e r = Some body"
  shows "\<exists>w'. world_do e p (Exchange io q arrives) w = Some w'"
proof -
  obtain resp s where i: "ingest p (si_ingest io) (q\<lparr>rq_body := body, rq_path_id := []\<rparr>) (wd_server w) = (resp, s)"
    by force
  let ?x = "Attempt (if arrives then Response (rs_status resp) else TransportFails)"
  have "agent_do e (Attempt y) (wd_agent w) \<noteq> None" for y
    using assms(1) by (cases "fst (send y)"; cases "snd (send y)") (simp_all add: case_prod_beta)
  then obtain b where "agent_do e ?x (wd_agent w) = Some b" by blast
  then show ?thesis using assms i by (simp add: exchange_def serve_report del: agent_do.simps)
qed

lemma first_sending:
  "\<exists>a. world_reachable delivery_env delivery_lib \<lparr>wd_agent = a, wd_server = demo_start, wd_rows = [], wd_refused = []\<rparr> \<and>
     ag_phase a = Sending first_sent second"
proof -
  let ?w = "\<lparr>wd_agent = agent_off delivery_env, wd_server = demo_start, wd_rows = [], wd_refused = []\<rparr>"
  have "last_number (ae_agent_id delivery_env) (sv_db demo_start) = 0"
    by (simp add: last_number_def demo_start_fields amap_defs delivery_env_def)
  then have "world_reachable delivery_env delivery_lib ?w" by (rule world_reachable.new [OF demo_start_db_ok])
  then have "world_reachable delivery_env delivery_lib (?w\<lparr>wd_agent := the (agent_run delivery_env first_events (wd_agent ?w))\<rparr>)"
    by (rule world_agent_run) (use first_events_run(1) in \<open>simp_all add: first_events_def\<close>)
  then show ?thesis using first_events_run(2) by auto
qed

lemma first_stored:
  "\<exists>resp s. ingest delivery_lib demo_ingest_io demo_request demo_start = (resp, s) \<and> map rr_sequence (db_reports (sv_db s)) = [1]"
proof -
  obtain resp s where i: "ingest delivery_lib demo_ingest_io demo_request demo_start = (resp, s)" "rs_status resp = 202"
    using demo_ingests [OF delivery_lib_def _ first_sent_def] by auto
  have d: "decode_body delivery_lib (rq_body demo_request) = Some first_sent"
    by (simp add: decode_body_def delivery_lib_def max_report_body_def demo_request_def)
  have seq: "rep_sequence first_sent = 1" by (simp add: first_sent_def zero_report_def)
  have none: "db_reports (sv_db demo_start) = []" by (simp add: demo_start_fields db_empty_def)
  have "map rr_sequence (db_reports (sv_db s)) = [1]"
    by (cases rule: ingest_answer [OF i(1) demo_start_db_ok, of first_sent]) (use d none seq i(2) in simp_all)
  then show ?thesis using i(1) by (intro exI conjI)
qed


end
