(* ===== verification/Event_Stream.thy ===== *)
theory Event_Stream
  imports Broker GoText
begin

text \<open>
  The event stream of a live dashboard (\<open>Server.eventStream\<close> of \<open>internal/server/server.go\<close>): one goroutine per
  request that subscribes to the broker, copies its channel to the response and unsubscribes at the end.
  Its steps are interleaved with the calls of all other goroutines on the broker.  Writing to a connection
  that is gone is not an error of the code, it ignores the results.
\<close>

subsection \<open>The handler\<close>

definition lf :: char where "lf = CHR 0x0A"

definition connected_text :: string where "connected_text = '': connected'' @ [lf, lf]"
definition keepalive_text :: string where "keepalive_text = '': keepalive'' @ [lf, lf]"

definition event_text :: "string \<Rightarrow> string" where
  "event_text message = ''event: report'' @ [lf] @ ''data: '' @ message @ [lf, lf]"

record connection =
  cn_channel :: nat
  cn_written :: "string list"
  cn_open :: bool

text \<open>\<open>None\<close>: the response cannot be flushed, the answer is an error with status 500.\<close>

definition open_stream :: "bool \<Rightarrow> broker \<Rightarrow> connection option \<times> broker" where
  "open_stream flushes b =
     (if \<not> flushes then (None, b)
      else (case subscribe b of (c, b1) \<Rightarrow>
        (Some \<lparr>cn_channel = c, cn_written = [connected_text], cn_open = True\<rparr>, b1)))"

text \<open>The branches of the \<open>select\<close>; a branch on a channel is ready only when something has arrived.\<close>

datatype stream_step = RequestDone | Revalidate | MessageArrived | KeepAliveTick

fun stream_do :: "stream_step \<Rightarrow> connection \<times> broker \<Rightarrow> (connection \<times> broker) option" where
  "stream_do RequestDone (cn, b) =
     (if cn_open cn then Some (cn\<lparr>cn_open := False\<rparr>, unsubscribe (cn_channel cn) b) else None)"
| "stream_do Revalidate (cn, b) =
     (if cn_open cn then Some (cn\<lparr>cn_open := False\<rparr>, unsubscribe (cn_channel cn) b) else None)"
| "stream_do MessageArrived (cn, b) =
     (if cn_open cn then
        (case receive (cn_channel cn) b of
           (None, _) \<Rightarrow> None
         | (Some message, b1) \<Rightarrow> Some (cn\<lparr>cn_written := cn_written cn @ [event_text message]\<rparr>, b1))
      else None)"
| "stream_do KeepAliveTick (cn, b) =
     (if cn_open cn then Some (cn\<lparr>cn_written := cn_written cn @ [keepalive_text]\<rparr>, b) else None)"

datatype stream_act = Own stream_step | Others broker_call

fun stream_run :: "stream_act list \<Rightarrow> connection \<times> broker \<Rightarrow> (connection \<times> broker) option" where
  "stream_run [] st = Some st"
| "stream_run (Own x # acts) st = (case stream_do x st of None \<Rightarrow> None | Some st' \<Rightarrow> stream_run acts st')"
| "stream_run (Others x # acts) (cn, b) = stream_run acts (cn, broker_do x b)"

text \<open>The calls of an execution on the broker, and those the other goroutines can make: they know other
  channels only.\<close>

fun act_calls :: "nat \<Rightarrow> stream_act \<Rightarrow> broker_call list" where
  "act_calls c (Own MessageArrived) = [Receive c]"
| "act_calls c (Own KeepAliveTick) = []"
| "act_calls c (Own RequestDone) = [Unsubscribe c]"
| "act_calls c (Own Revalidate) = [Unsubscribe c]"
| "act_calls c (Others x) = [x]"

definition all_calls :: "nat \<Rightarrow> stream_act list \<Rightarrow> broker_call list" where
  "all_calls c acts = concat (map (act_calls c) acts)"

definition foreign_act :: "nat \<Rightarrow> stream_act \<Rightarrow> bool" where
  "foreign_act c a \<longleftrightarrow> a \<noteq> Others (Unsubscribe c) \<and> a \<noteq> Others (Receive c)"

subsection \<open>Reading the stream\<close>

text \<open>What a browser makes of the bytes (the \<open>text/event-stream\<close> format): a line ends a field, an empty line
  an event; the data of an event without any is not delivered, and comments are skipped.  The text
  contains no carriage returns.\<close>

definition sse_field :: "string \<Rightarrow> string \<Rightarrow> string" where
  "sse_field line data =
     (if has_prefix line ''data: '' then (if data = [] then drop 6 line else data @ [lf] @ drop 6 line) else data)"

fun sse_from :: "string \<Rightarrow> string \<Rightarrow> string \<Rightarrow> string list" where
  "sse_from line data [] = []"
| "sse_from line data (c # cs) =
     (if c = lf then
        (if line = [] then (if data = [] then sse_from [] [] cs else data # sse_from [] [] cs)
         else sse_from [] (sse_field line data) cs)
      else sse_from (line @ [c]) data cs)"

definition sse_events :: "string \<Rightarrow> string list" where
  "sse_events text = sse_from [] [] text"

lemma sse_line:
  "lf \<notin> set l \<Longrightarrow> line @ l \<noteq> [] \<Longrightarrow> sse_from line data (l @ lf # cs) = sse_from [] (sse_field (line @ l) data) cs"
  by (induction l arbitrary: line) auto

lemma sse_connected: "sse_from [] [] (connected_text @ cs) = sse_from [] [] cs"
  using sse_line [of "'': connected''" "[]" "[]" "lf # cs"]
  by (simp add: connected_text_def lf_def sse_field_def has_prefix_def)

lemma sse_keepalive: "sse_from [] [] (keepalive_text @ cs) = sse_from [] [] cs"
  using sse_line [of "'': keepalive''" "[]" "[]" "lf # cs"]
  by (simp add: keepalive_text_def lf_def sse_field_def has_prefix_def)

lemma sse_event: "lf \<notin> set m \<Longrightarrow> m \<noteq> [] \<Longrightarrow> sse_from [] [] (event_text m @ cs) = m # sse_from [] [] cs"
  using sse_line [of "''event: report''" "[]" "[]" "''data: '' @ m @ lf # lf # cs"]
    sse_line [of "''data: '' @ m" "[]" "[]" "lf # cs"]
  by (simp add: event_text_def lf_def sse_field_def has_prefix_def)

text \<open>The chunks of a connection carry these messages, in order.\<close>

fun carries :: "string list \<Rightarrow> string list \<Rightarrow> bool" where
  "carries [] ms \<longleftrightarrow> ms = []"
| "carries (w # ws) ms \<longleftrightarrow> w = keepalive_text \<and> carries ws ms \<or>
     (case ms of [] \<Rightarrow> False | m # ms' \<Rightarrow> w = event_text m \<and> carries ws ms')"

lemma carries_events:
  "carries ws ms \<Longrightarrow> \<forall>m \<in> set ms. lf \<notin> set m \<and> m \<noteq> [] \<Longrightarrow> sse_from [] [] (concat ws) = ms"
proof (induction ws ms rule: carries.induct)
  case (2 w ws ms)
  then show ?case by (auto simp: sse_keepalive sse_event split: list.splits)
qed simp

lemma carries_append: "carries ws ms \<Longrightarrow> carries vs ns \<Longrightarrow> carries (ws @ vs) (ms @ ns)"
  by (induction ws ms rule: carries.induct) (auto split: list.splits)

subsection \<open>Interleaving\<close>

lemma delivered_none: "x \<noteq> Receive c \<Longrightarrow> delivered c (x # xs) b = delivered c xs (broker_do x b)"
  by (cases x) auto

lemma broker_run_Cons: "broker_run (x # xs) b = broker_run xs (broker_do x b)"
  by (simp add: broker_run_def)

lemma unsubscribe_call: "broker_do (Unsubscribe c) b = unsubscribe c b"
  by simp

lemma stream_run_delivers:
  assumes "stream_run acts (cn, b) = Some (cn', b')" and "\<forall>a \<in> set acts. foreign_act (cn_channel cn) a"
  shows "cn_channel cn' = cn_channel cn \<and> b' = broker_run (all_calls (cn_channel cn) acts) b \<and>
    (\<exists>ws. cn_written cn' = cn_written cn @ ws \<and> carries ws (delivered (cn_channel cn) (all_calls (cn_channel cn) acts) b)) \<and>
    (\<not> cn_open cn \<longrightarrow> \<not> cn_open cn') \<and>
    (cn_open cn' \<longrightarrow> Unsubscribe (cn_channel cn) \<notin> set (all_calls (cn_channel cn) acts))"
  using assms
proof (induction acts arbitrary: cn b)
  case Nil
  then show ?case by (simp add: all_calls_def broker_run_def)
next
  case (Cons a acts)
  let ?c = "cn_channel cn"
  have rest: "\<forall>a \<in> set acts. foreign_act ?c a" using Cons.prems(2) by simp
  show ?case
  proof (cases a)
    case (Others x)
    have x: "x \<noteq> Receive ?c" "x \<noteq> Unsubscribe ?c" using Cons.prems(2) Others by (auto simp: foreign_act_def)
    have "stream_run acts (cn, broker_do x b) = Some (cn', b')" using Cons.prems(1) Others by simp
    from Cons.IH [OF this rest] show ?thesis
      using x Others by (auto simp: all_calls_def broker_run_Cons delivered_none simp del: delivered.simps)
  next
    case (Own y)
    obtain cn1 b1 where s: "stream_do y (cn, b) = Some (cn1, b1)" "stream_run acts (cn1, b1) = Some (cn', b')"
      using Cons.prems(1) Own by (auto split: option.splits)
    have ch: "cn_channel cn1 = ?c" using s(1) by (cases y) (auto split: if_splits option.splits prod.splits)
    note ih = Cons.IH [OF s(2), unfolded ch, OF rest]
    have "cn_open cn" using s(1) by (cases y) (auto split: if_splits)
    show ?thesis
    proof (cases y)
      case MessageArrived
      obtain m where m: "receive ?c b = (Some m, b1)" "cn1 = cn\<lparr>cn_written := cn_written cn @ [event_text m]\<rparr>"
        using s(1) MessageArrived \<open>cn_open cn\<close> by (auto split: option.splits prod.splits)
      obtain ws where ws: "cn_written cn' = cn_written cn1 @ ws" "carries ws (delivered ?c (all_calls ?c acts) b1)"
        using ih by blast
      have "carries ([event_text m] @ ws) ([m] @ delivered ?c (all_calls ?c acts) b1)"
        by (rule carries_append) (simp_all add: ws(2))
      then show ?thesis using ih m MessageArrived Own ws(1)
        by (auto simp: all_calls_def broker_run_Cons)
    next
      case KeepAliveTick
      have cn1: "cn1 = cn\<lparr>cn_written := cn_written cn @ [keepalive_text]\<rparr>" "b1 = b"
        using s(1) KeepAliveTick \<open>cn_open cn\<close> by auto
      obtain ws where ws: "cn_written cn' = cn_written cn1 @ ws" "carries ws (delivered ?c (all_calls ?c acts) b1)"
        using ih by blast
      have "carries (keepalive_text # ws) (delivered ?c (all_calls ?c acts) b)" using ws(2) cn1(2) by simp
      then show ?thesis using ih cn1 KeepAliveTick Own ws(1) by (auto simp: all_calls_def)
    next
      case RequestDone
      have cn1: "cn1 = cn\<lparr>cn_open := False\<rparr>" "b1 = broker_do (Unsubscribe ?c) b"
        using s(1) RequestDone \<open>cn_open cn\<close> by auto
      then show ?thesis using ih RequestDone Own
        by (auto simp: all_calls_def broker_run_Cons delivered_none simp del: delivered.simps broker_do.simps)
    next
      case Revalidate
      have cn1: "cn1 = cn\<lparr>cn_open := False\<rparr>" "b1 = broker_do (Unsubscribe ?c) b"
        using s(1) Revalidate \<open>cn_open cn\<close> by auto
      then show ?thesis using ih Revalidate Own
        by (auto simp: all_calls_def broker_run_Cons delivered_none simp del: delivered.simps broker_do.simps)
    qed
  qed
qed

lemma stream_run_closed:
  assumes "stream_run acts (cn, b) = Some (cn', b')" and "cn_open cn" and "\<not> cn_open cn'"
  shows "Unsubscribe (cn_channel cn) \<in> set (all_calls (cn_channel cn) acts)"
  using assms
proof (induction acts arbitrary: cn b)
  case (Cons a acts)
  show ?case
  proof (cases a)
    case (Own y)
    show ?thesis
    proof (cases "y = RequestDone \<or> y = Revalidate")
      case True
      then show ?thesis using Own by (auto simp: all_calls_def)
    next
      case False
      then obtain cn1 b1 where "stream_do y (cn, b) = Some (cn1, b1)" "stream_run acts (cn1, b1) = Some (cn', b')"
          "cn_channel cn1 = cn_channel cn" "cn_open cn1"
        using Cons.prems Own by (cases y) (auto split: option.splits prod.splits)
      then show ?thesis using Cons.IH [of cn1 b1] Cons.prems(3) by (auto simp: all_calls_def)
    qed
  next
    case (Others x)
    then show ?thesis using Cons by (auto simp: all_calls_def)
  qed
qed simp

subsection \<open>What arrives\<close>

lemma next_grows: "br_next b \<le> br_next (broker_do x b)"
  by (cases x) (auto simp: subscribe_def unsubscribe_def publish_def receive_def split: option.splits list.splits)

lemma gone_step:
  assumes "amap_get (br_subscribers b) c = None" and "c < br_next b"
  shows "amap_get (br_subscribers (broker_do x b)) c = None"
  using assms
  by (cases x) (auto simp: subscribe_def unsubscribe_def publish_def receive_def get_publish amap.get_put amap.get_del
      split: option.splits list.splits)

lemma unsubscribed: "amap_get (br_subscribers (broker_do (Unsubscribe c) b)) c = None"
  by (simp add: unsubscribe_def amap.get_del split: option.splits)

lemma gone_run:
  "amap_get (br_subscribers b) c = None \<Longrightarrow> c < br_next b \<Longrightarrow> amap_get (br_subscribers (broker_run xs b)) c = None"
proof (induction xs arbitrary: b)
  case (Cons x xs)
  have "c < br_next (broker_do x b)" using next_grows [of b x] Cons.prems(2) by linarith
  then show ?case using Cons.IH gone_step [OF Cons.prems] by (simp add: broker_run_Cons)
qed (simp add: broker_run_def)

lemma closed_gone:
  "Unsubscribe c \<in> set xs \<Longrightarrow> c < br_next b \<Longrightarrow> amap_get (br_subscribers (broker_run xs b)) c = None"
proof (induction xs arbitrary: b)
  case (Cons x xs)
  have n: "c < br_next (broker_do x b)" using next_grows [of b x] Cons.prems(2) by linarith
  show ?case
  proof (cases "x = Unsubscribe c")
    case True
    then show ?thesis using gone_run [OF unsubscribed n [unfolded True]] by (simp only: broker_run_Cons)
  next
    case False
    then show ?thesis using Cons.IH [OF _ n] Cons.prems(1) by (auto simp: broker_run_Cons)
  qed
qed simp

lemma delivered_subseq:
  assumes "broker_ok b" and "c < br_next b"
  shows "subseq (delivered c xs b) (buffered c b @ published xs)"
  using assms
proof (induction xs arbitrary: b)
  case (Cons x xs)
  have n: "c < br_next (broker_do x b)" using next_grows [of b x] Cons.prems(2) by linarith
  note ih = Cons.IH [OF broker_do_ok [OF Cons.prems(1)] n]
  show ?case
  proof (cases "amap_get (br_subscribers b) c")
    case None
    then have "buffered c (broker_do x b) = []" "buffered c b = []" "fst (receive c b) = None"
      using gone_step [OF None Cons.prems(2)] by (simp_all add: buffered_def receive_def)
    then show ?thesis using ih by (cases x) (auto intro: list_emb_Cons)
  next
    case (Some q)
    show ?thesis
    proof (cases "x = Unsubscribe c")
      case True
      then have "buffered c (broker_do x b) = []" using unsubscribed [of c b] by (simp only: buffered_def option.case)
      then show ?thesis using ih True by (auto simp del: broker_do.simps intro: list_emb_append2)
    next
      case False
      note st = channel_step [OF Cons.prems(1) Some False]
      show ?thesis
      proof (cases x)
        case (Publish m)
        have "subseq (offer m q @ published xs) (q @ m # published xs)"
          by (simp add: offer_def subseq_append' list_emb_Cons)
        then show ?thesis using ih st Publish Some subseq_order.trans by (fastforce simp: buffered_def)
      next
        case (Receive k)
        show ?thesis
        proof (cases "k = c \<and> q \<noteq> []")
          case True
          then obtain m rest where "q = m # rest" by (cases q) auto
          then show ?thesis using ih st Receive Some True by (simp add: buffered_def receive_def)
        next
          case False
          then have "k = c \<Longrightarrow> fst (receive c b) = None" using Some by (simp add: receive_def)
          then show ?thesis using ih st Receive Some False by (cases "k = c") (auto simp: buffered_def)
        qed
      qed (use ih st Some in \<open>auto simp: buffered_def\<close>)
    qed
  qed
qed simp

lemma published_append: "published (xs @ ys) = published xs @ published ys"
  by (induction xs rule: published.induct) auto

text \<open>The messages the other goroutines publish during an execution.\<close>

definition published_meanwhile :: "stream_act list \<Rightarrow> string list" where
  "published_meanwhile acts = concat (map (\<lambda>a. case a of Others (Publish m) \<Rightarrow> [m] | _ \<Rightarrow> []) acts)"

lemma published_all: "published (all_calls c acts) = published_meanwhile acts"
proof (induction acts)
  case (Cons a acts)
  have "published (act_calls c a) = (case a of Others (Publish m) \<Rightarrow> [m] | _ \<Rightarrow> [])"
    by (cases "(c, a)" rule: act_calls.cases) (auto split: broker_call.splits)
  then show ?case using Cons.IH by (simp add: all_calls_def published_append published_meanwhile_def)
qed (simp add: all_calls_def published_meanwhile_def)

text \<open>C28. A browser that follows the stream reads the published events: however the handler's steps interleave with
  the rest of the server, the bytes written parse as a stream of events whose data are published
  messages in their order; while the stream is open nothing is missing but what still waits in the
  channel, unless 8 messages were already waiting when one was published; and after the stream has
  ended, because the client left or its five minutes are over, the broker keeps nothing of it.\<close>

theorem event_stream_in_order:
  assumes "broker_ok b" and "open_stream True b = (Some cn, b1)" and "stream_run acts (cn, b1) = Some (cn', b')"
    and "\<forall>a \<in> set acts. foreign_act (cn_channel cn) a" and "\<forall>m \<in> set (published_meanwhile acts). lf \<notin> set m \<and> m \<noteq> []"
  shows "let events = sse_events (concat (cn_written cn')); c = cn_channel cn in
    subseq events (published_meanwhile acts) \<and>
    (cn_open cn' \<and> never_full c (all_calls c acts) b1 \<longrightarrow> events @ buffered c b' = published_meanwhile acts) \<and>
    (\<not> cn_open cn' \<longrightarrow> amap_get (br_subscribers b') c = None)"
proof -
  let ?c = "cn_channel cn" and ?xs = "all_calls (cn_channel cn) acts"
  have b1: "b1 = broker_do Subscribe b" "?c = br_next b" "cn_written cn = [connected_text]" "cn_open cn"
    using assms(2) by (auto simp: open_stream_def subscribe_def)
  have ok: "broker_ok b1" and new: "?c < br_next b1" and empty: "amap_get (br_subscribers b1) ?c = Some []"
    using broker_do_ok [OF assms(1), of Subscribe] b1 by (simp_all add: subscribe_def amap.get_put)
  note run = stream_run_delivers [OF assms(3,4)]
  obtain ws where ws: "cn_written cn' = connected_text # ws" "carries ws (delivered ?c ?xs b1)" using run b1(3) by auto
  have sub: "subseq (delivered ?c ?xs b1) (published_meanwhile acts)"
    using delivered_subseq [OF ok new, of ?xs] empty by (simp add: buffered_def published_all)
  then have "\<forall>m \<in> set (delivered ?c ?xs b1). lf \<notin> set m \<and> m \<noteq> []" using assms(5) by (auto dest: list_emb_set [where P = "(=)"])
  then have ev: "sse_events (concat (cn_written cn')) = delivered ?c ?xs b1"
    using carries_events [OF ws(2)] by (simp add: ws(1) sse_events_def sse_connected)
  have "delivered ?c ?xs b1 @ buffered ?c b' = published_meanwhile acts" if "cn_open cn'" "never_full ?c ?xs b1"
    using channel_run [OF ok empty, of ?xs] run that by (simp add: published_all)
  moreover have "amap_get (br_subscribers b') ?c = None" if "\<not> cn_open cn'"
  proof -
    have "Unsubscribe ?c \<in> set ?xs" by (rule stream_run_closed [OF assms(3) _ that]) (rule b1(4))
    then show ?thesis using closed_gone [OF _ new] run by simp
  qed
  ultimately show ?thesis unfolding Let_def ev using sub by blast
qed

theorem event_stream_in_order_witness:
  "sse_events (concat [connected_text, event_text ''a'', keepalive_text]) = [''a'']"
proof -
  let ?acts = "[Others (Publish ''a''), Own MessageArrived, Own KeepAliveTick]"
  obtain cn b1 where o: "open_stream True new_broker = (Some cn, b1)" by (simp add: open_stream_def subscribe_def)
  have cn: "cn = \<lparr>cn_channel = 0, cn_written = [connected_text], cn_open = True\<rparr>"
      "b1 = \<lparr>br_next = 1, br_subscribers = [(0, [])]\<rparr>"
    using o by (simp_all add: open_stream_def subscribe_def new_broker_def amap_defs)
  have run: "stream_run ?acts (cn, b1) =
      Some (cn\<lparr>cn_written := [connected_text, event_text ''a'', keepalive_text]\<rparr>, b1)"
    by (simp add: cn publish_def offer_def receive_def amap_defs)
  have "broker_ok new_broker" by (simp add: broker_ok_def new_broker_def amap_defs)
  from event_stream_in_order [OF this o run] show ?thesis
    by (simp add: cn foreign_act_def published_meanwhile_def lf_def Let_def all_calls_def buffered_def amap_defs)
qed

end
