(* ===== verification/Spec2Isabelle.thy ===== *)
theory Spec2Isabelle
  imports History Engine_Watch Checks Mailer Delivery Event_Stream
begin

text \<open>
  \<^bold>\<open>Monitorozo\<close>, a monitoring system in Go: agents on the machines measure, check and send reports; one server
  takes the reports, keeps them in SQLite, raises alerts, sends mails about them and shows a dashboard.  This
  development models both programs and what they exchange.

  \<^bold>\<open>The agent\<close> (\<open>cmd/agent/main.go\<close>).  Every interval it collects metrics (\<open>internal/collector\<close>, theories
  \<open>Collector_Parse\<close> and \<open>Collector\<close>, with \<open>Collector_Sound\<close> for what the figures mean), runs its checks
  (\<open>internal/checks\<close>, theory \<open>Checks\<close>), numbers the report (\<open>internal/agent/sequence.go\<close>, \<open>Sequence\<close>) and
  puts it into a spool directory (\<open>internal/agent/spool.go\<close>, \<open>Spool\<close>).  A second goroutine, the sender
  (\<open>internal/agent/sender.go\<close>), drains the spool with retries.  \<open>Agent\<close> composes these: the record \<open>agent\<close>
  is the state of the process and of its disk, \<open>agent_do\<close> one event of it (a collection, a step of the
  sender, a crash, a restart), \<open>agent_step\<close> the relation of its steps.

  \<^bold>\<open>The server\<close> (\<open>cmd/server/main.go\<close>).  Its state, the record \<open>server\<close> of \<open>Server\<close>, holds the configuration, the
  database, sessions, limiters, the event broker, the wake-up token of the notification loop and the mails sent.
  \<^item> \<open>Config\<close> reads the configuration (\<open>internal/config/config.go\<close>); \<open>Config_Sound\<close> says what a configuration
    that loads guarantees to the components.
  \<^item> \<open>Token\<close>, \<open>Session\<close> and \<open>Limiter\<close> are \<open>internal/auth\<close>.
  \<^item> \<open>Report\<close> is \<open>internal/model/report.go\<close>: the data that agent and server share, and its validation.
  \<^item> \<open>Alert_Store\<close> (the record \<open>db\<close>, \<open>ApplyRule\<close>), \<open>Alert_Queries\<close>, \<open>Report_Store\<close>, \<open>Maintenance\<close> and \<open>History\<close>
    are the operations of \<open>internal/storage\<close>; \<open>Store\<close> composes them and carries the invariant \<open>db_ok\<close>, \<open>Alert_Life\<close> the
    life of an alert and the outbox; \<open>Migrations\<close> opens the database.
  \<^item> \<open>Description\<close>, \<open>Engine\<close> and \<open>Engine_Watch\<close> are \<open>internal/alerts\<close>.
  \<^item> \<open>Web\<close> (helpers), \<open>Server\<close> (handlers), \<open>Notify\<close> (notification loop), \<open>Dashboard\<close>, \<open>Broker\<close>, \<open>Event_Stream\<close> and
    \<open>Routing\<close> (the routing table) are \<open>internal/server\<close>; \<open>Mailer\<close> is \<open>internal/email/smtp.go\<close>.
  \<^item> \<open>System\<close> composes them to one transition function \<open>server_do\<close> over \<open>server_event\<close>, with runs \<open>server_run\<close>;
    \<open>System_Safety\<close> has the theorems about the whole server, and \<open>Startup\<close> (\<open>cmd/server/main.go\<close>) leads from the
    command line, the configuration file and an empty or older database to its first state.

  \<^bold>\<open>Both together\<close>.  \<open>Delivery\<close> connects one agent to the server by a network that may lose any answer: the record
  \<open>world\<close> is the state of both, \<open>world_do\<close> one step of the agent, of the server, of an exchange between them, or a
  restart of the server; the request goes through the routes to \<open>ingest\<close>.

  \<^bold>\<open>Go.\<close>  \<open>Prelude\<close> (integers, maps as a locale \<open>go_map\<close> with association lists as its implementation), \<open>GoText\<close>,
  \<open>GoFmt\<close>, \<open>GoEncode\<close>, \<open>GoPath\<close>, \<open>GoMux\<close> (the routing of \<open>net/http\<close>), \<open>GoTime\<close>, \<open>GoFloat\<close> and \<open>GoFloatText\<close> are what
  the program uses of Go and its standard library.  Strings are lists of bytes.  \<open>float64\<close> is IEEE binary64 with
  rounding to nearest even, written out; counters and sequence numbers are 64-bit words or integers with their wrap-around.

  \<^bold>\<open>How effects are modelled.\<close>  Every operation takes its state and returns it.  Faults are inputs: a store
  operation takes a predicate on the calls it makes to the database, a file operation an environment that says which
  system calls fail, so that each \<open>if err != nil\<close> of the source is a branch.  A transaction that fails leaves the
  database unchanged.  Clocks, random bytes, answers of servers and files of the kernel are inputs as
  well.  Argon2id, HMAC, bcrypt, the parsers of URLs, addresses, YAML and JSON, and the conversions of floats out of
  range, which Go leaves to the machine, are arguments; what a theorem needs of them is its hypothesis.

  \<^bold>\<open>What the lemmas show.\<close>
  \<^item> Agent: sequence numbers increase across crashes (\<open>Sequence\<close>); the spool is a bounded sorted queue, an
    interpretation of the locale \<open>report_queue\<close>; a report leaves it only when the server answered or newer reports
    evict it; the sender misses no report and drains the spool in order (\<open>Agent\<close>); rates cover the interval since the last
    report, mount points are read back as the kernel wrote them (\<open>Collector_Sound\<close>); what the agent builds passes the
    server's validation (\<open>Checks\<close>).
  \<^item> Store: all operations keep \<open>db_ok\<close> under all faults (\<open>Store\<close>); \<open>ApplyRule\<close> refines the abstract life
    of an alert (\<open>Alert_Store\<close>), and a whole report moves each alert's life as its rules say (\<open>Engine\<close>, through the locale
    \<open>rule_store\<close>); maintenance and offline detection do exactly what they should (\<open>Maintenance\<close>, \<open>Engine_Watch\<close>); migrations
    run once and in order (\<open>Migrations\<close>).
  \<^item> Server: only a login with the password opens the protected pages, forged requests change nothing, reports are
    stored once, mails are marked as sent only when they were (\<open>System_Safety\<close>); the outbox drains (\<open>Notify\<close>); the
    dashboard is complete and sorted (\<open>Dashboard\<close>); the endpoints that need no login are six, whatever the
    path's spelling (\<open>Routing\<close>); nothing confidential is mailed before TLS (\<open>Mailer\<close>); and the server that starts serves
    the configured tokens from then on (\<open>Startup\<close>).
  \<^item> Both: by an invariant between the agent's numbers and the newest number the server knows, reports are stored in
    order and once, and the agent is done with a report only when it is stored or refused for good (\<open>Delivery\<close>).

  \<^bold>\<open>Bounds and recursion.\<close>  There is no fuel: loops run over lists that exist (files, rows, entries), or are runs of
  explicit events.  The history's thinning is total for every limit; \<open>path_segments\<close> and the parsers shorten
  their text in each call.

  \<^bold>\<open>Not modelled.\<close>  The stubs of \<open>collector_other.go\<close> for systems other than Linux; the HTML templates, scripts and
  styles; the declarations of embedded files and the version variables; logging; the parsing of command-line flags; the
  orderly shutdown on a signal (a crash may happen between any two steps instead); Go's HTTP client and server,
  \<open>net/smtp\<close> and TLS below the steps the program takes; SQLite below single statements and transactions.  Handlers that
  run at the same time are modelled as one after the other, except the notification loop, during whose deliveries
  other transitions happen, the event stream, and the agent's two goroutines.
\<close>

end
